(* ===== verification/Horizon_Prelude.thy ===== *)
theory Horizon_Prelude
  imports Main "HOL-Library.Word"
begin

text \<open>
  Shared vocabulary of the Horizon kernel development: the fixed-width integers of
  \<^verbatim>\<open>include/horizon/types.h\<close> (the kernel is built with \<^verbatim>\<open>-m32\<close>, so \<^verbatim>\<open>long\<close>,
  \<^verbatim>\<open>unsigned long\<close>, \<^verbatim>\<open>size_t\<close> and pointers have 32 bits), the error numbers the modelled
  system calls return, and the generic lemmas on lists, powers of two and words that the
  component theories share.
\<close>

unbundle bit_operations_syntax

section \<open>Machine integers\<close>

type_synonym u8 = "8 word"
type_synonym u16 = "16 word"
type_synonym u32 = "32 word"
type_synonym u64 = "64 word"

text \<open>A C \<^verbatim>\<open>int\<close> result is kept as an \<open>int\<close>; error numbers are negated as in the source.\<close>

definition EPERM :: int where "EPERM = 1"
definition ENOENT :: int where "ENOENT = 2"
definition E2BIG :: int where "E2BIG = 7"
definition EAGAIN :: int where "EAGAIN = 11"
definition ENOMEM :: int where "ENOMEM = 12"
definition EEXIST :: int where "EEXIST = 17"
definition EINVAL :: int where "EINVAL = 22"
definition ENOSPC :: int where "ENOSPC = 28"
definition ENOMSG :: int where "ENOMSG = 42"
definition EIDRM :: int where "EIDRM = 43"

lemmas errno_defs = EPERM_def ENOENT_def E2BIG_def EAGAIN_def ENOMEM_def EEXIST_def
  EINVAL_def ENOSPC_def ENOMSG_def EIDRM_def

section \<open>Lemma collections\<close>

named_theorems kernel_defs \<open>defining equations of non-recursive kernel operations\<close>
named_theorems inv_intros \<open>introduction rules: an operation keeps its component's invariant\<close>

section \<open>Options as results that may fault\<close>

text \<open>
  Where the C code would write through a null pointer or index an array out of range, the model
  has no result: the operation returns \<^const>\<open>None\<close>. Theorems then state that the operation
  has a result.
\<close>

lemma bind_Some_iff:
  "Option.bind m f = Some y \<longleftrightarrow> (\<exists>x. m = Some x \<and> f x = Some y)"
  by (cases m) auto

lemma ex_bind_SomeI:
  "m = Some x \<Longrightarrow> \<exists>y. f x = Some y \<and> P y \<Longrightarrow> \<exists>y. Option.bind m f = Some y \<and> P y"
  by auto

section \<open>Lists\<close>

lemma remove1_middle: "x \<notin> set xs \<Longrightarrow> remove1 x (xs @ x # ys) = xs @ ys"
  by (induction xs) auto

lemma split_list_distinct:
  assumes "x \<in> set xs" and "distinct xs"
  obtains us vs where "xs = us @ x # vs" and "x \<notin> set us" and "x \<notin> set vs"
proof -
  from assms(1) obtain us vs where "xs = us @ x # vs"
    by (blast dest: split_list)
  with assms(2) show thesis by (intro that [of us vs]) auto
qed

section \<open>Signed counters\<close>

text \<open>A C \<^verbatim>\<open>int\<close> that counts up and down is kept as a word and read with \<^const>\<open>sint\<close>.\<close>

lemma sint_of_nat_small: "n < 2 ^ 31 \<Longrightarrow> sint (of_nat n :: u32) = int n"
  by (simp add: sint_uint unsigned_of_nat take_bit_nat_eq_self signed_take_bit_int_eq_self)

lemma sint_succ:
  assumes "0 \<le> sint (w :: u32)" and "sint w < 2 ^ 31 - 1"
  shows "sint (w + 1) = sint w + 1"
proof -
  have "w = of_int (sint w)" by simp
  then have "w = of_nat (nat (sint w))" using assms(1) by (metis of_nat_nat)
  then have "w + 1 = of_nat (Suc (nat (sint w)))" by simp
  with sint_of_nat_small [of "Suc (nat (sint w))"] assms show ?thesis by (simp del: of_nat_Suc)
qed

lemma sint_lt_2p31: "sint (w :: u32) < 2 ^ 31"
  using sint_lt [of w] by simp

lemma sint_pred:
  assumes "0 < sint (w :: u32)"
  shows "sint (w - 1) = sint w - 1"
proof -
  obtain n where n: "sint w = int (Suc n)" using assms by (metis gr0_implies_Suc zero_less_imp_eq_int)
  have "w = of_int (sint w)" by simp
  then have "w - 1 = of_nat n" unfolding n by simp
  then show ?thesis using sint_of_nat_small [of n] sint_lt_2p31 [of w] n by simp
qed

lemma sint_zero_iff: "sint (w :: u32) = 0 \<longleftrightarrow> w = 0"
proof
  assume z: "sint w = 0"
  have "w = of_int (sint w)" by simp
  then show "w = 0" unfolding z by simp
qed simp

end
