(* ===== verification/Kernel_List.thy ===== *)
theory Kernel_List
  imports Horizon_Prelude
begin

text \<open>
  The intrusive doubly linked lists of \<^verbatim>\<open>include/horizon/list.h\<close>. A list head or list node is
  an address of some type \<open>'a\<close>; the two pointer fields of all nodes form a heap. The operations
  write the fields in the order of the C code. Following a null pointer has no result.
  The abstraction \<open>lists_at h H L\<close> says that in heap \<open>h\<close> every head \<open>a\<close> of the set \<open>H\<close>
  carries the circular list of nodes \<open>L a\<close>, with no node shared. The locale \<open>linked_lists\<close> is the
  interface the other components use; it is interpreted on these operations.
\<close>

section \<open>Nodes and operations\<close>

text \<open>\<^verbatim>\<open>struct list_head\<close>: a \<^verbatim>\<open>next\<close> and a \<^verbatim>\<open>prev\<close> pointer per address; \<^const>\<open>None\<close> is NULL.\<close>

record 'a list_heap =
  nxt :: "'a \<Rightarrow> 'a option"
  prv :: "'a \<Rightarrow> 'a option"

definition list_init :: "'a list_heap \<Rightarrow> 'a \<Rightarrow> 'a list_heap" where
  "list_init h a = h\<lparr>nxt := (nxt h)(a := Some a), prv := (prv h)(a := Some a)\<rparr>"

definition list_add :: "'a list_heap \<Rightarrow> 'a \<Rightarrow> 'a \<Rightarrow> 'a list_heap option" where
  "list_add h new head =
     (case nxt h head of
        None \<Rightarrow> None
      | Some n \<Rightarrow>
          let h1 = h\<lparr>prv := (prv h)(n := Some new)\<rparr>;
              h2 = h1\<lparr>nxt := (nxt h1)(new := nxt h1 head)\<rparr>;
              h3 = h2\<lparr>prv := (prv h2)(new := Some head)\<rparr>
          in Some (h3\<lparr>nxt := (nxt h3)(head := Some new)\<rparr>))"

definition list_add_tail :: "'a list_heap \<Rightarrow> 'a \<Rightarrow> 'a \<Rightarrow> 'a list_heap option" where
  "list_add_tail h new head =
     (case prv h head of
        None \<Rightarrow> None
      | Some p \<Rightarrow>
          let h1 = h\<lparr>nxt := (nxt h)(p := Some new)\<rparr>;
              h2 = h1\<lparr>prv := (prv h1)(new := prv h1 head)\<rparr>;
              h3 = h2\<lparr>nxt := (nxt h2)(new := Some head)\<rparr>
          in Some (h3\<lparr>prv := (prv h3)(head := Some new)\<rparr>))"

definition list_del :: "'a list_heap \<Rightarrow> 'a \<Rightarrow> 'a list_heap option" where
  "list_del h entry =
     (case nxt h entry of
        None \<Rightarrow> None
      | Some n \<Rightarrow>
          let h1 = h\<lparr>prv := (prv h)(n := prv h entry)\<rparr>
          in case prv h1 entry of
               None \<Rightarrow> None
             | Some p \<Rightarrow>
                 let h2 = h1\<lparr>nxt := (nxt h1)(p := nxt h1 entry)\<rparr>;
                     h3 = h2\<lparr>nxt := (nxt h2)(entry := None)\<rparr>
                 in Some (h3\<lparr>prv := (prv h3)(entry := None)\<rparr>))"

definition list_empty :: "'a list_heap \<Rightarrow> 'a \<Rightarrow> bool" where
  "list_empty h head \<longleftrightarrow> nxt h head = Some head"

text \<open>
  \<^verbatim>\<open>list_for_each\<close>: the nodes visited from \<open>pos\<close> until the head is met again. The walk need
  not end on a damaged list, hence the option.
\<close>

partial_function (option) list_walk :: "'a list_heap \<Rightarrow> 'a \<Rightarrow> 'a \<Rightarrow> 'a list option" where
  "list_walk h pos head =
     (if pos = head then Some []
      else case nxt h pos of
             None \<Rightarrow> None
           | Some p \<Rightarrow> Option.bind (list_walk h p head) (\<lambda>xs. Some (pos # xs)))"

definition list_for_each :: "'a list_heap \<Rightarrow> 'a \<Rightarrow> 'a list option" where
  "list_for_each h head = Option.bind (nxt h head) (\<lambda>p. list_walk h p head)"

section \<open>Chains of linked nodes\<close>

definition link :: "'a list_heap \<Rightarrow> 'a \<Rightarrow> 'a \<Rightarrow> bool" where
  "link h a b \<longleftrightarrow> nxt h a = Some b \<and> prv h b = Some a"

fun chain :: "'a list_heap \<Rightarrow> 'a list \<Rightarrow> bool" where
  "chain h (a # b # xs) \<longleftrightarrow> link h a b \<and> chain h (b # xs)"
| "chain h xs \<longleftrightarrow> True"

lemma chain_append:
  "chain h (xs @ y # ys) \<longleftrightarrow> chain h (xs @ [y]) \<and> chain h (y # ys)"
  by (induction xs rule: induct_list012) auto

lemma chain_cong:
  assumes "\<And>x. x \<in> set (butlast zs) \<Longrightarrow> nxt h' x = nxt h x"
    and "\<And>x. x \<in> set (tl zs) \<Longrightarrow> prv h' x = prv h x"
  shows "chain h' zs = chain h zs"
  using assms
proof (induction zs rule: induct_list012)
  case (3 a b xs)
  have "set (tl (b # xs)) \<subseteq> set (tl (a # b # xs))" by auto
  with 3 show ?case by (auto simp: link_def)
qed auto

definition dll :: "'a list_heap \<Rightarrow> 'a \<Rightarrow> 'a list \<Rightarrow> bool" where
  "dll h a xs \<longleftrightarrow> chain h (a # xs @ [a]) \<and> distinct (a # xs)"

definition lists_at :: "'a list_heap \<Rightarrow> 'a set \<Rightarrow> ('a \<Rightarrow> 'a list) \<Rightarrow> bool" where
  "lists_at h H L \<longleftrightarrow> (\<forall>a\<in>H. dll h a (L a)) \<and>
     (\<forall>a\<in>H. \<forall>b\<in>H. a \<noteq> b \<longrightarrow> set (a # L a) \<inter> set (b # L b) = {})"

lemma dll_cong:
  assumes "\<And>x. x \<in> set (a # xs) \<Longrightarrow> nxt h' x = nxt h x \<and> prv h' x = prv h x"
  shows "dll h' a xs = dll h a xs"
proof -
  have "chain h' (a # xs @ [a]) = chain h (a # xs @ [a])"
    using assms by (intro chain_cong) (auto simp: butlast_append)
  then show ?thesis by (simp add: dll_def)
qed

section \<open>Splicing a ring\<close>

text \<open>
  A ring is a chain whose first and last node may coincide. Inserting a fresh node between two
  neighbours, and taking a node out, keep rings; everything else about the pointer operations
  follows from these two facts.
\<close>

definition ring :: "'a list_heap \<Rightarrow> 'a list \<Rightarrow> bool" where
  "ring h zs \<longleftrightarrow> chain h zs \<and> distinct (butlast zs) \<and> distinct (tl zs)"

lemma dll_ring: "dll h a xs \<longleftrightarrow> ring h (a # xs @ [a])"
  by (auto simp: dll_def ring_def butlast_append)

definition splice_in :: "'a list_heap \<Rightarrow> 'a \<Rightarrow> 'a \<Rightarrow> 'a \<Rightarrow> 'a list_heap" where
  "splice_in h a n b =
     h\<lparr>nxt := (nxt h)(a := Some n, n := Some b), prv := (prv h)(b := Some n, n := Some a)\<rparr>"

definition splice_out :: "'a list_heap \<Rightarrow> 'a \<Rightarrow> 'a \<Rightarrow> 'a \<Rightarrow> 'a list_heap" where
  "splice_out h a e b =
     h\<lparr>nxt := (nxt h)(a := Some b, e := None), prv := (prv h)(b := Some a, e := None)\<rparr>"

lemma chain_frame:
  assumes "chain h zs" and "set (butlast zs) \<inter> N = {}" and "set (tl zs) \<inter> P = {}"
    and "\<And>x. x \<notin> N \<Longrightarrow> nxt h' x = nxt h x" and "\<And>x. x \<notin> P \<Longrightarrow> prv h' x = prv h x"
  shows "chain h' zs"
  using assms chain_cong [of zs h' h] by blast

lemma ring_parts:
  assumes "ring h (us @ a # b # vs)"
  shows "chain h (us @ [a])" "link h a b" "chain h (b # vs)"
    and "a \<notin> set us" "a \<notin> set (butlast (b # vs))"
    and "b \<notin> set (tl (us @ [a]))" "b \<notin> set vs"
  using assms chain_append [of h us a "b # vs"]
  by (cases us; auto simp: ring_def butlast_append)+

lemma ring_splice_in:
  assumes r: "ring h (us @ a # b # vs)" and n: "n \<notin> set (us @ a # b # vs)"
  shows "ring (splice_in h a n b) (us @ a # n # b # vs)"
proof -
  note parts = ring_parts [OF r]
  have "chain (splice_in h a n b) (us @ [a])"
    using parts(1) by (rule chain_frame [where N = "{a, n}" and P = "{b, n}"])
      (use parts n in \<open>cases us; auto simp: splice_in_def butlast_append\<close>)+
  moreover have "chain (splice_in h a n b) (b # vs)"
    using parts(3) by (rule chain_frame [where N = "{a, n}" and P = "{b, n}"])
      (use parts n in \<open>auto simp: splice_in_def dest: in_set_butlastD\<close>)
  moreover have "link (splice_in h a n b) a n" "link (splice_in h a n b) n b"
    using n by (auto simp: link_def splice_in_def)
  ultimately have "chain (splice_in h a n b) (us @ a # n # b # vs)"
    using chain_append [of _ us a "n # b # vs"] by simp
  moreover have "distinct (butlast (us @ a # n # b # vs))" "distinct (tl (us @ a # n # b # vs))"
    using r n by (cases us; auto simp: ring_def butlast_append dest: in_set_butlastD split: if_splits)+
  ultimately show ?thesis by (simp add: ring_def)
qed

lemma ring_splice_out:
  assumes r: "ring h (us @ a # e # b # vs)" and e: "e \<notin> set us" "e \<noteq> a" "e \<noteq> b" "e \<notin> set vs"
  shows "ring (splice_out h a e b) (us @ a # b # vs)"
proof -
  note p1 = ring_parts [OF r]
  from r have "ring h ((us @ [a]) @ e # b # vs)" by simp
  note p2 = ring_parts [OF this]
  have "chain (splice_out h a e b) (us @ [a])"
    using p1(1) by (rule chain_frame [where N = "{a, e}" and P = "{b, e}"])
      (use p1 r e in \<open>cases us; auto simp: ring_def splice_out_def butlast_append\<close>)+
  moreover have "chain (splice_out h a e b) (b # vs)"
    using p2(3) by (rule chain_frame [where N = "{a, e}" and P = "{b, e}"])
      (use p1 p2 e in \<open>auto simp: splice_out_def dest: in_set_butlastD\<close>)
  moreover have "link (splice_out h a e b) a b"
    using e by (auto simp: link_def splice_out_def)
  ultimately have "chain (splice_out h a e b) (us @ a # b # vs)"
    using chain_append [of _ us a "b # vs"] by simp
  moreover have "distinct (butlast (us @ a # b # vs))" "distinct (tl (us @ a # b # vs))"
    using r by (cases us; auto simp: ring_def butlast_append split: if_splits)+
  ultimately show ?thesis by (simp add: ring_def)
qed

section \<open>The pointer operations as splices\<close>

lemma list_add_splice:
  "link h a b \<Longrightarrow> n \<noteq> a \<Longrightarrow> n \<noteq> b \<Longrightarrow> list_add h n a = Some (splice_in h a n b)"
  by (auto simp: list_add_def link_def splice_in_def Let_def fun_eq_iff intro!: list_heap.equality)

lemma list_add_tail_splice:
  "link h a b \<Longrightarrow> n \<noteq> a \<Longrightarrow> n \<noteq> b \<Longrightarrow> list_add_tail h n b = Some (splice_in h a n b)"
  by (auto simp: list_add_tail_def link_def splice_in_def Let_def fun_eq_iff
      intro!: list_heap.equality)

lemma list_del_splice:
  "link h a e \<Longrightarrow> link h e b \<Longrightarrow> e \<noteq> a \<Longrightarrow> e \<noteq> b \<Longrightarrow> list_del h e = Some (splice_out h a e b)"
  by (auto simp: list_del_def link_def splice_out_def Let_def fun_eq_iff
      intro!: list_heap.equality)

lemma dll_list_add:
  assumes "dll h a xs" and "n \<notin> set (a # xs)"
  shows "\<exists>h'. list_add h n a = Some h' \<and> dll h' a (n # xs) \<and>
    (\<forall>x. x \<notin> set (n # a # xs) \<longrightarrow> nxt h' x = nxt h x \<and> prv h' x = prv h x)"
proof -
  obtain b vs where bv: "xs @ [a] = b # vs" by (cases "xs @ [a]") auto
  with assms have r: "ring h ([] @ a # b # vs)" and n: "n \<notin> set ([] @ a # b # vs)"
    by (auto simp: dll_ring dest!: arg_cong [of _ _ set])
  from ring_parts(2) [OF r] n have "list_add h n a = Some (splice_in h a n b)"
    by (intro list_add_splice) auto
  moreover from ring_splice_in [OF r n] bv have "dll (splice_in h a n b) a (n # xs)"
    by (simp add: dll_ring)
  moreover have "b \<in> set (a # xs)" using arg_cong [OF bv, of set] by auto
  ultimately show ?thesis by (auto simp: splice_in_def)
qed

lemma dll_insert_before:
  assumes "dll h a (xs @ ys)" and "n \<notin> set (a # xs @ ys)"
  shows "\<exists>h'. list_add_tail h n (hd (ys @ [a])) = Some h' \<and> dll h' a (xs @ n # ys) \<and>
    (\<forall>x. x \<notin> set (n # a # xs @ ys) \<longrightarrow> nxt h' x = nxt h x \<and> prv h' x = prv h x)"
proof -
  obtain us p where up: "a # xs = us @ [p]" by (cases "a # xs" rule: rev_cases) auto
  obtain b vs where bv: "ys @ [a] = b # vs" by (cases "ys @ [a]") auto
  have ring_eq: "a # (xs @ ys) @ [a] = us @ p # b # vs" using up bv by simp
  with assms have r: "ring h (us @ p # b # vs)" by (simp add: dll_ring)
  have n: "n \<notin> set (us @ p # b # vs)" using assms(2) unfolding ring_eq [symmetric] by auto
  from ring_parts(2) [OF r] n have "list_add_tail h n b = Some (splice_in h p n b)"
    by (intro list_add_tail_splice) auto
  moreover have "us @ p # n # b # vs = a # (xs @ n # ys) @ [a]" using up bv by simp
  with ring_splice_in [OF r n] have "dll (splice_in h p n b) a (xs @ n # ys)"
    by (simp add: dll_ring)
  moreover have "{p, b} \<subseteq> set (a # xs @ ys)"
    using arg_cong [OF up, of set] arg_cong [OF bv, of set] by auto
  moreover have "hd (ys @ [a]) = b" using bv by simp
  ultimately show ?thesis by (auto simp: splice_in_def)
qed

lemma dll_list_del:
  assumes "dll h a (xs @ e # ys)"
  shows "\<exists>h'. list_del h e = Some h' \<and> dll h' a (xs @ ys) \<and> nxt h' e = None \<and> prv h' e = None \<and>
    (\<forall>x. x \<notin> set (a # xs @ e # ys) \<longrightarrow> nxt h' x = nxt h x \<and> prv h' x = prv h x)"
proof -
  obtain us p where up: "a # xs = us @ [p]" by (cases "a # xs" rule: rev_cases) auto
  obtain b vs where bv: "ys @ [a] = b # vs" by (cases "ys @ [a]") auto
  have ring_eq: "a # (xs @ e # ys) @ [a] = us @ p # e # b # vs" using up bv by simp
  with assms have r: "ring h (us @ p # e # b # vs)" by (simp add: dll_ring)
  have r2: "ring h ((us @ [p]) @ e # b # vs)" using r by simp
  have e: "e \<notin> set (us @ [p])" "e \<notin> set (b # vs)"
    using assms up [symmetric] bv [symmetric] by (auto simp: dll_def)
  then have "list_del h e = Some (splice_out h p e b)"
    using ring_parts(2) [OF r] ring_parts(2) [OF r2] by (intro list_del_splice) auto
  moreover have "us @ p # b # vs = a # (xs @ ys) @ [a]" using up bv by simp
  with ring_splice_out [OF r] e have "dll (splice_out h p e b) a (xs @ ys)"
    by (simp add: dll_ring)
  moreover have "{p, b} \<subseteq> set (a # xs @ e # ys)"
    using arg_cong [OF up, of set] arg_cong [OF bv, of set] by auto
  moreover have "nxt (splice_out h p e b) e = None" "prv (splice_out h p e b) e = None"
    by (auto simp: splice_out_def)
  ultimately show ?thesis by (auto simp: splice_out_def)
qed

section \<open>A family of lists in one heap\<close>

definition fresh_for :: "'a set \<Rightarrow> ('a \<Rightarrow> 'a list) \<Rightarrow> 'a \<Rightarrow> bool" where
  "fresh_for H L n \<longleftrightarrow> n \<notin> H \<and> (\<forall>a\<in>H. n \<notin> set (L a))"

text \<open>One list changes, the nodes written belong to it or are fresh: the others stay as they are.\<close>

lemma lists_at_update:
  assumes "lists_at h H L" and "a \<in> H" and "dll h' a ys"
    and "set ys \<subseteq> set (L a) \<union> N" and "\<And>n. n \<in> N \<Longrightarrow> fresh_for H L n"
    and "\<And>x. x \<notin> N \<union> set (a # L a) \<Longrightarrow> nxt h' x = nxt h x \<and> prv h' x = prv h x"
  shows "lists_at h' H (L(a := ys))"
proof -
  have other: "dll h' b (L b)" if b: "b \<in> H" "b \<noteq> a" for b
  proof -
    have "x \<notin> N \<union> set (a # L a)" if "x \<in> set (b # L b)" for x
      using that b assms(1,2,5) by (fastforce simp: lists_at_def fresh_for_def)
    with assms(6) have "dll h' b (L b) = dll h b (L b)" by (intro dll_cong) blast
    with assms(1) b show ?thesis by (simp add: lists_at_def)
  qed
  have "set (a # ys) \<inter> set (b # L b) = {}" if "b \<in> H" "b \<noteq> a" for b
  proof -
    have "set (a # L a) \<inter> set (b # L b) = {}" "N \<inter> set (b # L b) = {}"
      using that assms(1,2,5) by (auto simp: lists_at_def fresh_for_def)
    with assms(4) show ?thesis by auto
  qed
  with other assms(1,3) show ?thesis by (auto simp: lists_at_def)
qed

lemma lists_at_init:
  assumes "lists_at h H L" and "fresh_for H L a"
  shows "lists_at (list_init h a) (insert a H) (L(a := []))"
proof -
  have "dll (list_init h a) b (L b) = dll h b (L b)" if "b \<in> H" for b
    using that assms(2) by (intro dll_cong) (auto simp: list_init_def fresh_for_def)
  moreover have "dll (list_init h a) a []"
    by (simp add: dll_def list_init_def link_def)
  ultimately show ?thesis using assms by (auto simp: lists_at_def fresh_for_def)
qed

lemma lists_at_add:
  assumes "lists_at h H L" and "a \<in> H" and "fresh_for H L n"
  shows "\<exists>h'. list_add h n a = Some h' \<and> lists_at h' H (L(a := n # L a))"
proof -
  have "n \<notin> set (a # L a)" using assms by (auto simp: fresh_for_def)
  with assms dll_list_add [of h a "L a" n] obtain h' where
    h': "list_add h n a = Some h'" "dll h' a (n # L a)"
    and fr: "\<forall>x. x \<notin> set (n # a # L a) \<longrightarrow> nxt h' x = nxt h x \<and> prv h' x = prv h x"
    by (auto simp: lists_at_def)
  with lists_at_update [OF assms(1,2) h'(2), of "{n}"] assms(3) show ?thesis by auto
qed

lemma lists_at_add_before:
  assumes "lists_at h H L" and "a \<in> H" and "fresh_for H L n" and "L a = xs @ ys"
  shows "\<exists>h'. list_add_tail h n (hd (ys @ [a])) = Some h' \<and> lists_at h' H (L(a := xs @ n # ys))"
proof -
  have "n \<notin> set (a # xs @ ys)" using assms by (auto simp: fresh_for_def)
  with assms dll_insert_before [of h a xs ys n] obtain h' where
    h': "list_add_tail h n (hd (ys @ [a])) = Some h'" "dll h' a (xs @ n # ys)"
    and fr: "\<forall>x. x \<notin> set (n # a # xs @ ys) \<longrightarrow> nxt h' x = nxt h x \<and> prv h' x = prv h x"
    by (force simp: lists_at_def)
  with lists_at_update [OF assms(1,2) h'(2), of "{n}"] assms(3,4) show ?thesis by auto
qed

lemma lists_at_del:
  assumes "lists_at h H L" and "a \<in> H" and "e \<in> set (L a)"
  shows "\<exists>h'. list_del h e = Some h' \<and> lists_at h' H (L(a := remove1 e (L a)))"
proof -
  from assms have d: "dll h a (L a)" by (simp add: lists_at_def)
  then have "distinct (L a)" by (simp add: dll_def)
  with assms(3) obtain xs ys where L: "L a = xs @ e # ys" and "e \<notin> set xs"
    by (rule split_list_distinct)
  then have rm: "remove1 e (L a) = xs @ ys" by (simp add: remove1_middle)
  from d L dll_list_del [of h a xs e ys] obtain h' where
    h': "list_del h e = Some h'" "dll h' a (xs @ ys)"
    and fr: "\<forall>x. x \<notin> set (a # L a) \<longrightarrow> nxt h' x = nxt h x \<and> prv h' x = prv h x"
    by auto
  with lists_at_update [OF assms(1,2) h'(2), of "{}"] rm L show ?thesis by auto
qed

lemma list_walk_chain:
  "chain h (xs @ [a]) \<Longrightarrow> a \<notin> set xs \<Longrightarrow> list_walk h (hd (xs @ [a])) a = Some xs"
proof (induction xs)
  case Nil
  then show ?case by (simp add: list_walk.simps)
next
  case (Cons x xs)
  obtain b vs where b: "xs @ [a] = b # vs" by (cases "xs @ [a]") auto
  with Cons.prems have "nxt h x = Some b" and "chain h (xs @ [a])" by (auto simp: link_def)
  with Cons b show ?case by (auto simp: list_walk.simps)
qed

lemma lists_at_for_each:
  assumes "lists_at h H L" and "a \<in> H"
  shows "list_for_each h a = Some (L a)"
proof -
  obtain b vs where b: "L a @ [a] = b # vs" by (cases "L a @ [a]") auto
  from assms have "chain h (a # L a @ [a])" "a \<notin> set (L a)" by (auto simp: lists_at_def dll_def)
  with b list_walk_chain [of h "L a" a] show ?thesis
    by (auto simp: list_for_each_def link_def)
qed

lemma lists_at_empty:
  "lists_at h H L \<Longrightarrow> a \<in> H \<Longrightarrow> list_empty h a \<longleftrightarrow> L a = []"
  by (cases "L a") (auto simp: lists_at_def dll_def list_empty_def link_def)

lemma lists_at_first:
  "lists_at h H L \<Longrightarrow> a \<in> H \<Longrightarrow> L a = x # xs \<Longrightarrow> nxt h a = Some x"
  by (auto simp: lists_at_def dll_def link_def)

lemma lists_at_next:
  assumes "lists_at h H L" and "a \<in> H" and "L a = xs @ x # ys"
  shows "nxt h x = Some (hd (ys @ [a]))"
proof -
  from assms(1,2) have "chain h (a # L a @ [a])" by (simp add: lists_at_def dll_def)
  then have "chain h ((a # xs) @ x # ys @ [a])" using assms(3) by simp
  then have "chain h (x # ys @ [a])" by (subst (asm) chain_append) simp
  then show ?thesis by (cases ys) (auto simp: link_def)
qed

lemma lists_at_member:
  assumes "lists_at h H L" and "a \<in> H" and "x \<in> set (L a)"
  shows "\<not> list_empty h x"
proof -
  from assms(3) obtain xs ys where L: "L a = xs @ x # ys" by (blast dest: split_list)
  have "distinct (a # L a)" using assms(1,2) by (simp add: lists_at_def dll_def)
  then have "hd (ys @ [a]) \<noteq> x" using L by (cases ys) auto
  with lists_at_next [OF assms(1,2) L] show ?thesis by (simp add: list_empty_def)
qed

lemma lists_at_subset: "lists_at h H L \<Longrightarrow> H' \<subseteq> H \<Longrightarrow> lists_at h H' L"
  unfolding lists_at_def by blast

lemma lists_at_cong: "lists_at h H L \<Longrightarrow> (\<And>a. a \<in> H \<Longrightarrow> L' a = L a) \<Longrightarrow> lists_at h H L'"
  unfolding lists_at_def by simp

section \<open>The interface\<close>

locale linked_lists =
  fixes init :: "'h \<Rightarrow> 'a \<Rightarrow> 'h"
    and add :: "'h \<Rightarrow> 'a \<Rightarrow> 'a \<Rightarrow> 'h option"
    and add_tail :: "'h \<Rightarrow> 'a \<Rightarrow> 'a \<Rightarrow> 'h option"
    and del :: "'h \<Rightarrow> 'a \<Rightarrow> 'h option"
    and is_empty :: "'h \<Rightarrow> 'a \<Rightarrow> bool"
    and first :: "'h \<Rightarrow> 'a \<Rightarrow> 'a option"
    and for_each :: "'h \<Rightarrow> 'a \<Rightarrow> 'a list option"
    and rep :: "'h \<Rightarrow> 'a set \<Rightarrow> ('a \<Rightarrow> 'a list) \<Rightarrow> bool"
  assumes rep_init: "rep h H L \<Longrightarrow> fresh_for H L a \<Longrightarrow> rep (init h a) (insert a H) (L(a := []))"
    and rep_add: "rep h H L \<Longrightarrow> a \<in> H \<Longrightarrow> fresh_for H L n \<Longrightarrow>
      \<exists>h'. add h n a = Some h' \<and> rep h' H (L(a := n # L a))"
    and rep_add_before: "rep h H L \<Longrightarrow> a \<in> H \<Longrightarrow> fresh_for H L n \<Longrightarrow> L a = xs @ ys \<Longrightarrow>
      \<exists>h'. add_tail h n (hd (ys @ [a])) = Some h' \<and> rep h' H (L(a := xs @ n # ys))"
    and rep_del: "rep h H L \<Longrightarrow> a \<in> H \<Longrightarrow> e \<in> set (L a) \<Longrightarrow>
      \<exists>h'. del h e = Some h' \<and> rep h' H (L(a := remove1 e (L a)))"
    and rep_empty: "rep h H L \<Longrightarrow> a \<in> H \<Longrightarrow> is_empty h a \<longleftrightarrow> L a = []"
    and rep_first: "rep h H L \<Longrightarrow> a \<in> H \<Longrightarrow> L a = x # xs \<Longrightarrow> first h a = Some x"
    and rep_for_each: "rep h H L \<Longrightarrow> a \<in> H \<Longrightarrow> for_each h a = Some (L a)"
    and rep_distinct: "rep h H L \<Longrightarrow> a \<in> H \<Longrightarrow> distinct (L a)"
    and rep_disjoint: "rep h H L \<Longrightarrow> a \<in> H \<Longrightarrow> b \<in> H \<Longrightarrow> a \<noteq> b \<Longrightarrow> set (L a) \<inter> set (L b) = {}"
    and rep_heads: "rep h H L \<Longrightarrow> a \<in> H \<Longrightarrow> b \<in> H \<Longrightarrow> a \<notin> set (L b)"
    and rep_next: "rep h H L \<Longrightarrow> a \<in> H \<Longrightarrow> L a = xs @ x # ys \<Longrightarrow> first h x = Some (hd (ys @ [a]))"
    and rep_member: "rep h H L \<Longrightarrow> a \<in> H \<Longrightarrow> x \<in> set (L a) \<Longrightarrow> \<not> is_empty h x"
    and rep_subset: "rep h H L \<Longrightarrow> H' \<subseteq> H \<Longrightarrow> rep h H' L"
    and rep_cong: "rep h H L \<Longrightarrow> (\<And>a. a \<in> H \<Longrightarrow> L' a = L a) \<Longrightarrow> rep h H L'"
begin

lemma pop_first:
  assumes "rep h H L" and "a \<in> H" and "L a = x # xs"
  shows "first h a = Some x \<and> (\<exists>h'. del h x = Some h' \<and> rep h' H (L(a := xs)))"
  using rep_first [OF assms] rep_del [OF assms(1,2), of x] assms(3) by simp

lemma append_last:
  assumes "rep h H L" and "a \<in> H" and "fresh_for H L n"
  shows "\<exists>h'. add_tail h n a = Some h' \<and> rep h' H (L(a := L a @ [n]))"
  using rep_add_before [OF assms, of "L a" "[]"] by simp

lemma removed_fresh:
  assumes "rep h H L" and "a \<in> H" and "e \<in> set (L a)"
  shows "fresh_for H (L(a := remove1 e (L a))) e"
  unfolding fresh_for_def
  using rep_heads [OF assms(1)] rep_distinct [OF assms(1,2)] rep_disjoint [OF assms(1,2)] assms(2,3)
  by (auto 4 3)

lemma move_to_front:
  assumes "rep h H L" and "a \<in> H" and "b \<in> H" and "a \<noteq> b" and "e \<in> set (L a)"
  shows "\<exists>h1 h2. del h e = Some h1 \<and> add h1 e b = Some h2 \<and>
    rep h2 H (L(a := remove1 e (L a), b := e # L b))"
proof -
  from rep_del [OF assms(1,2,5)] obtain h1 where
    h1: "del h e = Some h1" "rep h1 H (L(a := remove1 e (L a)))" by blast
  from rep_add [OF h1(2) assms(3) removed_fresh [OF assms(1,2,5)]] assms(4) h1(1)
  show ?thesis by simp
qed

text \<open>Taking a head out of the family makes its node free to be linked elsewhere.\<close>

lemma head_fresh:
  assumes "rep h H L" and "a \<in> H"
  shows "rep h (H - {a}) L" and "fresh_for (H - {a}) L a"
  using rep_subset [OF assms(1), of "H - {a}"] rep_heads [OF assms(1,2)] by (auto simp: fresh_for_def)

lemma rep_determines: "rep h H L \<Longrightarrow> rep h H L' \<Longrightarrow> a \<in> H \<Longrightarrow> L a = L' a"
  using rep_for_each [of h H L a] rep_for_each [of h H L' a] by simp

end

interpretation kl: linked_lists list_init list_add list_add_tail list_del list_empty nxt
  list_for_each lists_at
proof unfold_locales
  fix h :: "'a list_heap" and H and L :: "'a \<Rightarrow> 'a list" and a b :: 'a
  show "lists_at h H L \<Longrightarrow> a \<in> H \<Longrightarrow> distinct (L a)"
    by (simp add: lists_at_def dll_def)
  show "lists_at h H L \<Longrightarrow> a \<in> H \<Longrightarrow> b \<in> H \<Longrightarrow> a \<noteq> b \<Longrightarrow> set (L a) \<inter> set (L b) = {}"
    by (auto simp: lists_at_def)
  show "lists_at h H L \<Longrightarrow> a \<in> H \<Longrightarrow> b \<in> H \<Longrightarrow> a \<notin> set (L b)"
    by (cases "a = b") (auto simp: lists_at_def dll_def)
qed (fact lists_at_init lists_at_add lists_at_add_before lists_at_del lists_at_empty
    lists_at_first lists_at_for_each lists_at_next lists_at_member lists_at_subset lists_at_cong)+

end
