(* ===== verification/Pmm.thy ===== *)
theory Pmm
  imports Kernel_List
begin

text \<open>
  The physical memory manager, \<^verbatim>\<open>kernel/mm/pmm.c\<close>: the page frame array, the eleven free lists of
  the buddy system, the page counters and the operations on them. A \<^verbatim>\<open>page_t *\<close> is the index of the
  page in \<^verbatim>\<open>page_frames\<close> (\<^const>\<open>None\<close> is NULL), so \<^verbatim>\<open>page - page_frames\<close> is the index itself.
  The free lists are the pointer lists of theory \<open>Kernel_List\<close>. An access outside the frame
  array, or a null pointer followed inside a list operation, has no result (\<^const>\<open>None\<close>).
  The spinlock \<^verbatim>\<open>pmm_lock\<close> makes each operation atomic; the operations are state transformers.

  \<^verbatim>\<open>page_set_flags\<close>, \<^verbatim>\<open>page_clear_flags\<close> and \<^verbatim>\<open>page_test_flags\<close> are declared in
  \<^verbatim>\<open>include/horizon/mm/page.h\<close> and defined nowhere in the repository: they are the parameter
  \<open>ops\<close>. \<open>flag_ops_ok\<close> is what the callers rely on.
\<close>

section \<open>Data\<close>

record page_flag_ops =
  page_set_flags :: "u32 \<Rightarrow> u32 \<Rightarrow> u32"
  page_clear_flags :: "u32 \<Rightarrow> u32 \<Rightarrow> u32"
  page_test_flags :: "u32 \<Rightarrow> u32 \<Rightarrow> bool"

definition flag_ops_ok :: "page_flag_ops \<Rightarrow> bool" where
  "flag_ops_ok ops \<longleftrightarrow> (\<forall>fl m.
     page_set_flags ops fl m = fl OR m \<and>
     page_clear_flags ops fl m = fl AND NOT m \<and>
     page_test_flags ops fl m = (fl AND m \<noteq> 0))"

definition PG_reserved :: u32 where "PG_reserved = push_bit 10 1"
definition PG_buddy :: u32 where "PG_buddy = push_bit 19 1"

definition PAGE_SIZE :: nat where "PAGE_SIZE = 4096"

record memory_map_entry =
  mm_base :: u64
  mm_length :: u64
  mm_type :: u32

definition MEMORY_MAP_AVAILABLE :: u32 where "MEMORY_MAP_AVAILABLE = 1"
definition MEMORY_MAP_RESERVED :: u32 where "MEMORY_MAP_RESERVED = 2"

text \<open>\<^verbatim>\<open>page_t\<close>; its two list nodes are addresses of the list heap.\<close>

record page =
  pg_flags :: u32
  pg_count :: int
  pg_mapcount :: int
  pg_order :: nat
  pg_mapping :: "u32 option"
  pg_index :: u32
  pg_virtual :: "u32 option"
  pg_private :: "u32 option"

text \<open>
  \<^verbatim>\<open>zone_t\<close>: the name and the 25 machine words (flags, watermarks, counters), which the manager
  only ever clears; the zone's own eleven list heads are \<open>Zone_area\<close> addresses. \<open>Node_area\<close>
  addresses are the list heads inside \<^verbatim>\<open>pgdat.node_zones\<close>.
\<close>

datatype page_addr =
    Free_area nat
  | Page_list nat
  | Page_lru nat
  | Zone_area nat nat
  | Node_area nat nat

record zone =
  z_name :: "string option"
  z_words :: "u32 list"

record pmm =
  memory_map :: "memory_map_entry list"
  zones :: "nat \<Rightarrow> zone"
  node_zones :: "nat \<Rightarrow> zone"
  page_frames :: "nat \<Rightarrow> page"
  page_frames_count :: nat
  links :: "page_addr list_heap"
  total_pages :: u64
  free_pages :: u64
  reserved_pages :: u64

definition upd_page :: "(page \<Rightarrow> page) \<Rightarrow> nat \<Rightarrow> pmm \<Rightarrow> pmm" where
  "upd_page f p s = s\<lparr>page_frames := (page_frames s)(p := f (page_frames s p))\<rparr>"

definition set_buddy :: "page_flag_ops \<Rightarrow> nat \<Rightarrow> pmm \<Rightarrow> pmm" where
  "set_buddy ops = upd_page (\<lambda>pg. pg\<lparr>pg_flags := page_set_flags ops (pg_flags pg) PG_buddy\<rparr>)"

definition clear_buddy :: "page_flag_ops \<Rightarrow> nat \<Rightarrow> pmm \<Rightarrow> pmm" where
  "clear_buddy ops = upd_page (\<lambda>pg. pg\<lparr>pg_flags := page_clear_flags ops (pg_flags pg) PG_buddy\<rparr>)"

definition test_buddy :: "page_flag_ops \<Rightarrow> pmm \<Rightarrow> nat \<Rightarrow> bool" where
  "test_buddy ops s p = page_test_flags ops (pg_flags (page_frames s p)) PG_buddy"

definition set_order :: "nat \<Rightarrow> nat \<Rightarrow> pmm \<Rightarrow> pmm" where
  "set_order k = upd_page (\<lambda>pg. pg\<lparr>pg_order := k\<rparr>)"

section \<open>Ranges of page frames\<close>

function init_memmap_loop :: "page_flag_ops \<Rightarrow> pmm \<Rightarrow> nat \<Rightarrow> nat \<Rightarrow> pmm option" where
  "init_memmap_loop ops s pfn end_pfn =
     (if pfn < end_pfn then
        if pfn \<ge> page_frames_count s then Some s
        else
          let s1 = upd_page (\<lambda>pg. pg\<lparr>pg_flags := 0\<rparr>) pfn s;
              s2 = set_buddy ops pfn s1
          in case list_add (links s2) (Page_list pfn) (Free_area 0) of
               None \<Rightarrow> None
             | Some h \<Rightarrow>
                 init_memmap_loop ops
                   (s2\<lparr>links := h, free_pages := free_pages s2 + 1,
                       total_pages := total_pages s2 + 1\<rparr>) (Suc pfn) end_pfn
      else Some s)"
  by pat_completeness auto
termination by (relation "measure (\<lambda>(ops, s, pfn, e). e - pfn)") auto

definition pmm_init_memmap :: "page_flag_ops \<Rightarrow> pmm \<Rightarrow> nat \<Rightarrow> nat \<Rightarrow> pmm option" where
  "pmm_init_memmap ops s start_pfn end_pfn =
     (if start_pfn \<ge> end_pfn then Some s else init_memmap_loop ops s start_pfn end_pfn)"

function free_range_loop :: "page_flag_ops \<Rightarrow> pmm \<Rightarrow> nat \<Rightarrow> nat \<Rightarrow> pmm option" where
  "free_range_loop ops s pfn end_pfn =
     (if pfn < end_pfn then
        if pfn \<ge> page_frames_count s then Some s
        else if page_test_flags ops (pg_flags (page_frames s pfn)) PG_reserved then
          let s1 = upd_page (\<lambda>pg. pg\<lparr>pg_flags := page_clear_flags ops (pg_flags pg) PG_reserved\<rparr>) pfn s;
              s2 = s1\<lparr>reserved_pages := reserved_pages s1 - 1\<rparr>;
              s3 = set_buddy ops pfn s2
          in case list_add (links s3) (Page_list pfn) (Free_area 0) of
               None \<Rightarrow> None
             | Some h \<Rightarrow>
                 free_range_loop ops (s3\<lparr>links := h, free_pages := free_pages s3 + 1\<rparr>)
                   (Suc pfn) end_pfn
        else free_range_loop ops s (Suc pfn) end_pfn
      else Some s)"
  by pat_completeness auto
termination by (relation "measure (\<lambda>(ops, s, pfn, e). e - pfn)") auto

definition pmm_free_range :: "page_flag_ops \<Rightarrow> pmm \<Rightarrow> nat \<Rightarrow> nat \<Rightarrow> pmm option" where
  "pmm_free_range ops s start_pfn end_pfn =
     (if start_pfn \<ge> end_pfn then Some s else free_range_loop ops s start_pfn end_pfn)"

definition reserve_page :: "page_flag_ops \<Rightarrow> pmm \<Rightarrow> nat \<Rightarrow> pmm option" where
  "reserve_page ops s pfn =
     Option.bind
       (if test_buddy ops s pfn then
          let s1 = clear_buddy ops pfn s
          in case list_del (links s1) (Page_list pfn) of
               None \<Rightarrow> None
             | Some h \<Rightarrow> Some (s1\<lparr>links := h, free_pages := free_pages s1 - 1\<rparr>)
        else Some s)
       (\<lambda>s2. let s3 = upd_page (\<lambda>pg. pg\<lparr>pg_flags := page_set_flags ops (pg_flags pg) PG_reserved\<rparr>) pfn s2
             in Some (s3\<lparr>reserved_pages := reserved_pages s3 + 1\<rparr>))"

function reserve_range_loop :: "page_flag_ops \<Rightarrow> pmm \<Rightarrow> nat \<Rightarrow> nat \<Rightarrow> pmm option" where
  "reserve_range_loop ops s pfn end_pfn =
     (if pfn < end_pfn then
        if pfn \<ge> page_frames_count s then Some s
        else case reserve_page ops s pfn of
               None \<Rightarrow> None
             | Some s' \<Rightarrow> reserve_range_loop ops s' (Suc pfn) end_pfn
      else Some s)"
  by pat_completeness auto
termination by (relation "measure (\<lambda>(ops, s, pfn, e). e - pfn)") auto

definition pmm_reserve_range :: "page_flag_ops \<Rightarrow> pmm \<Rightarrow> nat \<Rightarrow> nat \<Rightarrow> pmm option" where
  "pmm_reserve_range ops s start_pfn end_pfn =
     (if start_pfn \<ge> end_pfn then Some s else reserve_range_loop ops s start_pfn end_pfn)"

declare init_memmap_loop.simps [simp del] free_range_loop.simps [simp del]
  reserve_range_loop.simps [simp del]

section \<open>Pages, frame numbers and addresses\<close>

definition pmm_page_to_pfn :: "nat option \<Rightarrow> nat" where
  "pmm_page_to_pfn page = (case page of None \<Rightarrow> 0 | Some p \<Rightarrow> p)"

definition pmm_pfn_to_page :: "pmm \<Rightarrow> nat \<Rightarrow> nat option" where
  "pmm_pfn_to_page s pfn = (if pfn \<ge> page_frames_count s then None else Some pfn)"

text \<open>An address is a 32-bit word; 0 is NULL. Arithmetic wraps around.\<close>

definition pmm_page_to_virt :: "nat option \<Rightarrow> u32" where
  "pmm_page_to_virt page =
     (case page of None \<Rightarrow> 0
      | Some p \<Rightarrow> of_nat (pmm_page_to_pfn page) * of_nat PAGE_SIZE + 0xC0000000)"

definition pmm_virt_to_page :: "pmm \<Rightarrow> u32 \<Rightarrow> nat option" where
  "pmm_virt_to_page s addr =
     (if addr = 0 then None
      else let pfn = unat ((addr - 0xC0000000) div of_nat PAGE_SIZE)
           in if pfn \<ge> page_frames_count s then None else Some pfn)"

definition pmm_virt_to_phys :: "u32 \<Rightarrow> u32" where
  "pmm_virt_to_phys addr = (if addr = 0 then 0 else addr - 0xC0000000)"

definition pmm_phys_to_virt :: "u32 \<Rightarrow> u32" where
  "pmm_phys_to_virt addr = addr + 0xC0000000"

definition pmm_is_low_mem :: "u32 \<Rightarrow> int" where
  "pmm_is_low_mem addr = (if addr = 0 then 0 else if addr < 0xC0000000 then 1 else 0)"

definition pmm_is_high_mem :: "u32 \<Rightarrow> int" where
  "pmm_is_high_mem addr = (if addr = 0 then 0 else if addr \<ge> 0xC0000000 then 1 else 0)"

text \<open>The zone of a page as an index into \<^verbatim>\<open>zones\<close> (0 DMA, 1 Normal, 2 HighMem).\<close>

definition pmm_page_zone :: "nat option \<Rightarrow> nat option" where
  "pmm_page_zone page =
     (case page of None \<Rightarrow> None
      | Some p \<Rightarrow>
          let pfn = pmm_page_to_pfn page
          in if pfn < 16 * 1024 * 1024 div PAGE_SIZE then Some 0
             else if pfn < 896 * 1024 * 1024 div PAGE_SIZE then Some 1
             else Some 2)"

text \<open>There is one memory node; its \<^verbatim>\<open>pgdat\<close> is node 0.\<close>

definition pmm_page_pgdat :: "nat option \<Rightarrow> nat option" where
  "pmm_page_pgdat page = (case page of None \<Rightarrow> None | Some p \<Rightarrow> Some 0)"

section \<open>The buddy allocator\<close>

function split_block :: "page_flag_ops \<Rightarrow> pmm \<Rightarrow> nat \<Rightarrow> nat \<Rightarrow> nat \<Rightarrow> pmm option" where
  "split_block ops s page current_order order =
     (if current_order > order then
        let cur = current_order - 1;
            buddy = pmm_page_to_pfn (Some page) + 2 ^ cur
        in if buddy \<ge> page_frames_count s then None
           else let s1 = set_buddy ops buddy s
                in case list_add (links s1) (Page_list buddy) (Free_area cur) of
                     None \<Rightarrow> None
                   | Some h \<Rightarrow> split_block ops (s1\<lparr>links := h\<rparr>) page cur order
      else Some s)"
  by pat_completeness auto
termination by (relation "measure (\<lambda>(ops, s, p, cur, ord). cur)") auto

text \<open>\<^verbatim>\<open>list_entry\<close> of an address that is no page's list node is a wild pointer: no result.\<close>

definition take_block :: "page_flag_ops \<Rightarrow> pmm \<Rightarrow> nat \<Rightarrow> nat \<Rightarrow> (pmm \<times> nat option) option" where
  "take_block ops s current_order order =
     (case nxt (links s) (Free_area current_order) of
        Some (Page_list page) \<Rightarrow>
          (case list_del (links s) (Page_list page) of
             None \<Rightarrow> None
           | Some h \<Rightarrow>
               (case split_block ops (clear_buddy ops page (s\<lparr>links := h\<rparr>)) page current_order order of
                  None \<Rightarrow> None
                | Some s2 \<Rightarrow>
                    let s3 = set_order order page s2
                    in Some (s3\<lparr>free_pages := free_pages s3 - of_nat (2 ^ order)\<rparr>, Some page)))
      | _ \<Rightarrow> None)"

function alloc_search :: "page_flag_ops \<Rightarrow> pmm \<Rightarrow> nat \<Rightarrow> nat \<Rightarrow> (pmm \<times> nat option) option" where
  "alloc_search ops s current_order order =
     (if current_order \<le> 10 then
        if \<not> list_empty (links s) (Free_area current_order) then
          take_block ops s current_order order
        else alloc_search ops s (Suc current_order) order
      else Some (s, None))"
  by pat_completeness auto
termination by (relation "measure (\<lambda>(ops, s, cur, ord). 11 - cur)") auto

definition pmm_alloc_pages :: "page_flag_ops \<Rightarrow> pmm \<Rightarrow> nat \<Rightarrow> (pmm \<times> nat option) option" where
  "pmm_alloc_pages ops s order =
     (if order > 10 then Some (s, None) else alloc_search ops s order order)"

definition free_finish :: "pmm \<Rightarrow> nat \<Rightarrow> nat \<Rightarrow> pmm option" where
  "free_finish s page order =
     (case list_add (links s) (Page_list page) (Free_area order) of
        None \<Rightarrow> None
      | Some h \<Rightarrow> Some (s\<lparr>links := h\<rparr>))"

function free_merge :: "page_flag_ops \<Rightarrow> pmm \<Rightarrow> nat \<Rightarrow> nat \<Rightarrow> pmm option" where
  "free_merge ops s pfn order =
     (if order < 10 then
        let buddy_pfn = pfn XOR 2 ^ order
        in if buddy_pfn \<ge> page_frames_count s then free_finish s pfn order
           else if \<not> test_buddy ops s buddy_pfn \<or> pg_order (page_frames s buddy_pfn) \<noteq> order
           then free_finish s pfn order
           else case list_del (links s) (Page_list buddy_pfn) of
                  None \<Rightarrow> None
                | Some h \<Rightarrow>
                    let s1 = clear_buddy ops buddy_pfn (s\<lparr>links := h\<rparr>);
                        pfn' = (if buddy_pfn < pfn then buddy_pfn else pfn)
                    in free_merge ops (set_order (Suc order) pfn' s1) pfn' (Suc order)
      else free_finish s pfn order)"
  by pat_completeness auto
termination by (relation "measure (\<lambda>(ops, s, pfn, ord). 10 - ord)") auto

definition pmm_free_pages :: "page_flag_ops \<Rightarrow> pmm \<Rightarrow> nat option \<Rightarrow> nat \<Rightarrow> pmm option" where
  "pmm_free_pages ops s page order =
     (case page of
        None \<Rightarrow> Some s
      | Some p \<Rightarrow>
          if order > 10 then Some s
          else if p \<ge> page_frames_count s then None
          else
            let pfn = pmm_page_to_pfn page;
                s1 = set_order order p (set_buddy ops p s);
                s2 = s1\<lparr>free_pages := free_pages s1 + of_nat (2 ^ order)\<rparr>
            in free_merge ops s2 pfn order)"

declare split_block.simps [simp del] alloc_search.simps [simp del] free_merge.simps [simp del]

definition pmm_alloc_page :: "page_flag_ops \<Rightarrow> pmm \<Rightarrow> (pmm \<times> u32) option" where
  "pmm_alloc_page ops s =
     (case pmm_alloc_pages ops s 0 of
        None \<Rightarrow> None
      | Some (s', None) \<Rightarrow> Some (s', 0)
      | Some (s', Some p) \<Rightarrow> Some (s', pmm_page_to_virt (Some p)))"

definition pmm_free_page :: "page_flag_ops \<Rightarrow> pmm \<Rightarrow> u32 \<Rightarrow> pmm option" where
  "pmm_free_page ops s addr =
     (if addr = 0 then Some s else pmm_free_pages ops s (pmm_virt_to_page s addr) 0)"

text \<open>The counters are 64 bits wide and returned as \<^verbatim>\<open>unsigned long\<close>, 32 bits.\<close>

definition pmm_get_free_pages :: "pmm \<Rightarrow> u32" where
  "pmm_get_free_pages s = ucast (free_pages s)"

definition pmm_get_total_pages :: "pmm \<Rightarrow> u32" where
  "pmm_get_total_pages s = ucast (total_pages s)"

definition pmm_get_reserved_pages :: "pmm \<Rightarrow> u32" where
  "pmm_get_reserved_pages s = ucast (reserved_pages s)"

definition pmm_get_used_pages :: "pmm \<Rightarrow> u32" where
  "pmm_get_used_pages s = ucast (total_pages s - free_pages s)"

section \<open>Initialisation\<close>

definition boot_memory_map :: "memory_map_entry list" where
  "boot_memory_map =
     [\<lparr>mm_base = 0, mm_length = 0x100000, mm_type = MEMORY_MAP_RESERVED\<rparr>,
      \<lparr>mm_base = 0x100000, mm_length = 0x1F00000, mm_type = MEMORY_MAP_AVAILABLE\<rparr>,
      \<lparr>mm_base = 0x2000000, mm_length = 0x2000000, mm_type = MEMORY_MAP_AVAILABLE\<rparr>]"

definition zero_zone :: zone where
  "zero_zone = \<lparr>z_name = None, z_words = replicate 25 0\<rparr>"

definition zone_name :: "nat \<Rightarrow> string" where
  "zone_name z = (if z = 0 then ''DMA'' else if z = 1 then ''Normal'' else ''HighMem'')"

text \<open>Struct assignment copies a zone's list heads by value: the copies keep pointing at the originals.\<close>

definition copy_heads :: "nat \<Rightarrow> page_addr list_heap \<Rightarrow> page_addr list_heap" where
  "copy_heads z h = fold (\<lambda>j h. h\<lparr>nxt := (nxt h)(Node_area z j := nxt h (Zone_area z j)),
                                 prv := (prv h)(Node_area z j := prv h (Zone_area z j))\<rparr>) [0..<11] h"

definition init_page :: "nat \<Rightarrow> pmm \<Rightarrow> pmm" where
  "init_page i s =
     s\<lparr>page_frames := (page_frames s)(i := \<lparr>pg_flags = 0, pg_count = 0, pg_mapcount = 0,
          pg_order = 0, pg_mapping = None, pg_index = 0, pg_virtual = None, pg_private = None\<rparr>),
       links := list_init (list_init (links s) (Page_list i)) (Page_lru i)\<rparr>"

definition init_zones :: "pmm \<Rightarrow> pmm" where
  "init_zones s =
     (let h1 = fold (\<lambda>z h. fold (\<lambda>j h. list_init h (Zone_area z j)) [0..<11] h) [0..<3] (links s);
          h2 = fold copy_heads [0..<3] h1;
          zs = (\<lambda>z. if z < 3 then zero_zone\<lparr>z_name := Some (zone_name z)\<rparr> else zones s z)
      in s\<lparr>zones := zs, node_zones := (\<lambda>z. if z < 3 then zs z else node_zones s z),
           links := fold (\<lambda>j h. list_init h (Free_area j)) [0..<11] h2\<rparr>)"

text \<open>\<^verbatim>\<open>base / PAGE_SIZE\<close> and \<^verbatim>\<open>(base + length) / PAGE_SIZE\<close>, narrowed to \<^verbatim>\<open>unsigned long\<close>.\<close>

definition entry_start :: "memory_map_entry \<Rightarrow> nat" where
  "entry_start e = unat (ucast (mm_base e div of_nat PAGE_SIZE) :: u32)"

definition entry_end :: "memory_map_entry \<Rightarrow> nat" where
  "entry_end e = unat (ucast ((mm_base e + mm_length e) div of_nat PAGE_SIZE) :: u32)"

fun init_entries :: "page_flag_ops \<Rightarrow> memory_map_entry list \<Rightarrow> pmm \<Rightarrow> pmm option" where
  "init_entries ops [] s = Some s"
| "init_entries ops (e # es) s =
     Option.bind
       (if mm_type e = MEMORY_MAP_AVAILABLE
        then pmm_init_memmap ops s (entry_start e) (entry_end e)
        else pmm_reserve_range ops s (entry_start e) (entry_end e))
       (init_entries ops es)"

definition available_memory :: "memory_map_entry list \<Rightarrow> u64" where
  "available_memory es =
     fold (\<lambda>e n. if mm_type e = MEMORY_MAP_AVAILABLE then n + mm_length e else n) es 0"

text \<open>
  The two allocations of the boot path are arguments: \<open>map_ok\<close> that the memory map, \<open>frames_ok\<close>
  that the frame array could be allocated.
\<close>

definition pmm_init :: "page_flag_ops \<Rightarrow> bool \<Rightarrow> bool \<Rightarrow> pmm \<Rightarrow> pmm option" where
  "pmm_init ops map_ok frames_ok s =
     (let s1 = init_zones s in
      if \<not> map_ok then Some (s1\<lparr>memory_map := []\<rparr>)
      else
        let s2 = s1\<lparr>memory_map := boot_memory_map\<rparr>;
            n = unat (ucast (available_memory boot_memory_map div of_nat PAGE_SIZE) :: u32);
            s3 = s2\<lparr>page_frames_count := n\<rparr>
        in if \<not> frames_ok then Some s3
           else init_entries ops boot_memory_map (fold init_page [0..<n] s3))"

end
