(* ===== verification/Buddy.thy ===== *)
theory Buddy
  imports Horizon_Prelude
begin

text \<open>
  The buddy discipline, free of any state representation: blocks of pages, their partition into
  free and allocated blocks, and the invariant that ties the per-page \<^verbatim>\<open>PG_buddy\<close> flag and order
  to that partition. The operations of \<^verbatim>\<open>kernel/mm/pmm.c\<close> move a block between the sets, split
  it or merge it with its buddy; each move keeps the invariant. Theory \<open>Pmm_Correct\<close> lifts these
  facts to the code's state.
\<close>

section \<open>Blocks\<close>

text \<open>A block is a pair of its first page and its order.\<close>

definition blk :: "nat \<times> nat \<Rightarrow> nat set" where
  "blk x = {fst x ..< fst x + 2 ^ snd x}"

lemma blk_iff: "q \<in> blk (p, k) \<longleftrightarrow> p \<le> q \<and> q < p + 2 ^ k"
  by (simp add: blk_def)

lemma blk_first [simp]: "p \<in> blk (p, k)"
  by (simp add: blk_def)

lemma blk_split: "blk (p, Suc k) = blk (p, k) \<union> blk (p + 2 ^ k, k)"
  by (auto simp: blk_def)

lemma card_blk: "card (blk x) = 2 ^ snd x"
  by (simp add: blk_def)

text \<open>The only page of an aligned block that is aligned to the block's size is its first.\<close>

lemma aligned_in_blk:
  assumes "2 ^ k dvd p" and "2 ^ k dvd q" and "q \<in> blk (p, k)"
  shows "q = p"
proof -
  from assms(1,2) obtain a b where ab: "p = 2 ^ k * a" "q = 2 ^ k * b" by (auto elim!: dvdE)
  with assms(3) have "2 ^ k * a \<le> 2 ^ k * b" "2 ^ k * b < 2 ^ k * Suc a"
    by (simp_all add: blk_iff)
  then have "a = b" by (simp only: mult_le_cancel1 mult_less_cancel1) simp
  with ab show ?thesis by simp
qed

lemma blk_div:
  assumes "2 ^ k dvd p"
  shows "q \<in> blk (p, k) \<longleftrightarrow> q div 2 ^ k = p div 2 ^ k"
proof -
  from assms obtain a where a: "p = a * 2 ^ k" by (auto simp: dvd_def mult.commute)
  have "q div 2 ^ k = a \<longleftrightarrow> a * 2 ^ k \<le> q \<and> q < Suc a * 2 ^ k"
    by (auto simp: algebra_simps intro: div_nat_eqI dividend_less_div_times)
  with a show ?thesis by (simp add: blk_iff add.commute)
qed

lemma blk_nested:
  assumes "k \<le> j" and "2 ^ j dvd x" and "2 ^ k dvd p" and "b \<in> blk (p, k)" and "b \<in> blk (x, j)"
  shows "blk (p, k) \<subseteq> blk (x, j)"
proof
  fix q assume "q \<in> blk (p, k)"
  with assms(3,4) have "q div 2 ^ k = b div 2 ^ k" by (simp add: blk_div)
  moreover have "m div 2 ^ j = m div 2 ^ k div 2 ^ (j - k)" for m :: nat
    using assms(1) by (simp add: power_add [symmetric] flip: div_mult2_eq)
  ultimately show "q \<in> blk (x, j)" using assms(2,5) by (simp add: blk_div)
qed

lemma upper_half_order:
  assumes "2 ^ Suc c dvd p" and "2 ^ o' dvd (p + 2 ^ c :: nat)"
  shows "o' \<le> c"
proof (rule ccontr)
  assume "\<not> o' \<le> c"
  then have "(2::nat) ^ Suc c dvd 2 ^ o'" by (intro le_imp_power_dvd) simp
  with assms(2) have "2 ^ Suc c dvd (p + 2 ^ c)" by (rule dvd_trans [rotated])
  with assms(1) have "(2::nat) ^ Suc c dvd 2 ^ c" by (simp add: dvd_add_right_iff)
  then show False by (simp add: power_dvd_imp_le)
qed

text \<open>The buddy of a block: its frame number with bit \<open>k\<close> flipped.\<close>

lemma buddy_xor:
  assumes "2 ^ k dvd (p :: nat)"
  shows "p XOR 2 ^ k = (if even (p div 2 ^ k) then p + 2 ^ k else p - 2 ^ k)"
proof -
  from assms obtain m where m: "p = m * 2 ^ k" by (auto simp: dvd_def mult.commute)
  have "p XOR 2 ^ k = push_bit k m XOR push_bit k 1" by (simp add: m push_bit_eq_mult)
  also have "\<dots> = push_bit k (m XOR 1)" by (simp add: push_bit_xor)
  also have "m XOR 1 = (if even m then m + 1 else m - 1)" by (auto simp: xor_Suc_0_eq)
  finally show ?thesis
    by (auto simp: m push_bit_eq_mult add_mult_distrib diff_mult_distrib)
qed

lemma buddy_lower:
  assumes "2 ^ k dvd (p :: nat)" and "b = p XOR 2 ^ k"
  defines "p' \<equiv> (if b < p then b else p)"
  shows "2 ^ Suc k dvd p'" and "{p, b} = {p', p' + 2 ^ k}" and "b \<noteq> p"
    and "blk (p', Suc k) = blk (p, k) \<union> blk (b, k)" and "blk (p, k) \<inter> blk (b, k) = {}"
proof -
  from assms(1) obtain m where m: "p = m * 2 ^ k" by (auto simp: dvd_def mult.commute)
  consider (e) n where "m = 2 * n" | (o) n where "m = 2 * n + 1" by (metis evenE oddE)
  then have A: "2 ^ Suc k dvd p' \<and> {p, b} = {p', p' + 2 ^ k} \<and> b \<noteq> p"
  proof cases
    case e
    then have "p = n * 2 ^ Suc k" "b = p + 2 ^ k" using m buddy_xor [OF assms(1)] assms(2) by auto
    then show ?thesis by (auto simp: p'_def)
  next
    case o
    then have "p = n * 2 ^ Suc k + 2 ^ k" "b = n * 2 ^ Suc k"
      using m buddy_xor [OF assms(1)] assms(2) by (auto simp: add_mult_distrib)
    then show ?thesis by (auto simp: p'_def)
  qed
  then show "2 ^ Suc k dvd p'" "{p, b} = {p', p' + 2 ^ k}" "b \<noteq> p" by auto
  then have "(p = p' \<and> b = p' + 2 ^ k) \<or> (b = p' \<and> p = p' + 2 ^ k)"
    by (auto simp: doubleton_eq_iff)
  then show "blk (p', Suc k) = blk (p, k) \<union> blk (b, k)" "blk (p, k) \<inter> blk (b, k) = {}"
    by (auto simp: blk_split blk_iff)
qed

section \<open>Pools of disjoint blocks\<close>

definition blk_ok :: "nat \<Rightarrow> nat \<times> nat \<Rightarrow> bool" where
  "blk_ok n x \<longleftrightarrow> snd x \<le> 10 \<and> 2 ^ snd x dvd fst x \<and> fst x + 2 ^ snd x \<le> n"

definition pool :: "nat \<Rightarrow> (nat \<times> nat) set \<Rightarrow> bool" where
  "pool n B \<longleftrightarrow> (\<forall>x\<in>B. blk_ok n x) \<and> (\<forall>x\<in>B. \<forall>y\<in>B. x \<noteq> y \<longrightarrow> blk x \<inter> blk y = {})"

lemma blk_ok_lt: "blk_ok n x \<Longrightarrow> q \<in> blk x \<Longrightarrow> q < n"
  by (cases x) (simp add: blk_ok_def blk_iff)

lemma pool_okD: "pool n B \<Longrightarrow> x \<in> B \<Longrightarrow> blk_ok n x"
  by (simp add: pool_def)

lemma pool_disjointD: "pool n B \<Longrightarrow> x \<in> B \<Longrightarrow> y \<in> B \<Longrightarrow> q \<in> blk x \<Longrightarrow> q \<in> blk y \<Longrightarrow> x = y"
  by (auto simp: pool_def)

lemma pool_subset: "pool n B \<Longrightarrow> C \<subseteq> B \<Longrightarrow> pool n C"
  unfolding pool_def by blast

lemma pool_insertI:
  assumes "pool n B" and "blk_ok n x" and "\<And>y. y \<in> B \<Longrightarrow> blk x \<inter> blk y = {}"
  shows "pool n (insert x B)"
  using assms by (auto simp: pool_def)

lemma pool_insertD:
  assumes "pool n (insert x B)" and "x \<notin> B" and "y \<in> B"
  shows "blk x \<inter> blk y = {}"
  using assms by (auto simp: pool_def)

lemma blk_nonempty [simp]: "blk x \<noteq> {}"
  by (cases x) (use blk_first in blast)

lemma disjoint_notin: "\<forall>y\<in>B. blk x \<inter> blk y = {} \<Longrightarrow> x \<notin> B"
  by fastforce

lemma pool_split:
  assumes "pool n (insert (p, Suc c) B)" and "(p, Suc c) \<notin> B"
  shows "pool n (insert (p, c) (insert (p + 2 ^ c, c) B))"
    and "(p, c) \<notin> B" and "(p + 2 ^ c, c) \<notin> insert (p, c) B"
proof -
  have ok: "blk_ok n (p, Suc c)" using assms(1) by (rule pool_okD) simp
  have dis: "blk (p, Suc c) \<inter> blk y = {}" if "y \<in> B" for y
    using assms that by (rule pool_insertD)
  have up: "\<forall>y\<in>B. blk (p + 2 ^ c, c) \<inter> blk y = {}" and lo: "\<forall>y\<in>B. blk (p, c) \<inter> blk y = {}"
    using dis by (auto simp: blk_split)
  from up lo show "(p, c) \<notin> B" "(p + 2 ^ c, c) \<notin> insert (p, c) B"
    by (auto dest!: disjoint_notin)
  have d: "2 ^ c dvd p" using ok by (auto simp: blk_ok_def dest: dvd_mult_right)
  have "blk_ok n (p + 2 ^ c, c)" "blk_ok n (p, c)" using ok d by (auto simp: blk_ok_def)
  moreover have "pool n B" using assms(1) by (rule pool_subset) auto
  moreover have "blk (p, c) \<inter> blk (p + 2 ^ c, c) = {}" by (auto simp: blk_iff)
  ultimately show "pool n (insert (p, c) (insert (p + 2 ^ c, c) B))"
    using up lo by (intro pool_insertI) auto
qed

lemma pool_merge:
  assumes "pool n (insert (p, k) (insert (b, k) B))" and "(p, k) \<notin> insert (b, k) B"
    and "(b, k) \<notin> B" and "b = p XOR 2 ^ k" and "Suc k \<le> 10"
  defines "p' \<equiv> (if b < p then b else p)"
  shows "pool n (insert (p', Suc k) B)" and "(p', Suc k) \<notin> B"
proof -
  have okp: "blk_ok n (p, k)" and okb: "blk_ok n (b, k)"
    using assms(1) by (auto intro: pool_okD)
  then have "2 ^ k dvd p" by (simp add: blk_ok_def)
  note bl = buddy_lower [OF this assms(4), folded p'_def]
  have dis: "\<forall>y\<in>B. blk (p', Suc k) \<inter> blk y = {}"
  proof
    fix y assume y: "y \<in> B"
    have "blk (p, k) \<inter> blk y = {}"
      using assms(1,2) by (rule pool_insertD) (use y in simp)
    moreover have "pool n (insert (b, k) B)" using assms(1) by (rule pool_subset) auto
    then have "blk (b, k) \<inter> blk y = {}" using assms(3) y by (rule pool_insertD)
    ultimately show "blk (p', Suc k) \<inter> blk y = {}" by (auto simp: bl(4))
  qed
  then show "(p', Suc k) \<notin> B" by (rule disjoint_notin)
  have "p' + 2 ^ k \<in> {p, b}" using bl(2) by auto
  then have "blk_ok n (p', Suc k)" using okp okb assms(5) bl(1) by (auto simp: blk_ok_def)
  moreover have "pool n B" using assms(1) by (rule pool_subset) auto
  ultimately show "pool n (insert (p', Suc k) B)" using dis by (intro pool_insertI) auto
qed

section \<open>Flags and orders\<close>

text \<open>
  \<open>F\<close> are the free blocks, \<open>A\<close> the blocks handed out. A page whose \<^verbatim>\<open>PG_buddy\<close> flag is set is
  either the first page of a free block of the order recorded in the page, or lies inside a
  larger block (a leftover flag from an earlier merge, or from a split, which does not
  record the order). The pages of \<open>W\<close> are exempt: the page being freed.
\<close>

definition settled :: "(nat \<times> nat) set \<Rightarrow> (nat \<times> nat) set \<Rightarrow> (nat \<Rightarrow> nat) \<Rightarrow> nat \<Rightarrow> bool" where
  "settled F A ord q \<longleftrightarrow> (\<exists>p k. (p, k) \<in> F \<union> A \<and> q \<in> blk (p, k) \<and>
     (ord q < k \<or> q = p \<and> ord q = k \<and> (p, k) \<in> F))"

definition binv :: "nat \<Rightarrow> nat set \<Rightarrow> (nat \<times> nat) set \<Rightarrow> (nat \<times> nat) set \<Rightarrow>
    (nat \<Rightarrow> bool) \<Rightarrow> (nat \<Rightarrow> nat) \<Rightarrow> bool" where
  "binv n W F A flag ord \<longleftrightarrow> pool n (F \<union> A) \<and> F \<inter> A = {} \<and>
     (\<forall>q<n. 2 ^ ord q dvd q) \<and> (\<forall>q<n. flag q \<longrightarrow> q \<notin> W \<longrightarrow> settled F A ord q)"

lemma binvD:
  assumes "binv n W F A flag ord"
  shows "pool n (F \<union> A)" and "F \<inter> A = {}" and "q < n \<Longrightarrow> 2 ^ ord q dvd q"
    and "q < n \<Longrightarrow> flag q \<Longrightarrow> q \<notin> W \<Longrightarrow> settled F A ord q"
  using assms by (auto simp: binv_def)

text \<open>Taking the first block of a free list: the block changes sides, its flag is cleared.\<close>

lemma binv_take:
  assumes "binv n {} F A flag ord" and "(p, k) \<in> F"
  shows "binv n {} (F - {(p, k)}) (insert (p, k) A) (flag(p := False)) ord"
proof -
  have "F - {(p, k)} \<union> insert (p, k) A = F \<union> A" using assms(2) by auto
  moreover have "settled (F - {(p, k)}) (insert (p, k) A) ord q"
    if "settled F A ord q" "q \<noteq> p" for q
    using that assms(2) unfolding settled_def by blast
  ultimately show ?thesis using assms by (auto simp: binv_def)
qed

text \<open>Splitting the block in hand: the upper half becomes free, its order is not written.\<close>

lemma binv_split:
  assumes inv: "binv n {} F (insert (p, Suc c) A) flag ord" and new: "(p, Suc c) \<notin> A"
    and unflagged: "\<not> flag p"
  shows "binv n {} (insert (p + 2 ^ c, c) F) (insert (p, c) A) (flag(p + 2 ^ c := True)) ord"
    and "(p, c) \<notin> A" and "(p + 2 ^ c, c) \<notin> F"
proof -
  have pl: "pool n (insert (p, Suc c) (F \<union> A))" and pnF: "(p, Suc c) \<notin> F \<union> A"
    using binvD(1,2) [OF inv] new by auto
  note split = pool_split [OF pl pnF]
  have ok: "blk_ok n (p, Suc c)" using pl by (rule pool_okD) simp
  have al: "2 ^ Suc c dvd p" using ok by (simp add: blk_ok_def)
  have upn: "p + 2 ^ c < n" using ok by (rule blk_ok_lt) (simp add: blk_iff)
  let ?F = "insert (p + 2 ^ c, c) F" and ?A = "insert (p, c) A"
  have keep: "settled ?F ?A ord q" if q: "q < n" "flag q" for q
  proof -
    from binvD(4) [OF inv q] obtain x k where xk: "(x, k) \<in> F \<union> insert (p, Suc c) A"
      "q \<in> blk (x, k)" "ord q < k \<or> q = x \<and> ord q = k \<and> (x, k) \<in> F"
      by (auto simp: settled_def)
    show ?thesis
    proof (cases "(x, k) = (p, Suc c)")
      case False
      with xk show ?thesis unfolding settled_def by blast
    next
      case True
      with xk(3) pnF have le: "ord q \<le> c" by auto
      have dq: "2 ^ ord q dvd q" using binvD(3) [OF inv q(1)] .
      have eq: "q = y" if "ord q = c" "q \<in> blk (y, c)" "2 ^ c dvd y" for y
        using that dq by (auto intro: aligned_in_blk)
      have dc: "2 ^ c dvd p" "2 ^ c dvd (p + 2 ^ c)" using al by (auto dest: dvd_mult_right)
      from xk(2) True have "q \<in> blk (p, c) \<or> q \<in> blk (p + 2 ^ c, c)" by (simp add: blk_split)
      then show ?thesis
      proof
        assume l: "q \<in> blk (p, c)"
        then have "ord q < c" using eq [OF _ l dc(1)] le q(2) unflagged by (cases "ord q = c") auto
        with l show ?thesis unfolding settled_def by blast
      next
        assume u: "q \<in> blk (p + 2 ^ c, c)"
        then show ?thesis using eq [OF _ u dc(2)] le unfolding settled_def
          by (cases "ord q = c") fastforce+
      qed
    qed
  qed
  have up: "settled ?F ?A ord (p + 2 ^ c)"
  proof -
    have "ord (p + 2 ^ c) \<le> c" using al binvD(3) [OF inv upn] by (rule upper_half_order)
    then show ?thesis unfolding settled_def using blk_first [of "p + 2 ^ c" c] by fastforce
  qed
  have "pool n (?F \<union> ?A)" using split(1) by simp
  moreover have "?F \<inter> ?A = {}" using split(2,3) binvD(2) [OF inv] by auto
  ultimately show "binv n {} ?F ?A (flag(p + 2 ^ c := True)) ord"
    using binvD(3) [OF inv] keep up by (auto simp: binv_def)
  show "(p, c) \<notin> A" "(p + 2 ^ c, c) \<notin> F" using split(2,3) by auto
qed

text \<open>Freeing begins: the block is still in hand, its first page is flagged and given the order.\<close>

lemma binv_free_begin:
  assumes "binv n {} F (insert (p, k) A) flag ord"
  shows "binv n {p} F (insert (p, k) A) (flag(p := True)) (ord(p := k))"
proof -
  have "blk_ok n (p, k)" using binvD(1) [OF assms] by (rule pool_okD) simp
  then have "2 ^ k dvd p" by (simp add: blk_ok_def)
  with assms show ?thesis by (auto simp: binv_def settled_def)
qed

text \<open>
  The merge test is sound: a buddy that is flagged and records the order of the block in hand
  is a free block of that order, even though flags and orders of other pages may be stale.
\<close>

lemma binv_buddy_free:
  assumes inv: "binv n {p} F (insert (p, k) A) flag ord" and b: "b = p XOR 2 ^ k" "b < n"
    and fl: "flag b" "ord b = k"
  shows "(b, k) \<in> F"
proof -
  have ok: "blk_ok n (p, k)" using binvD(1) [OF inv] by (rule pool_okD) simp
  then have al: "2 ^ k dvd p" by (simp add: blk_ok_def)
  note bl = buddy_lower [OF al b(1)]
  from binvD(4) [OF inv b(2) fl(1)] bl(3) obtain x j where xj: "(x, j) \<in> F \<union> insert (p, k) A"
    "b \<in> blk (x, j)" "k < j \<or> b = x \<and> k = j \<and> (x, j) \<in> F"
    using fl(2) by (auto simp: settled_def)
  show ?thesis
  proof (cases "k < j")
    case False
    with xj(3) show ?thesis by auto
  next
    case True
    let ?p' = "if b < p then b else p"
    have okx: "blk_ok n (x, j)" using binvD(1) [OF inv] xj(1) by (rule pool_okD)
    have "b \<in> blk (?p', Suc k)" "p \<in> blk (?p', Suc k)" using bl(4) by auto
    moreover have "blk (?p', Suc k) \<subseteq> blk (x, j)"
      using True okx bl(1) calculation(1) xj(2) by (intro blk_nested) (auto simp: blk_ok_def)
    ultimately have "p \<in> blk (x, j)" by blast
    then have "(x, j) = (p, k)"
      using binvD(1) [OF inv] xj(1) by (intro pool_disjointD [of n _ _ _ p]) auto
    with True show ?thesis by simp
  qed
qed

text \<open>
  Merging with the buddy. The flag of the buddy is cleared, so when the buddy is the lower half
  the merged block's first page is unflagged while the old first page keeps its flag.
\<close>

lemma binv_merge:
  assumes inv: "binv n {p} F (insert (p, k) A) flag ord" and new: "(p, k) \<notin> A"
    and hand: "flag p \<Longrightarrow> ord p = k" and b: "b = p XOR 2 ^ k" and bF: "(b, k) \<in> F" and k: "Suc k \<le> 10"
  defines "p' \<equiv> (if b < p then b else p)"
  shows "binv n {p'} (F - {(b, k)}) (insert (p', Suc k) A) (flag(b := False)) (ord(p' := Suc k))"
    and "(p', Suc k) \<notin> A" and "(p', Suc k) \<notin> F"
proof -
  let ?B = "F - {(b, k)} \<union> A"
  note dj = binvD(2) [OF inv]
  have B: "F \<union> insert (p, k) A = insert (p, k) (insert (b, k) ?B)" using bF by auto
  have pl: "pool n (insert (p, k) (insert (b, k) ?B))" using binvD(1) [OF inv] unfolding B .
  have n1: "(p, k) \<notin> insert (b, k) ?B" "(b, k) \<notin> ?B" using dj new bF by auto
  note mg = pool_merge [OF pl n1 b k, folded p'_def]
  have "blk_ok n (p, k)" using pl by (rule pool_okD) simp
  then have al: "2 ^ k dvd p" by (simp add: blk_ok_def)
  note bl = buddy_lower [OF al b, folded p'_def]
  let ?F = "F - {(b, k)}" and ?A = "insert (p', Suc k) A" and ?o = "ord(p' := Suc k)"
  have "settled ?F ?A ?o q" if q: "q < n" "(flag(b := False)) q" "q \<noteq> p'" for q
  proof (cases "q = p")
    case True
    with q hand have "ord q = k" by (auto split: if_splits)
    moreover have "q \<in> blk (p', Suc k)" using True by (simp add: bl(4))
    ultimately show ?thesis using q(3) unfolding settled_def by (intro exI conjI) auto
  next
    case False
    with q binvD(4) [OF inv, of q] obtain x j where xj: "(x, j) \<in> F \<union> insert (p, k) A"
      "q \<in> blk (x, j)" "ord q < j \<or> q = x \<and> ord q = j \<and> (x, j) \<in> F"
      by (auto simp: settled_def split: if_splits)
    have qb: "q \<noteq> b" using q(2) by auto
    show ?thesis
    proof (cases "(x, j) \<in> {(p, k), (b, k)}")
      case True
      then have "q \<in> blk (p', Suc k)" "ord q < k" using xj qb n1(1) bF False by (auto simp: bl(4))
      then show ?thesis using q(3) unfolding settled_def by (intro exI conjI) auto
    next
      case False
      with xj q(3) show ?thesis unfolding settled_def by (intro exI [of _ x] exI [of _ j]) auto
    qed
  qed
  moreover have "pool n (?F \<union> ?A)" using mg(1) by simp
  moreover have "?F \<inter> ?A = {}" using mg(2) dj by auto
  ultimately show "binv n {p'} ?F ?A (flag(b := False)) ?o"
    using binvD(3) [OF inv] bl(1) by (auto simp: binv_def)
  show "(p', Suc k) \<notin> A" "(p', Suc k) \<notin> F" using mg(2) by auto
qed

text \<open>Freeing ends: the block in hand joins the free blocks.\<close>

lemma binv_put:
  assumes inv: "binv n {p} F (insert (p, k) A) flag ord" and new: "(p, k) \<notin> A"
    and hand: "flag p \<Longrightarrow> ord p = k"
  shows "binv n {} (insert (p, k) F) A flag ord"
proof -
  have "insert (p, k) F \<union> A = F \<union> insert (p, k) A" by auto
  moreover have "settled (insert (p, k) F) A ord q" if "settled F (insert (p, k) A) ord q" for q
    using that unfolding settled_def by blast
  moreover have "settled (insert (p, k) F) A ord p" if "flag p"
    using hand [OF that] blk_first unfolding settled_def by blast
  ultimately show ?thesis using inv new by (auto simp: binv_def)
qed

text \<open>Recording the order of an allocated block touches an unflagged page only.\<close>

lemma binv_set_order:
  assumes "binv n {} F (insert (p, k) A) flag ord" and "\<not> flag p"
  shows "binv n {} F (insert (p, k) A) flag (ord(p := k))"
proof -
  have "blk_ok n (p, k)" using binvD(1) [OF assms(1)] by (rule pool_okD) simp
  then have "2 ^ k dvd p" by (simp add: blk_ok_def)
  moreover have "settled F (insert (p, k) A) (ord(p := k)) q"
    if "settled F (insert (p, k) A) ord q" "flag q" for q
    using that assms(2) by (cases "q = p") (auto simp: settled_def)
  ultimately show ?thesis using assms(1) by (auto simp: binv_def)
qed

section \<open>Counting pages\<close>

definition pages_of :: "(nat \<times> nat) set \<Rightarrow> nat set" where
  "pages_of B = (\<Union>x\<in>B. blk x)"

lemma pool_finite: "pool n B \<Longrightarrow> finite B"
proof -
  assume p: "pool n B"
  have "B \<subseteq> {..n} \<times> {..10}"
  proof
    fix x assume "x \<in> B"
    with p have "blk_ok n x" by (rule pool_okD)
    then show "x \<in> {..n} \<times> {..10}" by (cases x) (auto simp: blk_ok_def)
  qed
  then show ?thesis by (rule finite_subset) simp
qed

lemma card_pages_of:
  assumes "pool n B"
  shows "card (pages_of B) = (\<Sum>x\<in>B. 2 ^ snd x)"
proof -
  have "card (pages_of B) = (\<Sum>x\<in>B. card (blk x))"
    unfolding pages_of_def using pool_finite [OF assms] assms
    by (intro card_UN_disjoint) (auto simp: blk_def pool_def)
  then show ?thesis by (simp add: card_blk)
qed

lemma pages_of_bound: "pool n B \<Longrightarrow> pages_of B \<subseteq> {..<n}"
  unfolding pages_of_def using blk_ok_lt pool_okD by blast

end
