(* ===== verification/Pmm_Correct.thy ===== *)
theory Pmm_Correct
  imports Pmm Buddy
begin

text \<open>
  Correctness of the physical memory manager: the invariant \<open>pmm_inv\<close> relates the manager's state
  to the set of blocks its clients hold, and every allocation and release keeps it. The list
  facts come from the interface \<open>linked_lists\<close> (interpretation \<open>kl\<close>), the combinatorial facts
  from theory \<open>Buddy\<close>.
\<close>

section \<open>The free lists\<close>

definition area_map :: "(nat \<Rightarrow> nat list) \<Rightarrow> page_addr \<Rightarrow> page_addr list" where
  "area_map fl a = (case a of Free_area k \<Rightarrow> map Page_list (fl k) | _ \<Rightarrow> [])"

definition areas :: "page_addr set" where
  "areas = Free_area ` {..10}"

definition free_lists :: "page_addr list_heap \<Rightarrow> (nat \<Rightarrow> nat list) \<Rightarrow> bool" where
  "free_lists h fl \<longleftrightarrow> lists_at h areas (area_map fl)"

definition blocks :: "(nat \<Rightarrow> nat list) \<Rightarrow> (nat \<times> nat) set" where
  "blocks fl = {(p, k). k \<le> 10 \<and> p \<in> set (fl k)}"

lemma area_map_upd [simp]:
  "(area_map fl)(Free_area k := map Page_list xs) = area_map (fl(k := xs))"
  by (auto simp: area_map_def fun_eq_iff split: page_addr.splits)

lemma area_map_simps [simp]:
  "area_map fl (Free_area k) = map Page_list (fl k)" "Free_area k \<in> areas \<longleftrightarrow> k \<le> 10"
  by (auto simp: area_map_def areas_def)

lemma fresh_page:
  "(\<And>j. (p, j) \<notin> blocks fl) \<Longrightarrow> fresh_for areas (area_map fl) (Page_list p)"
  by (auto simp: fresh_for_def areas_def blocks_def)

lemma free_lists_add:
  assumes "free_lists h fl" and "k \<le> 10" and "\<And>j. (p, j) \<notin> blocks fl"
  shows "\<exists>h'. list_add h (Page_list p) (Free_area k) = Some h' \<and> free_lists h' (fl(k := p # fl k))"
  using kl.rep_add [OF assms(1) [unfolded free_lists_def] _ fresh_page [OF assms(3)], of "Free_area k"]
    assms(2) area_map_upd [of fl k "p # fl k"]
  by (simp add: free_lists_def)

lemma map_remove1_Page_list: "remove1 (Page_list p) (map Page_list xs) = map Page_list (remove1 p xs)"
  by (induction xs) auto

lemma free_lists_del:
  assumes "free_lists h fl" and "(p, k) \<in> blocks fl"
  shows "\<exists>h'. list_del h (Page_list p) = Some h' \<and> free_lists h' (fl(k := remove1 p (fl k)))"
  using kl.rep_del [OF assms(1) [unfolded free_lists_def], of "Free_area k" "Page_list p"]
    assms(2) area_map_upd [of fl k "remove1 p (fl k)"]
  by (auto simp: free_lists_def blocks_def map_remove1_Page_list)

lemma free_lists_empty: "free_lists h fl \<Longrightarrow> k \<le> 10 \<Longrightarrow> list_empty h (Free_area k) \<longleftrightarrow> fl k = []"
  using kl.rep_empty [of h areas "area_map fl" "Free_area k"] by (simp add: free_lists_def)

lemma free_lists_first:
  "free_lists h fl \<Longrightarrow> k \<le> 10 \<Longrightarrow> fl k = p # ps \<Longrightarrow> nxt h (Free_area k) = Some (Page_list p)"
  using kl.rep_first [of h areas "area_map fl" "Free_area k"] by (simp add: free_lists_def)

lemma free_lists_distinct: "free_lists h fl \<Longrightarrow> k \<le> 10 \<Longrightarrow> distinct (fl k)"
  using kl.rep_distinct [of h areas "area_map fl" "Free_area k"]
  by (simp add: free_lists_def distinct_map)

lemma blocks_add: "k \<le> 10 \<Longrightarrow> blocks (fl(k := p # fl k)) = insert (p, k) (blocks fl)"
  by (auto simp: blocks_def split: if_splits)

lemma blocks_remove:
  "k \<le> 10 \<Longrightarrow> distinct (fl k) \<Longrightarrow> blocks (fl(k := remove1 p (fl k))) = blocks fl - {(p, k)}"
  by (auto simp: blocks_def split: if_splits)

text \<open>The lists a state holds, read off by walking them.\<close>

definition free_list :: "pmm \<Rightarrow> nat \<Rightarrow> nat list" where
  "free_list s k =
     (case list_for_each (links s) (Free_area k) of
        None \<Rightarrow> []
      | Some xs \<Rightarrow> [p. Page_list p \<leftarrow> xs])"

lemma free_list_eq: "free_lists (links s) fl \<Longrightarrow> k \<le> 10 \<Longrightarrow> free_list s k = fl k"
proof -
  assume "free_lists (links s) fl" "k \<le> 10"
  then have "list_for_each (links s) (Free_area k) = Some (map Page_list (fl k))"
    using kl.rep_for_each [of "links s" areas "area_map fl" "Free_area k"]
    by (simp add: free_lists_def)
  moreover have "[p. Page_list p \<leftarrow> map Page_list xs] = xs" for xs by (induction xs) auto
  ultimately show ?thesis by (simp add: free_list_def)
qed

definition free_blocks :: "pmm \<Rightarrow> (nat \<times> nat) set" where
  "free_blocks s = blocks (free_list s)"

lemma free_blocks_eq: "free_lists (links s) fl \<Longrightarrow> free_blocks s = blocks fl"
  by (auto simp: free_blocks_def blocks_def free_list_eq)

section \<open>Flags and orders\<close>

definition page_order :: "pmm \<Rightarrow> nat \<Rightarrow> nat" where
  "page_order s q = pg_order (page_frames s q)"

lemma word_flag_facts:
  "((fl :: u32) OR m) AND m = m" "(fl AND NOT m) AND m = 0" "PG_buddy \<noteq> 0" "PG_reserved \<noteq> 0"
proof -
  show "(fl OR m) AND m = m" "(fl AND NOT m) AND m = 0" by (auto simp: bit_eq_iff bit_simps)
  show "PG_buddy \<noteq> 0" "PG_reserved \<noteq> 0" by (simp_all add: PG_buddy_def PG_reserved_def)
qed

lemma upd_page_fields [simp]:
  "page_frames_count (upd_page f p s) = page_frames_count s" "links (upd_page f p s) = links s"
  "free_pages (upd_page f p s) = free_pages s" "total_pages (upd_page f p s) = total_pages s"
  "reserved_pages (upd_page f p s) = reserved_pages s"
  by (simp_all add: upd_page_def)

lemmas flag_defs = set_buddy_def clear_buddy_def set_order_def

lemma test_set_buddy:
  "flag_ops_ok ops \<Longrightarrow> test_buddy ops (set_buddy ops p s) = (test_buddy ops s)(p := True)"
  by (auto simp: test_buddy_def set_buddy_def upd_page_def flag_ops_ok_def fun_eq_iff word_flag_facts)

lemma test_clear_buddy:
  "flag_ops_ok ops \<Longrightarrow> test_buddy ops (clear_buddy ops p s) = (test_buddy ops s)(p := False)"
  by (auto simp: test_buddy_def clear_buddy_def upd_page_def flag_ops_ok_def fun_eq_iff word_flag_facts)

lemma test_set_order: "test_buddy ops (set_order k p s) = test_buddy ops s"
  by (auto simp: test_buddy_def set_order_def upd_page_def fun_eq_iff)

lemma page_order_upd:
  "page_order (set_buddy ops p s) = page_order s" "page_order (clear_buddy ops p s) = page_order s"
  "page_order (set_order k p s) = (page_order s)(p := k)"
  by (auto simp: page_order_def flag_defs upd_page_def fun_eq_iff)

lemma page_upd_links:
  "test_buddy ops (s\<lparr>links := h\<rparr>) = test_buddy ops s" "page_order (s\<lparr>links := h\<rparr>) = page_order s"
  "test_buddy ops (s\<lparr>free_pages := w\<rparr>) = test_buddy ops s"
  "page_order (s\<lparr>free_pages := w\<rparr>) = page_order s"
  "test_buddy ops (s\<lparr>total_pages := w\<rparr>) = test_buddy ops s"
  "page_order (s\<lparr>total_pages := w\<rparr>) = page_order s"
  "test_buddy ops (s\<lparr>reserved_pages := w\<rparr>) = test_buddy ops s"
  "page_order (s\<lparr>reserved_pages := w\<rparr>) = page_order s"
  by (auto simp: test_buddy_def page_order_def fun_eq_iff)

lemmas page_simps = test_set_buddy test_clear_buddy test_set_order page_order_upd page_upd_links

text \<open>The part of the state the allocator's inner loops leave alone.\<close>

definition same_counters :: "pmm \<Rightarrow> pmm \<Rightarrow> bool" where
  "same_counters s t \<longleftrightarrow> t = s\<lparr>page_frames := page_frames t, links := links t\<rparr>"

lemma same_counters_simps:
  assumes "same_counters s t"
  shows "page_frames_count t = page_frames_count s" "free_pages t = free_pages s"
    "total_pages t = total_pages s" "reserved_pages t = reserved_pages s"
proof -
  have eq: "f t = f (s\<lparr>page_frames := page_frames t, links := links t\<rparr>)" for f :: "pmm \<Rightarrow> 'a"
    using assms unfolding same_counters_def by (rule arg_cong)
  show "page_frames_count t = page_frames_count s" using eq [of page_frames_count] by simp
  show "free_pages t = free_pages s" using eq [of free_pages] by simp
  show "total_pages t = total_pages s" using eq [of total_pages] by simp
  show "reserved_pages t = reserved_pages s" using eq [of reserved_pages] by simp
qed

lemma same_counters_trans:
  assumes "same_counters s t" and "same_counters t u"
  shows "same_counters s u"
proof -
  from assms(2) have "u = t\<lparr>page_frames := page_frames u, links := links u\<rparr>"
    by (simp only: same_counters_def)
  also have "\<dots> = s\<lparr>page_frames := page_frames u, links := links u\<rparr>"
    by (subst assms(1) [unfolded same_counters_def]) simp
  finally show ?thesis by (simp only: same_counters_def)
qed

lemma same_counters_step:
  "same_counters s s" "same_counters s (s\<lparr>links := h\<rparr>)" "same_counters s (upd_page f p s)"
  by (simp_all add: same_counters_def upd_page_def)

section \<open>Allocation\<close>

lemma pool_first_unique:
  assumes "pool n (insert (p, k) F)" and "(p, k) \<notin> F"
  shows "(p, j) \<notin> F"
proof
  assume "(p, j) \<in> F"
  then have "(p, j) = (p, k)"
    using assms(1) by (intro pool_disjointD [of n "insert (p, k) F" _ _ p]) auto
  with \<open>(p, j) \<in> F\<close> assms(2) show False by simp
qed

definition alloc_inv :: "page_flag_ops \<Rightarrow> nat set \<Rightarrow> pmm \<Rightarrow> (nat \<Rightarrow> nat list) \<Rightarrow> (nat \<times> nat) set \<Rightarrow> bool" where
  "alloc_inv ops W s fl A \<longleftrightarrow> free_lists (links s) fl \<and>
     binv (page_frames_count s) W (blocks fl) A (test_buddy ops s) (page_order s)"

lemma alloc_invD:
  assumes "alloc_inv ops W s fl A"
  shows "free_lists (links s) fl"
    and "binv (page_frames_count s) W (blocks fl) A (test_buddy ops s) (page_order s)"
    and "pool (page_frames_count s) (blocks fl \<union> A)" and "blocks fl \<inter> A = {}"
  using assms unfolding alloc_inv_def by (blast dest: binvD(1,2))+

lemma pages_of_Un: "pages_of (A \<union> B) = pages_of A \<union> pages_of B"
  and pages_of_insert: "pages_of (insert x B) = blk x \<union> pages_of B"
  by (auto simp: pages_of_def)

lemma split_block_done: "cur \<le> order \<Longrightarrow> split_block ops s p cur order = Some s"
  by (subst split_block.simps) simp

lemma split_block_ok:
  assumes "flag_ops_ok ops" and "alloc_inv ops {} s fl (insert (p, cur) A)" and "(p, cur) \<notin> A"
    and "\<not> test_buddy ops s p" and "order \<le> cur"
  shows "\<exists>s' fl'. split_block ops s p cur order = Some s' \<and> same_counters s s' \<and>
    alloc_inv ops {} s' fl' (insert (p, order) A) \<and> (p, order) \<notin> A \<and> \<not> test_buddy ops s' p \<and>
    blk (p, order) \<union> pages_of (blocks fl') = blk (p, cur) \<union> pages_of (blocks fl)"
  using assms(2-5)
proof (induction cur arbitrary: s fl)
  case 0
  then show ?case by (intro exI [of _ s] exI [of _ fl])
      (simp add: split_block_done same_counters_step)
next
  case (Suc c)
  show ?case
  proof (cases "Suc c = order")
    case True
    with Suc.prems show ?thesis by (intro exI [of _ s] exI [of _ fl])
      (simp add: split_block_done same_counters_step)
  next
    case False
    let ?b = "p + 2 ^ c" and ?n = "page_frames_count s"
    let ?s1 = "set_buddy ops ?b s"
    note inv = alloc_invD [OF Suc.prems(1)]
    note sp = binv_split [OF inv(2) Suc.prems(2,3)]
    have ok: "blk_ok ?n (p, Suc c)" using inv(3) by (rule pool_okD) simp
    have bn: "?b < ?n" using ok by (rule blk_ok_lt) (simp add: blk_iff)
    have c10: "c \<le> 10" using ok by (simp add: blk_ok_def)
    have "pool ?n (insert (?b, c) (blocks fl))"
      using binvD(1) [OF sp(1)] by (rule pool_subset) auto
    then have "(?b, j) \<notin> blocks fl" for j using sp(3) by (rule pool_first_unique)
    from free_lists_add [OF inv(1) c10 this] obtain h where
      h: "list_add (links s) (Page_list ?b) (Free_area c) = Some h"
         "free_lists h (fl(c := ?b # fl c))" by auto
    let ?s2 = "?s1\<lparr>links := h\<rparr>" and ?fl = "fl(c := ?b # fl c)"
    have "alloc_inv ops {} ?s2 ?fl (insert (p, c) A)"
      using sp(1) h(2) assms(1) c10
      by (simp add: alloc_inv_def page_simps blocks_add) (simp add: flag_defs)
    moreover have "\<not> test_buddy ops ?s2 p" using Suc.prems(3) assms(1) by (simp add: page_simps)
    moreover have oc: "order \<le> c" using Suc.prems(4) False by simp
    ultimately obtain s' fl' where IH: "split_block ops ?s2 p c order = Some s'" "same_counters ?s2 s'"
      "alloc_inv ops {} s' fl' (insert (p, order) A)" "(p, order) \<notin> A" "\<not> test_buddy ops s' p"
      "blk (p, order) \<union> pages_of (blocks fl') = blk (p, c) \<union> pages_of (blocks ?fl)"
      using Suc.IH [OF _ sp(2) _ oc] by blast
    have "split_block ops s p (Suc c) order = Some s'"
      using IH(1) h(1) bn False Suc.prems(4)
      by (subst split_block.simps) (simp add: Let_def pmm_page_to_pfn_def flag_defs)
    moreover have "same_counters s s'"
      using IH(2) by (rule same_counters_trans [rotated]) (simp add: same_counters_def flag_defs upd_page_def)
    moreover have "blk (p, order) \<union> pages_of (blocks fl') = blk (p, Suc c) \<union> pages_of (blocks fl)"
      using IH(6) c10 by (auto simp: blocks_add pages_of_insert blk_split)
    ultimately show ?thesis using IH(3-5) by blast
  qed
qed

lemma take_block_ok:
  assumes ops: "flag_ops_ok ops" and inv: "alloc_inv ops {} s fl A"
    and cur: "cur \<le> 10" "order \<le> cur" "fl cur \<noteq> []"
  shows "\<exists>s' fl' p. take_block ops s cur order = Some (s', Some p) \<and>
    alloc_inv ops {} s' fl' (insert (p, order) A) \<and> (p, order) \<notin> A \<and>
    blk (p, order) \<union> pages_of (blocks fl') = pages_of (blocks fl) \<and>
    same_counters s (s'\<lparr>free_pages := free_pages s\<rparr>) \<and>
    free_pages s' = free_pages s - of_nat (2 ^ order)"
proof -
  note I = alloc_invD [OF inv]
  from cur(3) obtain p ps where ps: "fl cur = p # ps" by (cases "fl cur") auto
  then have pF: "(p, cur) \<in> blocks fl" using cur by (simp add: blocks_def)
  with I(4) have pA: "(p, cur) \<notin> A" by auto
  from free_lists_del [OF I(1) pF] obtain h where
    h: "list_del (links s) (Page_list p) = Some h" "free_lists h (fl(cur := remove1 p (fl cur)))"
    by blast
  let ?s1 = "clear_buddy ops p (s\<lparr>links := h\<rparr>)" and ?fl = "fl(cur := remove1 p (fl cur))"
  have rm: "blocks ?fl = blocks fl - {(p, cur)}"
    using cur(1) free_lists_distinct [OF I(1) cur(1)] by (rule blocks_remove)
  have "alloc_inv ops {} ?s1 ?fl (insert (p, cur) A)"
    using binv_take [OF I(2) pF] h(2) ops rm
    by (simp add: alloc_inv_def page_simps) (simp add: flag_defs)
  moreover have "\<not> test_buddy ops ?s1 p" using ops by (simp add: page_simps)
  ultimately obtain s2 fl' where sp: "split_block ops ?s1 p cur order = Some s2" "same_counters ?s1 s2"
    "alloc_inv ops {} s2 fl' (insert (p, order) A)" "(p, order) \<notin> A" "\<not> test_buddy ops s2 p"
    "blk (p, order) \<union> pages_of (blocks fl') = blk (p, cur) \<union> pages_of (blocks ?fl)"
    using split_block_ok [OF ops _ pA _ cur(2)] by blast
  let ?s3 = "set_order order p s2"
  let ?s4 = "?s3\<lparr>free_pages := free_pages ?s3 - of_nat (2 ^ order)\<rparr>"
  have "take_block ops s cur order = Some (?s4, Some p)"
    using free_lists_first [OF I(1) cur(1) ps] h(1) sp(1) by (simp add: take_block_def Let_def)
  moreover have "alloc_inv ops {} ?s4 fl' (insert (p, order) A)"
    using binv_set_order [OF alloc_invD(2) [OF sp(3)] sp(5)] alloc_invD(1) [OF sp(3)]
    by (simp add: alloc_inv_def page_simps) (simp add: flag_defs)
  moreover have "blk (p, order) \<union> pages_of (blocks fl') = pages_of (blocks fl)"
    using sp(6) pF rm by (auto simp: pages_of_def)
  moreover have "same_counters s ?s1" by (simp add: same_counters_def flag_defs upd_page_def)
  from same_counters_trans [OF this sp(2)] have "same_counters s s2" .
  then have "same_counters s (?s4\<lparr>free_pages := free_pages s\<rparr>)" "free_pages s2 = free_pages s"
    by (auto simp: same_counters_simps) (cases s; cases s2; simp add: same_counters_def flag_defs upd_page_def)
  ultimately show ?thesis using sp(4) by (auto simp: flag_defs)
qed

lemma alloc_search_ok:
  assumes ops: "flag_ops_ok ops" and inv: "alloc_inv ops {} s fl A" and "order \<le> cur"
  shows "(alloc_search ops s cur order = Some (s, None) \<and> (\<forall>k. cur \<le> k \<longrightarrow> k \<le> 10 \<longrightarrow> fl k = [])) \<or>
    (\<exists>s' fl' p. alloc_search ops s cur order = Some (s', Some p) \<and>
      alloc_inv ops {} s' fl' (insert (p, order) A) \<and> (p, order) \<notin> A \<and>
      blk (p, order) \<union> pages_of (blocks fl') = pages_of (blocks fl) \<and>
      same_counters s (s'\<lparr>free_pages := free_pages s\<rparr>) \<and>
      free_pages s' = free_pages s - of_nat (2 ^ order))"
  using assms(3)
proof (induction "11 - cur" arbitrary: cur)
  case 0
  then show ?case by (subst (1 2) alloc_search.simps) auto
next
  case (Suc m)
  then have c: "cur \<le> 10" by simp
  note emp = free_lists_empty [OF alloc_invD(1) [OF inv] c]
  show ?case
  proof (cases "fl cur = []")
    case False
    then have "alloc_search ops s cur order = take_block ops s cur order"
      using c emp by (subst alloc_search.simps) simp
    with take_block_ok [OF ops inv c Suc.prems False] show ?thesis by simp
  next
    case True
    then have eq: "alloc_search ops s cur order = alloc_search ops s (Suc cur) order"
      using c emp by (subst alloc_search.simps) simp
    have "(\<forall>k. cur \<le> k \<longrightarrow> k \<le> 10 \<longrightarrow> fl k = []) \<longleftrightarrow> (\<forall>k. Suc cur \<le> k \<longrightarrow> k \<le> 10 \<longrightarrow> fl k = [])"
      using True by (metis Suc_leD Suc_leI le_neq_implies_less)
    with Suc.hyps(1) [of "Suc cur"] Suc.hyps(2) Suc.prems show ?thesis unfolding eq by auto
  qed
qed

section \<open>Release\<close>

lemma free_finish_ok:
  assumes inv: "alloc_inv ops {p} s fl (insert (p, k) A)" and new: "(p, k) \<notin> A"
    and hand: "test_buddy ops s p \<Longrightarrow> page_order s p = k"
  shows "\<exists>s' fl'. free_finish s p k = Some s' \<and> same_counters s s' \<and> alloc_inv ops {} s' fl' A \<and>
    pages_of (blocks fl') = blk (p, k) \<union> pages_of (blocks fl)"
proof -
  note I = alloc_invD [OF inv]
  have k: "k \<le> 10" using pool_okD [OF I(3), of "(p, k)"] by (simp add: blk_ok_def)
  have "pool (page_frames_count s) (insert (p, k) (blocks fl))"
    using I(3) by (rule pool_subset) auto
  moreover have "(p, k) \<notin> blocks fl" using I(4) by auto
  ultimately have "(p, j) \<notin> blocks fl" for j by (rule pool_first_unique)
  from free_lists_add [OF I(1) k this] obtain h where
    h: "list_add (links s) (Page_list p) (Free_area k) = Some h" "free_lists h (fl(k := p # fl k))"
    by auto
  have "alloc_inv ops {} (s\<lparr>links := h\<rparr>) (fl(k := p # fl k)) A"
    using binv_put [OF I(2) new hand] h(2) k by (simp add: alloc_inv_def page_simps blocks_add)
  with h k show ?thesis
    by (intro exI [of _ "s\<lparr>links := h\<rparr>"] exI [of _ "fl(k := p # fl k)"])
      (simp add: free_finish_def same_counters_step blocks_add pages_of_insert)
qed

lemma free_merge_ok:
  assumes "flag_ops_ok ops" and "alloc_inv ops {p} s fl (insert (p, k) A)" and "(p, k) \<notin> A"
    and "test_buddy ops s p \<Longrightarrow> page_order s p = k"
  shows "\<exists>s' fl'. free_merge ops s p k = Some s' \<and> same_counters s s' \<and> alloc_inv ops {} s' fl' A \<and>
    pages_of (blocks fl') = blk (p, k) \<union> pages_of (blocks fl)"
  using assms(2-4)
proof (induction "10 - k" arbitrary: s fl p k)
  case 0
  then have "free_merge ops s p k = free_finish s p k" by (subst free_merge.simps) simp
  with free_finish_ok [OF 0(2-4)] show ?case by simp
next
  case (Suc m)
  let ?b = "p XOR 2 ^ k" and ?n = "page_frames_count s"
  show ?case
  proof (cases "?b < ?n \<and> test_buddy ops s ?b \<and> page_order s ?b = k")
    case False
    then have "free_merge ops s p k = free_finish s p k"
      by (subst free_merge.simps) (auto simp: Let_def page_order_def)
    with free_finish_ok [OF Suc(3-5)] show ?thesis by simp
  next
    case True
    note I = alloc_invD [OF Suc.prems(1)]
    have k: "k < 10" "Suc k \<le> 10" using Suc.hyps(2) by simp_all
    have bF: "(?b, k) \<in> blocks fl" using binv_buddy_free [OF I(2) refl] True by simp
    from free_lists_del [OF I(1) bF] obtain h where
      h: "list_del (links s) (Page_list ?b) = Some h" "free_lists h (fl(k := remove1 ?b (fl k)))"
      by blast
    define p' where "p' = (if ?b < p then ?b else p)"
    let ?fl = "fl(k := remove1 ?b (fl k))"
    let ?s1 = "set_order (Suc k) p' (clear_buddy ops ?b (s\<lparr>links := h\<rparr>))"
    have k10: "k \<le> 10" using k by simp
    have rm: "blocks ?fl = blocks fl - {(?b, k)}"
      using k10 free_lists_distinct [OF I(1) k10] by (rule blocks_remove)
    note mg = binv_merge [OF I(2) Suc.prems(2,3) refl bF k(2), folded p'_def]
    have al: "2 ^ k dvd p" using pool_okD [OF I(3), of "(p, k)"] by (simp add: blk_ok_def)
    have inv1: "alloc_inv ops {p'} ?s1 ?fl (insert (p', Suc k) A)"
      using mg(1) h(2) assms(1) rm by (simp add: alloc_inv_def page_simps) (simp add: flag_defs)
    have "free_merge ops s p k = free_merge ops ?s1 p' (Suc k)"
      using True k h(1) by (subst free_merge.simps) (simp add: Let_def page_order_def p'_def)
    moreover have "same_counters s ?s1" by (simp add: same_counters_def flag_defs upd_page_def)
    moreover have "blk (p', Suc k) \<union> pages_of (blocks ?fl) = blk (p, k) \<union> pages_of (blocks fl)"
      using buddy_lower(4) [OF al refl, folded p'_def] bF rm by (auto simp: pages_of_def)
    moreover have "\<exists>s' fl'. free_merge ops ?s1 p' (Suc k) = Some s' \<and> same_counters ?s1 s' \<and>
        alloc_inv ops {} s' fl' A \<and> pages_of (blocks fl') = blk (p', Suc k) \<union> pages_of (blocks ?fl)"
      using Suc.hyps(2) mg(2) by (intro Suc.hyps(1) [OF _ inv1]) (auto simp: page_simps)
    ultimately show ?thesis using same_counters_trans by metis
  qed
qed

section \<open>The invariant of the manager\<close>

text \<open>
  \<open>A\<close> is the set of blocks (first page, order) that clients hold. The free-page counter is the
  number of pages in the free blocks, modulo its 64 bits.
\<close>

definition pmm_inv :: "page_flag_ops \<Rightarrow> pmm \<Rightarrow> (nat \<times> nat) set \<Rightarrow> bool" where
  "pmm_inv ops s A \<longleftrightarrow> alloc_inv ops {} s (free_list s) A \<and>
     free_pages s = of_nat (card (pages_of (free_blocks s)))"

lemma alloc_inv_free_list:
  assumes "alloc_inv ops W s fl A"
  shows "alloc_inv ops W s (free_list s) A" and "free_blocks s = blocks fl"
proof -
  note fl = alloc_invD(1) [OF assms]
  have "area_map (free_list s) a = area_map fl a" if "a \<in> areas" for a
    using that free_list_eq [OF fl] by (auto simp: areas_def)
  then have "lists_at (links s) areas (area_map (free_list s))"
    using fl by (simp add: free_lists_def lists_at_def)
  moreover show eq: "free_blocks s = blocks fl" using fl by (rule free_blocks_eq)
  ultimately show "alloc_inv ops W s (free_list s) A"
    using assms by (simp add: alloc_inv_def free_lists_def free_blocks_def)
qed

lemma card_pages_insert:
  assumes "pool n (insert x F)" and "x \<notin> F"
  shows "card (blk x \<union> pages_of F) = 2 ^ snd x + card (pages_of F)"
  using card_pages_of [OF assms(1)] card_pages_of [of n F] pool_finite [OF assms(1)] assms(2)
    pool_subset [OF assms(1), of F]
  by (simp add: pages_of_insert subset_insertI)

lemma pmm_inv_pool: "pmm_inv ops s A \<Longrightarrow> pool (page_frames_count s) (free_blocks s \<union> A)"
  unfolding pmm_inv_def free_blocks_def by (blast dest: alloc_invD(3))

lemma pmm_inv_disjoint: "pmm_inv ops s A \<Longrightarrow> free_blocks s \<inter> A = {}"
  unfolding pmm_inv_def free_blocks_def by (blast dest: alloc_invD(4))

lemma pmm_alloc_pages_cases:
  assumes "flag_ops_ok ops" and "pmm_inv ops s A" and "order \<le> 10"
  shows "(pmm_alloc_pages ops s order = Some (s, None) \<and> (\<forall>p k. order \<le> k \<longrightarrow> (p, k) \<notin> free_blocks s)) \<or>
    (\<exists>s' p. pmm_alloc_pages ops s order = Some (s', Some p) \<and> (p, order) \<notin> A \<and>
      pmm_inv ops s' (insert (p, order) A) \<and>
      pages_of (free_blocks s) = blk (p, order) \<union> pages_of (free_blocks s') \<and>
      free_pages s' = free_pages s - of_nat (2 ^ order) \<and>
      same_counters s (s'\<lparr>free_pages := free_pages s\<rparr>))"
proof -
  have inv: "alloc_inv ops {} s (free_list s) A"
    and cnt: "free_pages s = of_nat (card (pages_of (free_blocks s)))"
    using assms(2) by (auto simp: pmm_inv_def)
  have eq: "pmm_alloc_pages ops s order = alloc_search ops s order order"
    using assms(3) by (simp add: pmm_alloc_pages_def)
  from alloc_search_ok [OF assms(1) inv le_refl [of order]] show ?thesis
  proof (elim disjE exE conjE)
    assume "\<forall>k. order \<le> k \<longrightarrow> k \<le> 10 \<longrightarrow> free_list s k = []"
      "alloc_search ops s order order = Some (s, None)"
    then show ?thesis unfolding eq by (auto simp: free_blocks_def blocks_def)
  next
    fix s' fl' p
    assume a: "alloc_search ops s order order = Some (s', Some p)" "(p, order) \<notin> A"
      and inv': "alloc_inv ops {} s' fl' (insert (p, order) A)"
      and pages: "blk (p, order) \<union> pages_of (blocks fl') = pages_of (blocks (free_list s))"
      and same: "same_counters s (s'\<lparr>free_pages := free_pages s\<rparr>)"
      and fp: "free_pages s' = free_pages s - of_nat (2 ^ order)"
    note fl' = alloc_inv_free_list [OF inv']
    have pl: "pool (page_frames_count s') (insert (p, order) (blocks fl'))"
      using alloc_invD(3) [OF inv'] by (rule pool_subset) auto
    have "(p, order) \<notin> blocks fl'" using alloc_invD(4) [OF inv'] by auto
    from card_pages_insert [OF pl this]
    have "card (pages_of (free_blocks s)) = 2 ^ order + card (pages_of (free_blocks s'))"
      using pages fl'(2) by (simp add: free_blocks_def)
    then have "free_pages s' = of_nat (card (pages_of (free_blocks s')))"
      using fp cnt by simp
    with fl' have "pmm_inv ops s' (insert (p, order) A)" by (simp add: pmm_inv_def)
    with a same fp pages fl'(2) show ?thesis unfolding eq by (simp add: free_blocks_def)
  qed
qed

lemma pmm_free_pages_ok:
  assumes ops: "flag_ops_ok ops" and inv: "pmm_inv ops s (insert (p, k) A)" and new: "(p, k) \<notin> A"
  shows "\<exists>s'. pmm_free_pages ops s (Some p) k = Some s' \<and> pmm_inv ops s' A \<and>
    pages_of (free_blocks s') = blk (p, k) \<union> pages_of (free_blocks s) \<and>
    free_pages s' = free_pages s + of_nat (2 ^ k) \<and>
    same_counters s (s'\<lparr>free_pages := free_pages s\<rparr>)"
proof -
  have ai: "alloc_inv ops {} s (free_list s) (insert (p, k) A)"
    and cnt: "free_pages s = of_nat (card (pages_of (free_blocks s)))"
    using inv by (auto simp: pmm_inv_def)
  note I = alloc_invD [OF ai]
  have ok: "blk_ok (page_frames_count s) (p, k)" using I(3) by (rule pool_okD) simp
  then have pn: "p < page_frames_count s" by (rule blk_ok_lt) simp
  let ?s1 = "set_order k p (set_buddy ops p s)"
  let ?s2 = "?s1\<lparr>free_pages := free_pages ?s1 + of_nat (2 ^ k)\<rparr>"
  have "alloc_inv ops {p} ?s2 (free_list s) (insert (p, k) A)"
    using binv_free_begin [OF I(2)] I(1) ops
    by (simp add: alloc_inv_def page_simps) (simp add: flag_defs)
  moreover have "page_order ?s2 p = k" by (simp add: page_simps)
  ultimately obtain s' fl' where m: "free_merge ops ?s2 p k = Some s'" "same_counters ?s2 s'"
    "alloc_inv ops {} s' fl' A"
    "pages_of (blocks fl') = blk (p, k) \<union> pages_of (blocks (free_list s))"
    using free_merge_ok [OF ops _ new] by blast
  have "pmm_free_pages ops s (Some p) k = Some s'"
    using m(1) ok pn by (simp add: pmm_free_pages_def blk_ok_def pmm_page_to_pfn_def Let_def)
  moreover have fp: "free_pages s' = free_pages s + of_nat (2 ^ k)"
    using same_counters_simps(2) [OF m(2)] by (simp add: flag_defs)
  moreover note fl' = alloc_inv_free_list [OF m(3)]
  have "pool (page_frames_count s) (insert (p, k) (free_blocks s))" "(p, k) \<notin> free_blocks s"
    using pool_subset [OF I(3)] I(4) by (auto simp: free_blocks_def)
  from card_pages_insert [OF this]
  have "card (pages_of (free_blocks s')) = 2 ^ k + card (pages_of (free_blocks s))"
    using m(4) fl'(2) by (simp add: free_blocks_def)
  then have "pmm_inv ops s' A" using fp cnt fl' by (simp add: pmm_inv_def)
  moreover have "same_counters s (s'\<lparr>free_pages := free_pages s\<rparr>)"
    using m(2) by (cases s; cases s') (simp add: same_counters_def flag_defs upd_page_def)
  ultimately show ?thesis using m(4) fl'(2) by (simp add: free_blocks_def)
qed

section \<open>Adding and reserving single pages\<close>

lemma pages_of_blocks_first: "(p, k) \<in> B \<Longrightarrow> p \<in> pages_of B"
  unfolding pages_of_def using blk_first by blast

lemma binv_add_page:
  assumes "binv n {} F A flag ord" and "p < n" and "p \<notin> pages_of (F \<union> A)" and "ord p = 0"
  shows "binv n {} (insert (p, 0) F) A (flag(p := True)) ord"
proof -
  have "pool n (insert (p, 0) (F \<union> A))"
    using binvD(1) [OF assms(1)] assms(2,3)
    by (intro pool_insertI) (auto simp: blk_ok_def blk_iff pages_of_def)
  moreover have "(p, 0) \<notin> A" using assms(3) pages_of_blocks_first [of p 0 "F \<union> A"] by blast
  moreover have "settled (insert (p, 0) F) A ord p"
    using assms(4) blk_first unfolding settled_def by blast
  moreover have "settled (insert (p, 0) F) A ord q" if "settled F A ord q" for q
    using that unfolding settled_def by blast
  ultimately show ?thesis using assms(1) by (auto simp: binv_def)
qed

lemma binv_remove_page:
  assumes "binv n {} F A flag ord" and "(p, 0) \<in> F"
  shows "binv n {} (F - {(p, 0)}) A (flag(p := False)) ord"
proof -
  have "settled (F - {(p, 0)}) A ord q" if sq: "settled F A ord q" "q \<noteq> p" for q
  proof -
    from sq(1) obtain x k where "(x, k) \<in> F \<union> A" "q \<in> blk (x, k)"
      "ord q < k \<or> q = x \<and> ord q = k \<and> (x, k) \<in> F"
      by (auto simp: settled_def)
    moreover from this sq(2) have "(x, k) \<noteq> (p, 0)" by (auto simp: blk_iff)
    ultimately show ?thesis unfolding settled_def by blast
  qed
  moreover have "pool n (F - {(p, 0)} \<union> A)"
    using binvD(1) [OF assms(1)] by (rule pool_subset) auto
  ultimately show ?thesis using assms(1) by (auto simp: binv_def)
qed

text \<open>Making page \<open>p\<close> a free block of order 0, the common body of two range loops.\<close>

lemma add_page_ok:
  assumes "alloc_inv ops {} s fl A" and "p < page_frames_count s" and "p \<notin> pages_of (blocks fl \<union> A)"
    and "page_order s p = 0"
    and t: "test_buddy ops t = (test_buddy ops s)(p := True)" "page_order t = page_order s"
      "page_frames_count t = page_frames_count s"
  shows "\<exists>h. list_add (links s) (Page_list p) (Free_area 0) = Some h \<and>
    alloc_inv ops {} (t\<lparr>links := h\<rparr>) (fl(0 := p # fl 0)) A"
proof -
  note I = alloc_invD [OF assms(1)]
  have "(p, j) \<notin> blocks fl" for j 
    using assms(3) pages_of_blocks_first [of p j "blocks fl \<union> A"] by blast
  from free_lists_add [OF I(1) _ this, of 0] obtain h where
    "list_add (links s) (Page_list p) (Free_area 0) = Some h" "free_lists h (fl(0 := p # fl 0))" by auto
  moreover have "binv (page_frames_count s) {} (insert (p, 0) (blocks fl)) A (test_buddy ops t) (page_order t)"
    using binv_add_page [OF I(2) assms(2,3,4)] t by simp
  ultimately show ?thesis using t(3) by (auto simp: alloc_inv_def page_simps blocks_add)
qed

lemma test_set_fresh_buddy:
  "flag_ops_ok ops \<Longrightarrow> test_buddy ops (set_buddy ops p (upd_page (\<lambda>pg. pg\<lparr>pg_flags := 0\<rparr>) p s)) =
     (test_buddy ops s)(p := True)"
  by (auto simp: test_buddy_def set_buddy_def upd_page_def flag_ops_ok_def fun_eq_iff word_flag_facts)

lemma init_memmap_loop_ok:
  assumes "flag_ops_ok ops" and "alloc_inv ops {} s fl A"
    and "\<forall>q. pfn \<le> q \<and> q < e \<and> q < page_frames_count s \<longrightarrow>
      q \<notin> pages_of (blocks fl \<union> A) \<and> page_order s q = 0"
  shows "\<exists>s' fl'. init_memmap_loop ops s pfn e = Some s' \<and> alloc_inv ops {} s' fl' A \<and>
    pages_of (blocks fl') = {pfn..<min e (page_frames_count s)} \<union> pages_of (blocks fl) \<and>
    page_order s' = page_order s \<and> page_frames_count s' = page_frames_count s \<and>
    free_pages s' = free_pages s + of_nat (min e (page_frames_count s) - pfn) \<and>
    total_pages s' = total_pages s + of_nat (min e (page_frames_count s) - pfn) \<and>
    reserved_pages s' = reserved_pages s"
  using assms(2,3)
proof (induction "e - pfn" arbitrary: pfn s fl)
  case 0
  then have "init_memmap_loop ops s pfn e = Some s" by (subst init_memmap_loop.simps) simp
  with 0 show ?case by auto
next
  case (Suc m)
  let ?n = "page_frames_count s"
  show ?case
  proof (cases "pfn < ?n")
    case False
    then have "init_memmap_loop ops s pfn e = Some s" by (subst init_memmap_loop.simps) simp
    with False Suc.prems show ?thesis by auto
  next
    case True
    let ?s2 = "set_buddy ops pfn (upd_page (\<lambda>pg. pg\<lparr>pg_flags := 0\<rparr>) pfn s)"
    let ?fl = "fl(0 := pfn # fl 0)"
    have pe: "pfn < e" using Suc.hyps(2) by simp
    have ord2: "page_order ?s2 = page_order s"
      by (auto simp: page_order_def set_buddy_def upd_page_def fun_eq_iff)
    obtain h where h: "list_add (links s) (Page_list pfn) (Free_area 0) = Some h"
      "alloc_inv ops {} (?s2\<lparr>links := h\<rparr>) ?fl A"
      using add_page_ok [OF Suc.prems(1) True, of ?s2] test_set_fresh_buddy [OF assms(1)] ord2
        Suc.prems(2) True pe
      by (auto simp: set_buddy_def)
    define t where "t = ?s2\<lparr>links := h, free_pages := free_pages ?s2 + 1, total_pages := total_pages ?s2 + 1\<rparr>"
    have t: "page_frames_count t = ?n" "page_order t = page_order s" "free_pages t = free_pages s + 1"
      "total_pages t = total_pages s + 1" "reserved_pages t = reserved_pages s"
      using ord2 by (simp_all add: t_def page_upd_links) (simp_all add: set_buddy_def)
    have "alloc_inv ops {} t ?fl A"
      using h(2) by (simp add: alloc_inv_def t_def page_upd_links)
    moreover have "\<forall>q. Suc pfn \<le> q \<and> q < e \<and> q < page_frames_count t \<longrightarrow>
        q \<notin> pages_of (blocks ?fl \<union> A) \<and> page_order t q = 0"
      using Suc.prems(2) t by (auto simp: blocks_add pages_of_insert blk_iff)
    moreover have "m = e - Suc pfn" using Suc.hyps(2) by simp
    ultimately obtain s' fl' where IH: "init_memmap_loop ops t (Suc pfn) e = Some s'"
      "alloc_inv ops {} s' fl' A"
      "pages_of (blocks fl') = {Suc pfn..<min e ?n} \<union> pages_of (blocks ?fl)"
      "page_order s' = page_order s" "page_frames_count s' = ?n"
      "free_pages s' = free_pages s + 1 + of_nat (min e ?n - Suc pfn)"
      "total_pages s' = total_pages s + 1 + of_nat (min e ?n - Suc pfn)"
      "reserved_pages s' = reserved_pages s"
      using Suc.hyps(1) [of "Suc pfn" t ?fl] unfolding t by blast
    have "init_memmap_loop ops s pfn e = Some s'"
      using IH(1) h(1) True pe by (subst init_memmap_loop.simps) (simp add: Let_def t_def set_buddy_def)
    moreover have "Suc (min e ?n - Suc pfn) = min e ?n - pfn" using pe True by simp
    then have "(1 :: u64) + of_nat (min e ?n - Suc pfn) = of_nat (min e ?n - pfn)"
      by (metis of_nat_Suc)
    moreover have "pages_of (blocks fl') = {pfn..<min e ?n} \<union> pages_of (blocks fl)"
      using IH(3) pe True by (auto simp: blocks_add pages_of_insert blk_iff)
    ultimately show ?thesis using IH by (auto simp: add.assoc)
  qed
qed

end
