(* ===== verification/Pmm_Ranges.thy ===== *)
theory Pmm_Ranges
  imports Pmm_Correct
begin

text \<open>
  Ranges of page frames (\<^verbatim>\<open>pmm_reserve_range\<close>, \<^verbatim>\<open>pmm_free_range\<close>, \<^verbatim>\<open>pmm_init_memmap\<close>) and the
  boot path \<^verbatim>\<open>pmm_init\<close> of \<^verbatim>\<open>kernel/mm/pmm.c\<close>: what each loop does to the free blocks, the flags
  and the counters, by induction on the number of frames left.
\<close>

section \<open>The reserved flag\<close>

definition test_reserved :: "page_flag_ops \<Rightarrow> pmm \<Rightarrow> nat \<Rightarrow> bool" where
  "test_reserved ops s p = page_test_flags ops (pg_flags (page_frames s p)) PG_reserved"

abbreviation set_reserved :: "page_flag_ops \<Rightarrow> nat \<Rightarrow> pmm \<Rightarrow> pmm" where
  "set_reserved ops \<equiv> upd_page (\<lambda>pg. pg\<lparr>pg_flags := page_set_flags ops (pg_flags pg) PG_reserved\<rparr>)"

abbreviation clear_reserved :: "page_flag_ops \<Rightarrow> nat \<Rightarrow> pmm \<Rightarrow> pmm" where
  "clear_reserved ops \<equiv> upd_page (\<lambda>pg. pg\<lparr>pg_flags := page_clear_flags ops (pg_flags pg) PG_reserved\<rparr>)"

lemma two_flags:
  "((fl :: u32) OR PG_reserved) AND PG_buddy = fl AND PG_buddy"
  "(fl AND NOT PG_reserved) AND PG_buddy = fl AND PG_buddy"
  "(fl OR PG_buddy) AND PG_reserved = fl AND PG_reserved"
  "(fl AND NOT PG_buddy) AND PG_reserved = fl AND PG_reserved"
proof -
  have "PG_reserved AND PG_buddy = 0" by (simp add: PG_buddy_def PG_reserved_def)
  then have "\<not> (bit PG_reserved n \<and> bit PG_buddy n)" if "n < 32" for n using that by (simp add: bit_eq_iff bit_simps)
  then show "((fl :: u32) OR PG_reserved) AND PG_buddy = fl AND PG_buddy"
    "(fl AND NOT PG_reserved) AND PG_buddy = fl AND PG_buddy"
    "(fl OR PG_buddy) AND PG_reserved = fl AND PG_reserved"
    "(fl AND NOT PG_buddy) AND PG_reserved = fl AND PG_reserved"
    by (auto simp: bit_eq_iff bit_simps)
qed

lemma reserved_simps:
  assumes "flag_ops_ok ops"
  shows "test_buddy ops (set_reserved ops p s) = test_buddy ops s"
    and "test_buddy ops (clear_reserved ops p s) = test_buddy ops s"
    and "test_reserved ops (set_reserved ops p s) = (test_reserved ops s)(p := True)"
    and "test_reserved ops (clear_reserved ops p s) = (test_reserved ops s)(p := False)"
    and "test_reserved ops (set_buddy ops p s) = test_reserved ops s"
    and "test_reserved ops (clear_buddy ops p s) = test_reserved ops s"
  using assms
  by (auto simp: test_buddy_def test_reserved_def flag_defs upd_page_def flag_ops_ok_def fun_eq_iff
      two_flags word_flag_facts)

lemma reserved_page_order:
  "page_order (set_reserved ops p s) = page_order s"
  "page_order (clear_reserved ops p s) = page_order s"
  by (auto simp: page_order_def upd_page_def fun_eq_iff)

lemma reserved_upd_links:
  "test_reserved ops (s\<lparr>links := h\<rparr>) = test_reserved ops s"
  "test_reserved ops (s\<lparr>free_pages := w\<rparr>) = test_reserved ops s"
  "test_reserved ops (s\<lparr>reserved_pages := w\<rparr>) = test_reserved ops s"
  by (auto simp: test_reserved_def fun_eq_iff)

lemmas range_simps = page_simps reserved_simps reserved_page_order reserved_upd_links

section \<open>Reserving\<close>

text \<open>
  One step of the loop takes a page that is a free block of its own off its list, and only marks
  any other page.
\<close>

lemma reserve_page_ok:
  assumes ops: "flag_ops_ok ops" and inv: "alloc_inv ops {} s fl A"
    and blk: "test_buddy ops s p \<longrightarrow> (p, 0) \<in> blocks fl"
  shows "\<exists>s' fl'. reserve_page ops s p = Some s' \<and> alloc_inv ops {} s' fl' A \<and>
    blocks fl' = (if test_buddy ops s p then blocks fl - {(p, 0)} else blocks fl) \<and>
    test_buddy ops s' = (test_buddy ops s)(p := False) \<and>
    test_reserved ops s' = (test_reserved ops s)(p := True) \<and>
    page_order s' = page_order s \<and> page_frames_count s' = page_frames_count s \<and>
    total_pages s' = total_pages s \<and> reserved_pages s' = reserved_pages s + 1 \<and>
    free_pages s' = free_pages s - (if test_buddy ops s p then 1 else 0)"
proof (cases "test_buddy ops s p")
  case False
  let ?s' = "(set_reserved ops p s)\<lparr>reserved_pages := reserved_pages s + 1\<rparr>"
  have "reserve_page ops s p = Some ?s'"
    using False by (simp add: reserve_page_def Let_def)
  moreover have "alloc_inv ops {} ?s' fl A"
    using inv ops by (simp add: alloc_inv_def range_simps)
  ultimately show ?thesis using False ops
    by (intro exI [of _ ?s'] exI [of _ fl]) (auto simp: range_simps fun_eq_iff)
next
  case True
  note I = alloc_invD [OF inv]
  from True blk have b: "(p, 0) \<in> blocks fl" by simp
  from free_lists_del [OF I(1) b] obtain h where
    h: "list_del (links s) (Page_list p) = Some h" "free_lists h (fl(0 := remove1 p (fl 0)))" by blast
  let ?s1 = "(clear_buddy ops p s)\<lparr>links := h, free_pages := free_pages s - 1\<rparr>"
  let ?s' = "(set_reserved ops p ?s1)\<lparr>reserved_pages := reserved_pages s + 1\<rparr>"
  have rm: "blocks (fl(0 := remove1 p (fl 0))) = blocks fl - {(p, 0)}"
    using free_lists_distinct [OF I(1)] by (intro blocks_remove) auto
  have "reserve_page ops s p = Some ?s'"
    using True h(1) by (simp add: reserve_page_def Let_def clear_buddy_def)
  moreover have "alloc_inv ops {} ?s' (fl(0 := remove1 p (fl 0))) A"
    using binv_remove_page [OF I(2) b] h(2) rm ops
    by (simp add: alloc_inv_def range_simps) (simp add: clear_buddy_def)
  ultimately show ?thesis
    using True ops rm
    by (intro exI [of _ ?s'] exI [of _ "fl(0 := remove1 p (fl 0))"])
      (simp add: range_simps, simp add: clear_buddy_def)
qed

text \<open>The pages of a range of frames that exist.\<close>

definition frames_in :: "pmm \<Rightarrow> nat \<Rightarrow> nat \<Rightarrow> nat set" where
  "frames_in s pfn e = {pfn..<min e (page_frames_count s)}"

lemma frames_in_step:
  "pfn < e \<Longrightarrow> pfn < page_frames_count s \<Longrightarrow> frames_in s pfn e = insert pfn (frames_in s (Suc pfn) e)"
  by (auto simp: frames_in_def)

lemma frames_in_facts [simp]:
  "finite (frames_in s pfn e)" "pfn \<notin> frames_in s (Suc pfn) e"
  "e \<le> pfn \<Longrightarrow> frames_in s pfn e = {}" "page_frames_count s \<le> pfn \<Longrightarrow> frames_in s pfn e = {}"
  by (auto simp: frames_in_def)

lemma card_Collect_insert:
  "finite R \<Longrightarrow> x \<notin> R \<Longrightarrow>
   card {q \<in> insert x R. P q} = (if P x then 1 else 0) + card {q \<in> R. P q}"
proof -
  assume R: "finite R" "x \<notin> R"
  have "{q \<in> insert x R. P q} = (if P x then insert x {q \<in> R. P q} else {q \<in> R. P q})" by auto
  with R show ?thesis by simp
qed

definition reserved_range :: "page_flag_ops \<Rightarrow> pmm \<Rightarrow> (nat \<Rightarrow> nat list) \<Rightarrow> nat set \<Rightarrow> pmm \<Rightarrow> (nat \<Rightarrow> nat list) \<Rightarrow> bool" where
  "reserved_range ops s fl R s' fl' \<longleftrightarrow>
     blocks fl' = blocks fl - (\<lambda>q. (q, 0)) ` {q \<in> R. test_buddy ops s q} \<and>
     (\<forall>q. test_buddy ops s' q \<longleftrightarrow> test_buddy ops s q \<and> q \<notin> R) \<and>
     (\<forall>q. test_reserved ops s' q \<longleftrightarrow> test_reserved ops s q \<or> q \<in> R) \<and>
     page_order s' = page_order s \<and> page_frames_count s' = page_frames_count s \<and>
     total_pages s' = total_pages s \<and> reserved_pages s' = reserved_pages s + of_nat (card R) \<and>
     free_pages s' = free_pages s - of_nat (card {q \<in> R. test_buddy ops s q})"

lemma reserved_range_empty: "reserved_range ops s fl {} s fl"
  by (simp add: reserved_range_def)

lemma reserve_range_loop_ok:
  assumes "flag_ops_ok ops" and "alloc_inv ops {} s fl A"
    and "\<forall>q \<in> frames_in s pfn e. test_buddy ops s q \<longrightarrow> (q, 0) \<in> blocks fl"
  shows "\<exists>s' fl'. reserve_range_loop ops s pfn e = Some s' \<and> alloc_inv ops {} s' fl' A \<and>
    reserved_range ops s fl (frames_in s pfn e) s' fl'"
  using assms(2,3)
proof (induction "e - pfn" arbitrary: pfn s fl)
  case 0
  then have "reserve_range_loop ops s pfn e = Some s" by (subst reserve_range_loop.simps) simp
  with 0 reserved_range_empty [of ops s fl] show ?case by auto
next
  case (Suc m)
  show ?case
  proof (cases "pfn < page_frames_count s")
    case False
    then have "reserve_range_loop ops s pfn e = Some s" by (subst reserve_range_loop.simps) simp
    with False Suc.prems reserved_range_empty [of ops s fl] show ?thesis by auto
  next
    case True
    have pe: "pfn < e" using Suc.hyps(2) by simp
    note step = frames_in_step [OF pe True]
    from reserve_page_ok [OF assms(1) Suc.prems(1), of pfn] Suc.prems(2) step obtain t gl where
      t: "reserve_page ops s pfn = Some t" "alloc_inv ops {} t gl A"
        "blocks gl = (if test_buddy ops s pfn then blocks fl - {(pfn, 0)} else blocks fl)"
        "test_buddy ops t = (test_buddy ops s)(pfn := False)"
        "test_reserved ops t = (test_reserved ops s)(pfn := True)"
        "page_order t = page_order s" "page_frames_count t = page_frames_count s"
        "total_pages t = total_pages s" "reserved_pages t = reserved_pages s + 1"
        "free_pages t = free_pages s - (if test_buddy ops s pfn then 1 else 0)" by auto
    have fr: "frames_in t (Suc pfn) e = frames_in s (Suc pfn) e" using t(7) by (simp add: frames_in_def)
    let ?R = "frames_in s (Suc pfn) e"
    have "\<forall>q \<in> ?R. test_buddy ops t q \<longrightarrow> (q, 0) \<in> blocks gl"
      using Suc.prems(2) t(3,4) step by auto
    moreover have "m = e - Suc pfn" using Suc.hyps(2) by simp
    ultimately obtain s' fl' where IH: "reserve_range_loop ops t (Suc pfn) e = Some s'"
      "alloc_inv ops {} s' fl' A" "reserved_range ops t gl ?R s' fl'"
      using Suc.hyps(1) [of "Suc pfn" t gl] t(2) fr by auto
    have same: "{q \<in> ?R. test_buddy ops t q} = {q \<in> ?R. test_buddy ops s q}" using t(4) by auto
    have "reserved_range ops s fl (frames_in s pfn e) s' fl'"
      using IH(3) t(3-) unfolding reserved_range_def step same
        card_Collect_insert [OF frames_in_facts(1,2)]
      by (cases "test_buddy ops s pfn") (auto simp: card_insert_if)
    moreover have "reserve_range_loop ops s pfn e = Some s'"
      using IH(1) t(1) True pe by (subst reserve_range_loop.simps) simp
    ultimately show ?thesis using IH(2) by blast
  qed
qed

section \<open>Releasing reserved pages\<close>

definition released_range :: "page_flag_ops \<Rightarrow> pmm \<Rightarrow> (nat \<Rightarrow> nat list) \<Rightarrow> nat set \<Rightarrow> pmm \<Rightarrow> (nat \<Rightarrow> nat list) \<Rightarrow> bool" where
  "released_range ops s fl R s' fl' \<longleftrightarrow>
     blocks fl' = (\<lambda>q. (q, 0)) ` {q \<in> R. test_reserved ops s q} \<union> blocks fl \<and>
     (\<forall>q. test_reserved ops s' q \<longleftrightarrow> test_reserved ops s q \<and> q \<notin> R) \<and>
     page_order s' = page_order s \<and> page_frames_count s' = page_frames_count s \<and>
     total_pages s' = total_pages s \<and>
     reserved_pages s' = reserved_pages s - of_nat (card {q \<in> R. test_reserved ops s q}) \<and>
     free_pages s' = free_pages s + of_nat (card {q \<in> R. test_reserved ops s q})"

lemma released_range_empty: "released_range ops s fl {} s fl"
  by (simp add: released_range_def)

lemma free_range_page:
  assumes ops: "flag_ops_ok ops" and inv: "alloc_inv ops {} s fl A" and p: "p < page_frames_count s"
    and new: "p \<notin> pages_of (blocks fl \<union> A)" "page_order s p = 0"
  defines "t \<equiv> set_buddy ops p ((clear_reserved ops p s)\<lparr>reserved_pages := reserved_pages s - 1\<rparr>)"
  shows "\<exists>h. list_add (links s) (Page_list p) (Free_area 0) = Some h \<and>
    alloc_inv ops {} (t\<lparr>links := h, free_pages := free_pages s + 1\<rparr>) (fl(0 := p # fl 0)) A"
proof -
  have "test_buddy ops t = (test_buddy ops s)(p := True)" "page_order t = page_order s"
    "page_frames_count t = page_frames_count s"
    using ops by (simp_all add: t_def range_simps) (simp add: set_buddy_def)
  from add_page_ok [OF inv p new this] show ?thesis
    by (auto simp: alloc_inv_def page_upd_links)
qed

lemma free_range_loop_ok:
  assumes "flag_ops_ok ops" and "alloc_inv ops {} s fl A"
    and "\<forall>q \<in> frames_in s pfn e. test_reserved ops s q \<longrightarrow>
      q \<notin> pages_of (blocks fl \<union> A) \<and> page_order s q = 0"
  shows "\<exists>s' fl'. free_range_loop ops s pfn e = Some s' \<and> alloc_inv ops {} s' fl' A \<and>
    released_range ops s fl (frames_in s pfn e) s' fl'"
  using assms(2,3)
proof (induction "e - pfn" arbitrary: pfn s fl)
  case 0
  then have "free_range_loop ops s pfn e = Some s" by (subst free_range_loop.simps) simp
  with 0 released_range_empty [of ops s fl] show ?case by auto
next
  case (Suc m)
  have pe: "pfn < e" and m: "m = e - Suc pfn" using Suc.hyps(2) by simp_all
  let ?R = "frames_in s (Suc pfn) e"
  consider "\<not> pfn < page_frames_count s" | "pfn < page_frames_count s" "\<not> test_reserved ops s pfn"
    | "pfn < page_frames_count s" "test_reserved ops s pfn" by blast
  then show ?case
  proof cases
    case 1
    then have "free_range_loop ops s pfn e = Some s" by (subst free_range_loop.simps) simp
    with 1 Suc.prems released_range_empty [of ops s fl] show ?thesis by auto
  next
    case 2
    note step = frames_in_step [OF pe 2(1)]
    from Suc.hyps(1) [OF m Suc.prems(1)] Suc.prems(2) step obtain s' fl' where IH:
      "free_range_loop ops s (Suc pfn) e = Some s'" "alloc_inv ops {} s' fl' A"
      "released_range ops s fl ?R s' fl'" by auto
    have "{q \<in> frames_in s pfn e. test_reserved ops s q} = {q \<in> ?R. test_reserved ops s q}"
      using step 2(2) by auto
    with IH(3) 2(2) have "released_range ops s fl (frames_in s pfn e) s' fl'"
      unfolding released_range_def by (auto simp: step)
    moreover have "free_range_loop ops s pfn e = Some s'"
      using IH(1) 2 pe by (subst free_range_loop.simps) (simp add: test_reserved_def)
    ultimately show ?thesis using IH(2) by blast
  next
    case 3
    note step = frames_in_step [OF pe 3(1)]
    define t0 where "t0 = set_buddy ops pfn
      ((clear_reserved ops pfn s)\<lparr>reserved_pages := reserved_pages s - 1\<rparr>)"
    let ?fl = "fl(0 := pfn # fl 0)"
    from free_range_page [OF assms(1) Suc.prems(1) 3(1)] Suc.prems(2) 3(2) step obtain h where
      h: "list_add (links s) (Page_list pfn) (Free_area 0) = Some h"
        "alloc_inv ops {} (t0\<lparr>links := h, free_pages := free_pages s + 1\<rparr>) ?fl A"
      unfolding t0_def by auto
    define t where "t = t0\<lparr>links := h, free_pages := free_pages s + 1\<rparr>"
    have t: "page_order t = page_order s" "page_frames_count t = page_frames_count s"
      "total_pages t = total_pages s" "reserved_pages t = reserved_pages s - 1"
      "free_pages t = free_pages s + 1" "test_reserved ops t = (test_reserved ops s)(pfn := False)"
      using assms(1) by (simp_all add: t_def t0_def range_simps) (simp_all add: set_buddy_def)
    have R: "frames_in t (Suc pfn) e = ?R" using t(2) by (simp add: frames_in_def)
    have "\<forall>q \<in> ?R. test_reserved ops t q \<longrightarrow> q \<notin> pages_of (blocks ?fl \<union> A) \<and> page_order t q = 0"
      using Suc.prems(2) step t by (auto simp: blocks_add pages_of_insert blk_iff)
    then obtain s' fl' where IH: "free_range_loop ops t (Suc pfn) e = Some s'"
      "alloc_inv ops {} s' fl' A" "released_range ops t ?fl ?R s' fl'"
      using Suc.hyps(1) [OF m, of t ?fl] h(2) R unfolding t_def [symmetric] by auto
    have same: "{q \<in> ?R. test_reserved ops t q} = {q \<in> ?R. test_reserved ops s q}" using t(6) by auto
    have "released_range ops s fl (frames_in s pfn e) s' fl'"
      using IH(3) t 3(2) unfolding released_range_def step same
        card_Collect_insert [OF frames_in_facts(1,2)]
      by (auto simp: blocks_add)
    moreover have "free_range_loop ops s pfn e = Some s'"
      using IH(1) h(1) 3 pe
      by (subst free_range_loop.simps) (simp add: test_reserved_def Let_def t_def t0_def set_buddy_def)
    ultimately show ?thesis using IH(2) by blast
  qed
qed

end
