(* ===== verification/Pmm_Boot.thy ===== *)
theory Pmm_Boot
  imports Pmm_Ranges
begin

text \<open>
  The boot path \<^verbatim>\<open>pmm_init\<close> establishes the invariant of the physical memory manager, and every
  sequence of allocations and releases that follows keeps it. The claims about
  \<^verbatim>\<open>kernel/mm/pmm.c\<close> are stated here.
\<close>

section \<open>Initialisation\<close>

text \<open>The static counters of the module before \<^verbatim>\<open>pmm_init\<close> runs.\<close>

definition static_counters :: "pmm \<Rightarrow> bool" where
  "static_counters s \<longleftrightarrow> total_pages s = 0 \<and> free_pages s = 0 \<and> reserved_pages s = 0"

lemma self_loops_lists_at:
  "(\<And>a. a \<in> H \<Longrightarrow> nxt h a = Some a \<and> prv h a = Some a) \<Longrightarrow> lists_at h H (\<lambda>_. [])"
  by (auto simp: lists_at_def dll_def link_def)

lemma fold_list_init:
  "nxt (fold (\<lambda>j h. list_init h (f j)) js h) a = (if a \<in> f ` set js then Some a else nxt h a)"
  "prv (fold (\<lambda>j h. list_init h (f j)) js h) a = (if a \<in> f ` set js then Some a else prv h a)"
  by (induction js arbitrary: h) (auto simp: list_init_def)

lemma area_map_Nil: "area_map (\<lambda>_. []) = (\<lambda>_. [])"
  by (auto simp: area_map_def fun_eq_iff split: page_addr.splits)

lemma blocks_Nil [simp]: "blocks (\<lambda>_. []) = {}"
  by (simp add: blocks_def)

lemma init_zones_lists: "free_lists (links (init_zones s)) (\<lambda>_. [])"
proof -
  have "Free_area k \<in> Free_area ` set [0..<11]" if "k \<le> 10" for k
    using that by auto
  then show ?thesis
    unfolding free_lists_def area_map_Nil
    by (intro self_loops_lists_at)
      (auto simp: areas_def init_zones_def Let_def fold_list_init simp del: set_upt)
qed

definition clear_page :: page where
  "clear_page = \<lparr>pg_flags = 0, pg_count = 0, pg_mapcount = 0, pg_order = 0, pg_mapping = None,
     pg_index = 0, pg_virtual = None, pg_private = None\<rparr>"

lemma fold_init_page:
  "page_frames (fold init_page is s) = (\<lambda>q. if q \<in> set is then clear_page else page_frames s q)"
  "page_frames_count (fold init_page is s) = page_frames_count s"
  "static_counters (fold init_page is s) = static_counters s"
  "nxt (links (fold init_page is s)) (Free_area k) = nxt (links s) (Free_area k)"
  "prv (links (fold init_page is s)) (Free_area k) = prv (links s) (Free_area k)"
  by (induction "is" arbitrary: s)
    (auto simp: init_page_def clear_page_def list_init_def static_counters_def fun_eq_iff)

lemma fold_init_page_lists:
  assumes "free_lists (links s) (\<lambda>_. [])"
  shows "free_lists (links (fold init_page is s)) (\<lambda>_. [])"
proof -
  have "nxt (links s) a = Some a \<and> prv (links s) a = Some a" if "a \<in> areas" for a
    using assms that unfolding free_lists_def area_map_Nil
    by (simp add: lists_at_def dll_def link_def)
  then show ?thesis
    unfolding free_lists_def area_map_Nil
    by (intro self_loops_lists_at) (auto simp: areas_def fold_init_page)
qed

lemma flags_clear:
  "flag_ops_ok ops \<Longrightarrow> pg_flags (page_frames s q) = 0 \<Longrightarrow> \<not> test_buddy ops s q"
  by (simp add: test_buddy_def flag_ops_ok_def)

text \<open>The frame array as \<^verbatim>\<open>pmm_init\<close> leaves it before it walks the memory map.\<close>

definition frames_clear :: "pmm \<Rightarrow> bool" where
  "frames_clear s \<longleftrightarrow> free_lists (links s) (\<lambda>_. []) \<and> static_counters s \<and>
     (\<forall>q < page_frames_count s. page_frames s q = clear_page)"

lemma frames_clear_inv:
  assumes "flag_ops_ok ops" and "frames_clear s"
  shows "alloc_inv ops {} s (\<lambda>_. []) {}" and "q < page_frames_count s \<Longrightarrow> \<not> test_buddy ops s q"
    and "q < page_frames_count s \<Longrightarrow> page_order s q = 0"
proof -
  have clear: "\<not> test_buddy ops s q" "page_order s q = 0" if "q < page_frames_count s" for q
    using that assms flags_clear [of ops s q]
    by (simp_all add: frames_clear_def clear_page_def page_order_def)
  then show "q < page_frames_count s \<Longrightarrow> \<not> test_buddy ops s q"
    "q < page_frames_count s \<Longrightarrow> page_order s q = 0" by blast+
  show "alloc_inv ops {} s (\<lambda>_. []) {}"
    using assms(2) clear by (simp add: alloc_inv_def binv_def frames_clear_def pool_def)
qed

lemma boot_entries:
  "map (\<lambda>e. (mm_type e = MEMORY_MAP_AVAILABLE, entry_start e, entry_end e)) boot_memory_map =
     [(False, 0, 256), (True, 256, 8192), (True, 8192, 16384)]"
  by (simp add: boot_memory_map_def entry_start_def entry_end_def PAGE_SIZE_def
      MEMORY_MAP_AVAILABLE_def MEMORY_MAP_RESERVED_def)

lemma boot_frames:
  "unat (ucast (available_memory boot_memory_map div of_nat PAGE_SIZE) :: u32) = 16128"
  by (simp add: boot_memory_map_def available_memory_def PAGE_SIZE_def
      MEMORY_MAP_AVAILABLE_def MEMORY_MAP_RESERVED_def)

lemma init_entries_boot:
  assumes ops: "flag_ops_ok ops" and clear: "frames_clear s" and n: "page_frames_count s = 16128"
  shows "\<exists>s' fl'. init_entries ops boot_memory_map s = Some s' \<and> alloc_inv ops {} s' fl' {} \<and>
    pages_of (blocks fl') = {256..<16128} \<and> page_frames_count s' = 16128 \<and>
    free_pages s' = 15872 \<and> total_pages s' = 15872 \<and> reserved_pages s' = 256"
proof -
  obtain e1 e2 e3 where mm: "boot_memory_map = [e1, e2, e3]"
    and e1: "mm_type e1 \<noteq> MEMORY_MAP_AVAILABLE" "entry_start e1 = 0" "entry_end e1 = 256"
    and e2: "mm_type e2 = MEMORY_MAP_AVAILABLE" "entry_start e2 = 256" "entry_end e2 = 8192"
    and e3: "mm_type e3 = MEMORY_MAP_AVAILABLE" "entry_start e3 = 8192" "entry_end e3 = 16384"
    using boot_entries by auto
  note C = frames_clear_inv [OF ops clear]
  have cnt: "free_pages s = 0" "total_pages s = 0" "reserved_pages s = 0"
    using clear by (simp_all add: frames_clear_def static_counters_def)
  have noflag: "\<forall>q \<in> frames_in s 0 256. \<not> test_buddy ops s q"
    using C(2) n by (simp add: frames_in_def)
  then have none: "{q \<in> frames_in s 0 256. test_buddy ops s q} = {}" by blast
  from reserve_range_loop_ok [OF ops C(1), of 0 256] noflag obtain s1 fl1 where
    s1: "reserve_range_loop ops s 0 256 = Some s1" "alloc_inv ops {} s1 fl1 {}"
      "reserved_range ops s (\<lambda>_. []) (frames_in s 0 256) s1 fl1" by blast
  have f1: "blocks fl1 = {}" "page_order s1 = page_order s" "page_frames_count s1 = 16128"
    "free_pages s1 = 0" "total_pages s1 = 0" "reserved_pages s1 = 256"
    using s1(3) unfolding reserved_range_def none by (simp_all add: n cnt frames_in_def)
  have "\<forall>q. 256 \<le> q \<and> q < 8192 \<and> q < page_frames_count s1 \<longrightarrow>
      q \<notin> pages_of (blocks fl1 \<union> {}) \<and> page_order s1 q = 0"
    using C(3) by (simp add: f1 n pages_of_def)
  from init_memmap_loop_ok [OF ops s1(2) this] obtain s2 fl2 where
    s2: "init_memmap_loop ops s1 256 8192 = Some s2" "alloc_inv ops {} s2 fl2 {}"
      "pages_of (blocks fl2) = {256..<8192}" "page_order s2 = page_order s"
      "page_frames_count s2 = 16128" "free_pages s2 = 7936" "total_pages s2 = 7936"
      "reserved_pages s2 = 256"
    unfolding f1 by (auto simp: pages_of_def)
  have "\<forall>q. 8192 \<le> q \<and> q < 16384 \<and> q < page_frames_count s2 \<longrightarrow>
      q \<notin> pages_of (blocks fl2 \<union> {}) \<and> page_order s2 q = 0"
    using C(3) s2(3) by (simp add: s2(4,5) n)
  from init_memmap_loop_ok [OF ops s2(2) this] obtain s3 fl3 where
    s3: "init_memmap_loop ops s2 8192 16384 = Some s3" "alloc_inv ops {} s3 fl3 {}"
      "pages_of (blocks fl3) = {8192..<16128} \<union> {256..<8192}" "page_frames_count s3 = 16128"
      "free_pages s3 = 15872" "total_pages s3 = 15872" "reserved_pages s3 = 256"
    unfolding s2 by auto
  moreover have "{8192..<16128} \<union> {256..<8192} = {256..<16128 :: nat}" by auto
  moreover have "init_entries ops boot_memory_map s = Some s3"
    using s1(1) s2(1) s3(1) e1 e2 e3
    by (simp add: mm pmm_reserve_range_def pmm_init_memmap_def)
  ultimately show ?thesis by metis
qed

lemma pmm_init_ok:
  assumes "flag_ops_ok ops" and "static_counters s"
  shows "\<exists>s'. pmm_init ops True True s = Some s' \<and> pmm_inv ops s' {} \<and>
    pages_of (free_blocks s') = {256..<16128} \<and> page_frames_count s' = 16128 \<and>
    free_pages s' = 15872 \<and> total_pages s' = 15872 \<and> reserved_pages s' = 256"
proof -
  let ?s3 = "(init_zones s)\<lparr>memory_map := boot_memory_map, page_frames_count := 16128\<rparr>"
  let ?s4 = "fold init_page [0..<16128] ?s3"
  have "free_lists (links ?s3) (\<lambda>_. [])" using init_zones_lists [of s] by simp
  moreover have "static_counters ?s3" using assms(2) by (simp add: static_counters_def init_zones_def Let_def)
  ultimately have "frames_clear ?s4" "page_frames_count ?s4 = 16128"
    using fold_init_page_lists [of ?s3 "[0..<16128]"]
    by (simp_all add: frames_clear_def fold_init_page)
  from init_entries_boot [OF assms(1) this] obtain s' fl' where
    s': "init_entries ops boot_memory_map ?s4 = Some s'" "alloc_inv ops {} s' fl' {}"
      "pages_of (blocks fl') = {256..<16128}" "page_frames_count s' = 16128"
      "free_pages s' = 15872" "total_pages s' = 15872" "reserved_pages s' = 256" by blast
  have "pmm_init ops True True s = Some s'"
    using s'(1) by (simp add: pmm_init_def boot_frames Let_def)
  with s' alloc_inv_free_list [OF s'(2)] show ?thesis by (auto simp: pmm_inv_def)
qed

section \<open>Every run of the allocator\<close>

text \<open>
  A state of the kernel's use of the manager: the manager and the blocks its clients hold. A
  client asks for a block of any order and gives back a block it holds.
\<close>

inductive pmm_step :: "page_flag_ops \<Rightarrow> pmm \<times> (nat \<times> nat) set \<Rightarrow> pmm \<times> (nat \<times> nat) set \<Rightarrow> bool"
  for ops :: page_flag_ops where
  got: "pmm_alloc_pages ops s order = Some (s', Some p) \<Longrightarrow>
    pmm_step ops (s, A) (s', insert (p, order) A)"
| refused: "pmm_alloc_pages ops s order = Some (s', None) \<Longrightarrow> pmm_step ops (s, A) (s', A)"
| released: "(p, k) \<in> A \<Longrightarrow> pmm_free_pages ops s (Some p) k = Some s' \<Longrightarrow>
    pmm_step ops (s, A) (s', A - {(p, k)})"

inductive pmm_reach :: "page_flag_ops \<Rightarrow> pmm \<times> (nat \<times> nat) set \<Rightarrow> bool"
  for ops :: page_flag_ops where
  boot: "static_counters s0 \<Longrightarrow> pmm_init ops True True s0 = Some s \<Longrightarrow> pmm_reach ops (s, {})"
| step: "pmm_reach ops x \<Longrightarrow> pmm_step ops x y \<Longrightarrow> pmm_reach ops y"

inductive_cases pmm_stepE: "pmm_step ops (s, A) y"

definition run_inv :: "page_flag_ops \<Rightarrow> pmm \<times> (nat \<times> nat) set \<Rightarrow> bool" where
  "run_inv ops x \<longleftrightarrow> pmm_inv ops (fst x) (snd x) \<and>
     pages_of (free_blocks (fst x)) \<union> pages_of (snd x) = {256..<16128} \<and>
     total_pages (fst x) = 15872 \<and> reserved_pages (fst x) = 256"

lemma alloc_above_max: "order > 10 \<Longrightarrow> pmm_alloc_pages ops s order = Some (s, None)"
  by (simp add: pmm_alloc_pages_def)

lemma alloc_refused_same:
  "flag_ops_ok ops \<Longrightarrow> pmm_inv ops s A \<Longrightarrow> pmm_alloc_pages ops s order = Some (s', None) \<Longrightarrow> s' = s"
  using pmm_alloc_pages_cases [of ops s A order] alloc_above_max [of order ops s]
  by (cases "order \<le> 10") auto

lemma alloc_got:
  assumes "flag_ops_ok ops" and "pmm_inv ops s A" and "pmm_alloc_pages ops s order = Some (s', Some p)"
  shows "order \<le> 10" and "(p, order) \<notin> A" and "pmm_inv ops s' (insert (p, order) A)"
    and "pages_of (free_blocks s) = blk (p, order) \<union> pages_of (free_blocks s')"
    and "free_pages s' = free_pages s - of_nat (2 ^ order)"
    and "same_counters s (s'\<lparr>free_pages := free_pages s\<rparr>)"
proof -
  show o: "order \<le> 10" using alloc_above_max [of order ops s] assms(3) by force
  show "(p, order) \<notin> A" "pmm_inv ops s' (insert (p, order) A)"
    "pages_of (free_blocks s) = blk (p, order) \<union> pages_of (free_blocks s')"
    "free_pages s' = free_pages s - of_nat (2 ^ order)"
    "same_counters s (s'\<lparr>free_pages := free_pages s\<rparr>)"
    using pmm_alloc_pages_cases [OF assms(1,2) o] assms(3) by auto
qed

lemma run_inv_step:
  assumes ops: "flag_ops_ok ops" and inv: "run_inv ops x" and "pmm_step ops x y"
  shows "run_inv ops y"
proof (cases x)
  case (Pair s A)
  with inv have I: "pmm_inv ops s A" "pages_of (free_blocks s) \<union> pages_of A = {256..<16128}"
    "total_pages s = 15872" "reserved_pages s = 256" by (simp_all add: run_inv_def)
  from assms(3) [unfolded Pair] show ?thesis
  proof (rule pmm_stepE)
    fix order s' p
    assume y: "y = (s', insert (p, order) A)" and got: "pmm_alloc_pages ops s order = Some (s', Some p)"
    note G = alloc_got [OF ops I(1) got]
    have "total_pages s' = total_pages s" "reserved_pages s' = reserved_pages s"
      using same_counters_simps(3,4) [OF G(6)] by simp_all
    with I G(3,4) y show ?thesis by (auto simp: run_inv_def pages_of_insert)
  next
    fix order s'
    assume y: "y = (s', A)" and refused: "pmm_alloc_pages ops s order = Some (s', None)"
    from alloc_refused_same [OF ops I(1) refused] y I show ?thesis by (simp add: run_inv_def)
  next
    fix p k s'
    assume y: "y = (s', A - {(p, k)})" and held: "(p, k) \<in> A"
      and released: "pmm_free_pages ops s (Some p) k = Some s'"
    then have A: "insert (p, k) (A - {(p, k)}) = A" by auto
    from pmm_free_pages_ok [OF ops, of s p k "A - {(p, k)}"] I(1) released obtain
      F: "pmm_inv ops s' (A - {(p, k)})"
        "pages_of (free_blocks s') = blk (p, k) \<union> pages_of (free_blocks s)"
        "same_counters s (s'\<lparr>free_pages := free_pages s\<rparr>)" unfolding A by auto
    have "pages_of A = blk (p, k) \<union> pages_of (A - {(p, k)})"
      using pages_of_insert [of "(p, k)" "A - {(p, k)}"] A by simp
    with I F(1,2) same_counters_simps(3,4) [OF F(3)] y show ?thesis
      by (auto simp: run_inv_def)
  qed
qed

lemma pmm_reach_inv: "pmm_reach ops x \<Longrightarrow> flag_ops_ok ops \<Longrightarrow> run_inv ops x"
proof (induction rule: pmm_reach.induct)
  case (boot s0 s)
  from pmm_init_ok [OF boot(3,1)] boot(2) show ?case by (auto simp: run_inv_def pages_of_def)
qed (blast intro: run_inv_step)

end
