(* ===== verification/Pmm_Props.thy ===== *)
theory Pmm_Props
  imports Pmm_Boot
begin

text \<open>
  The claims about the physical memory manager \<^verbatim>\<open>kernel/mm/pmm.c\<close>. \<open>bit_ops\<close> is the bitwise
  reading of the three flag operations the repository declares without defining; it is only used
  to evaluate concrete runs.
\<close>

section \<open>Concrete states\<close>

definition bit_ops :: page_flag_ops where
  "bit_ops = \<lparr>page_set_flags = (\<lambda>fl m. fl OR m), page_clear_flags = (\<lambda>fl m. fl AND NOT m),
     page_test_flags = (\<lambda>fl m. fl AND m \<noteq> 0)\<rparr>"

definition zero_pmm :: pmm where
  "zero_pmm = \<lparr>memory_map = [], zones = (\<lambda>_. zero_zone), node_zones = (\<lambda>_. zero_zone),
     page_frames = (\<lambda>_. clear_page), page_frames_count = 0,
     links = \<lparr>nxt = (\<lambda>_. None), prv = (\<lambda>_. None)\<rparr>,
     total_pages = 0, free_pages = 0, reserved_pages = 0\<rparr>"

definition booted :: pmm where
  "booted = the (pmm_init bit_ops True True zero_pmm)"

lemma bit_ops_ok: "flag_ops_ok bit_ops"
  by (simp add: flag_ops_ok_def bit_ops_def)

lemma zero_counters: "static_counters zero_pmm"
  by (simp add: static_counters_def zero_pmm_def)

lemma booted_ok:
  "pmm_init bit_ops True True zero_pmm = Some booted" "pmm_inv bit_ops booted {}"
  "pages_of (free_blocks booted) = {256..<16128}" "page_frames_count booted = 16128"
proof -
  from pmm_init_ok [OF bit_ops_ok zero_counters] obtain s where
    s: "pmm_init bit_ops True True zero_pmm = Some s" "pmm_inv bit_ops s {}"
      "pages_of (free_blocks s) = {256..<16128}" "page_frames_count s = 16128" by blast
  then have "booted = s" by (simp only: booted_def option.sel)
  with s show "pmm_init bit_ops True True zero_pmm = Some booted" "pmm_inv bit_ops booted {}"
    "pages_of (free_blocks booted) = {256..<16128}" "page_frames_count booted = 16128"
    by (simp_all only:)
qed

text \<open>From boot, a request for one page succeeds; \<open>first_alloc\<close> is the state after it.\<close>

definition first_alloc :: "pmm \<times> nat" where
  "first_alloc = (case pmm_alloc_pages bit_ops booted 0 of Some (s, Some p) \<Rightarrow> (s, p) | _ \<Rightarrow> (booted, 0))"

lemma first_alloc_ok:
  "pmm_alloc_pages bit_ops booted 0 = Some (fst first_alloc, Some (snd first_alloc))"
proof -
  have "256 \<in> pages_of (free_blocks booted)" by (simp add: booted_ok(3))
  then obtain p k where "(p, k) \<in> free_blocks booted" by (auto simp: pages_of_def)
  with pmm_alloc_pages_cases [OF bit_ops_ok booted_ok(2), of 0] show ?thesis
    by (auto simp: first_alloc_def)
qed

lemma first_alloc_inv: "pmm_inv bit_ops (fst first_alloc) {(snd first_alloc, 0)}"
  using alloc_got(3) [OF bit_ops_ok booted_ok(2) first_alloc_ok] .

section \<open>Boot and runs\<close>

text \<open>
  C1. Booting on the built-in memory map succeeds whatever the memory held before: the manager's
  invariant holds with no page handed out, the free pages are exactly the frames 256 to 16127,
  and the counters report 15872 free, 15872 total, 256 reserved and 0 used pages.
\<close>

theorem pmm_boot_correct:
  assumes "flag_ops_ok ops" and "static_counters s"
  shows "\<exists>s'. pmm_init ops True True s = Some s' \<and> pmm_inv ops s' {} \<and>
    pages_of (free_blocks s') = {256..<16128} \<and>
    pmm_get_free_pages s' = 15872 \<and> pmm_get_total_pages s' = 15872 \<and>
    pmm_get_reserved_pages s' = 256 \<and> pmm_get_used_pages s' = 0"
proof -
  from pmm_init_ok [OF assms] obtain s' where "pmm_init ops True True s = Some s'" "pmm_inv ops s' {}"
    "pages_of (free_blocks s') = {256..<16128}" "free_pages s' = 15872" "total_pages s' = 15872"
    "reserved_pages s' = 256" by blast
  then show ?thesis
    by (intro exI [of _ s'])
      (simp add: pmm_get_free_pages_def pmm_get_total_pages_def pmm_get_reserved_pages_def
        pmm_get_used_pages_def)
qed

theorem pmm_boot_correct_witness:
  "\<exists>s'. pmm_init bit_ops True True zero_pmm = Some s' \<and> pmm_inv bit_ops s' {} \<and>
    pages_of (free_blocks s') = {256..<16128} \<and>
    pmm_get_free_pages s' = 15872 \<and> pmm_get_total_pages s' = 15872 \<and>
    pmm_get_reserved_pages s' = 256 \<and> pmm_get_used_pages s' = 0"
  by (rule pmm_boot_correct [OF bit_ops_ok zero_counters])

lemma card_pages_total:
  assumes "pool n (F \<union> A)" and "F \<inter> A = {}"
  shows "card (pages_of (F \<union> A)) = card (pages_of F) + (\<Sum>x\<in>A. 2 ^ snd x)"
proof -
  have "pool n A" "pool n F" using pool_subset [OF assms(1)] by auto
  with assms show ?thesis
    by (simp add: card_pages_of [OF assms(1)] card_pages_of [of n F] sum.union_disjoint pool_finite)
qed

lemma pool_pages_disjoint:
  assumes "pool n (F \<union> A)" and "F \<inter> A = {}"
  shows "pages_of F \<inter> pages_of A = {}"
proof -
  have "blk x \<inter> blk y = {}" if "x \<in> F" "y \<in> A" for x y
  proof -
    have "x \<noteq> y" using that assms(2) by blast
    with that assms(1) show ?thesis unfolding pool_def by blast
  qed
  then show ?thesis unfolding pages_of_def by blast
qed

text \<open>
  C2. After any sequence of allocations (granted or refused) and releases that starts at boot, no
  page is lost and none is owned twice: free pages and held blocks partition the frames 256 to
  16127, any two held blocks are disjoint, the free-page counter plus the pages held is always
  15872, and the next operation, whatever the order requested or the held block released,
  returns (no list operation follows a null pointer and no index leaves the frame array).
\<close>

theorem pmm_run_safe:
  assumes "flag_ops_ok ops" and "pmm_reach ops (s, A)"
  shows "pages_of (free_blocks s) \<union> pages_of A = {256..<16128} \<and>
    pages_of (free_blocks s) \<inter> pages_of A = {} \<and>
    (\<forall>x\<in>A. \<forall>y\<in>A. x \<noteq> y \<longrightarrow> blk x \<inter> blk y = {}) \<and>
    unat (pmm_get_free_pages s) + (\<Sum>x\<in>A. 2 ^ snd x) = 15872 \<and>
    (\<forall>order. pmm_alloc_pages ops s order \<noteq> None) \<and>
    (\<forall>(p, k)\<in>A. pmm_free_pages ops s (Some p) k \<noteq> None)"
proof -
  from pmm_reach_inv [OF assms(2,1)] have inv: "pmm_inv ops s A"
    and pg: "pages_of (free_blocks s) \<union> pages_of A = {256..<16128}" by (auto simp: run_inv_def)
  note pl = pmm_inv_pool [OF inv] and dj = pmm_inv_disjoint [OF inv]
  have sum: "card (pages_of (free_blocks s)) + (\<Sum>x\<in>A. 2 ^ snd x) = 15872"
    using card_pages_total [OF pl dj] pg by (simp add: pages_of_Un)
  then have "card (pages_of (free_blocks s)) \<le> 15872" by linarith
  then have "unat (pmm_get_free_pages s) = card (pages_of (free_blocks s))"
    using inv by (simp add: pmm_inv_def pmm_get_free_pages_def unsigned_ucast_eq unsigned_of_nat
        take_bit_nat_eq_self unat_of_nat)
  moreover have "pmm_alloc_pages ops s order \<noteq> None" for order
    using pmm_alloc_pages_cases [OF assms(1) inv, of order] alloc_above_max [of order ops s]
    by (cases "order \<le> 10") auto
  moreover have "pmm_free_pages ops s (Some p) k \<noteq> None" if "(p, k) \<in> A" for p k
    using pmm_free_pages_ok [OF assms(1), of s p k "A - {(p, k)}"] that inv
    by (auto simp: insert_absorb)
  ultimately show ?thesis
    using pg sum pool_pages_disjoint [OF pl dj] pl by (auto simp: pool_def)
qed

theorem pmm_run_safe_witness:
  "pages_of (free_blocks (fst first_alloc)) \<union> pages_of {(snd first_alloc, 0)} = {256..<16128} \<and>
   unat (pmm_get_free_pages (fst first_alloc)) + (\<Sum>x\<in>{(snd first_alloc, 0)}. 2 ^ snd x) = 15872 \<and>
   pmm_free_pages bit_ops (fst first_alloc) (Some (snd first_alloc)) 0 \<noteq> None"
proof -
  have "pmm_reach bit_ops (booted, {})" by (rule pmm_reach.boot [OF zero_counters booted_ok(1)])
  then have "pmm_reach bit_ops (fst first_alloc, {(snd first_alloc, 0)})"
    by (rule pmm_reach.step) (rule pmm_step.got [OF first_alloc_ok])
  from pmm_run_safe [OF bit_ops_ok this] show ?thesis by auto
qed

section \<open>Allocation and release\<close>

text \<open>
  C3. A request for a block of order at most 10 always returns. It returns NULL, with the state
  unchanged, only if no free block is large enough; otherwise it returns a block aligned to its
  size, all of whose pages were free and are free no more, the counter drops by its size, and
  the manager's invariant holds with the block among the held ones.
\<close>

theorem pmm_alloc_pages_correct:
  assumes "flag_ops_ok ops" and "pmm_inv ops s A" and "order \<le> 10"
  shows "\<exists>s' r. pmm_alloc_pages ops s order = Some (s', r) \<and>
    (case r of
       None \<Rightarrow> s' = s \<and> (\<forall>p k. order \<le> k \<longrightarrow> (p, k) \<notin> free_blocks s)
     | Some p \<Rightarrow> 2 ^ order dvd p \<and> p + 2 ^ order \<le> page_frames_count s \<and>
         blk (p, order) \<subseteq> pages_of (free_blocks s) \<and>
         pages_of (free_blocks s') = pages_of (free_blocks s) - blk (p, order) \<and>
         free_pages s' = free_pages s - 2 ^ order \<and> (p, order) \<notin> A \<and>
         pmm_inv ops s' (insert (p, order) A))"
  using pmm_alloc_pages_cases [OF assms]
proof (elim disjE exE conjE)
  assume "pmm_alloc_pages ops s order = Some (s, None)" "\<forall>p k. order \<le> k \<longrightarrow> (p, k) \<notin> free_blocks s"
  then show ?thesis by auto
next
  fix s' p
  assume a: "pmm_alloc_pages ops s order = Some (s', Some p)"
  note G = alloc_got [OF assms(1,2) a]
  have n: "page_frames_count s' = page_frames_count s" using same_counters_simps(1) [OF G(6)] by simp
  have "blk_ok (page_frames_count s') (p, order)"
    using pmm_inv_pool [OF G(3)] by (rule pool_okD) simp
  moreover have "blk (p, order) \<inter> pages_of (free_blocks s') = {}"
    using pool_pages_disjoint [OF pmm_inv_pool [OF G(3)] pmm_inv_disjoint [OF G(3)]]
    by (auto simp: pages_of_insert)
  ultimately show ?thesis using a G n by (auto simp: blk_ok_def)
qed

theorem pmm_alloc_pages_correct_witness:
  "blk (snd first_alloc, 0) \<subseteq> {256..<16128} \<and>
   pages_of (free_blocks (fst first_alloc)) = {256..<16128} - blk (snd first_alloc, 0) \<and>
   free_pages (fst first_alloc) = free_pages booted - 2 ^ 0 \<and>
   pmm_inv bit_ops (fst first_alloc) {(snd first_alloc, 0)}"
  using pmm_alloc_pages_correct [OF bit_ops_ok booted_ok(2), of 0] first_alloc_ok
  by (simp add: booted_ok(3))

text \<open>
  C4. Releasing a block that is held always returns: all its pages, and no others, become free
  (merging with free buddies moves no page in or out), the counter grows by its size, and the
  invariant holds with the block no longer held.
\<close>

theorem pmm_free_pages_correct:
  assumes "flag_ops_ok ops" and "pmm_inv ops s A" and "(p, k) \<in> A"
  shows "\<exists>s'. pmm_free_pages ops s (Some p) k = Some s' \<and>
    pages_of (free_blocks s') = pages_of (free_blocks s) \<union> blk (p, k) \<and>
    blk (p, k) \<inter> pages_of (free_blocks s) = {} \<and>
    free_pages s' = free_pages s + 2 ^ k \<and> page_frames_count s' = page_frames_count s \<and>
    pmm_inv ops s' (A - {(p, k)})"
proof -
  have A: "insert (p, k) (A - {(p, k)}) = A" using assms(3) by auto
  from pmm_free_pages_ok [OF assms(1), of s p k "A - {(p, k)}"] assms(2) obtain s' where
    s': "pmm_free_pages ops s (Some p) k = Some s'" "pmm_inv ops s' (A - {(p, k)})"
      "pages_of (free_blocks s') = blk (p, k) \<union> pages_of (free_blocks s)"
      "free_pages s' = free_pages s + of_nat (2 ^ k)"
      "same_counters s (s'\<lparr>free_pages := free_pages s\<rparr>)" unfolding A by blast
  have "pages_of (free_blocks s) \<inter> pages_of A = {}"
    by (rule pool_pages_disjoint [OF pmm_inv_pool [OF assms(2)] pmm_inv_disjoint [OF assms(2)]])
  then have "blk (p, k) \<inter> pages_of (free_blocks s) = {}"
    using assms(3) unfolding pages_of_def by blast
  with s' same_counters_simps(1) [OF s'(5)] show ?thesis by (intro exI [of _ s']) auto
qed

theorem pmm_free_pages_correct_witness:
  "\<exists>s'. pmm_free_pages bit_ops (fst first_alloc) (Some (snd first_alloc)) 0 = Some s' \<and>
    free_pages s' = free_pages (fst first_alloc) + 2 ^ 0 \<and> pmm_inv bit_ops s' {}"
  using pmm_free_pages_correct [OF bit_ops_ok first_alloc_inv, of "snd first_alloc" 0] by auto

section \<open>Addresses\<close>

lemma unat_page_offset:
  "p < 2 ^ 20 \<Longrightarrow> unat (of_nat p * of_nat PAGE_SIZE :: u32) = p * 4096"
proof -
  assume "p < 2 ^ 20"
  moreover have "(of_nat p * of_nat PAGE_SIZE :: u32) = of_nat (p * 4096)" by (simp add: PAGE_SIZE_def)
  ultimately show ?thesis by (simp add: unat_of_nat take_bit_nat_eq_self del: of_nat_mult)
qed

lemma page_to_virt_nonzero:
  assumes "p < 2 ^ 20" and "p \<noteq> 0x40000"
  shows "pmm_page_to_virt (Some p) \<noteq> 0"
proof
  assume "pmm_page_to_virt (Some p) = 0"
  then have "of_nat p * of_nat PAGE_SIZE = (- 0xC0000000 :: u32)"
    by (simp add: pmm_page_to_virt_def pmm_page_to_pfn_def eq_neg_iff_add_eq_0)
  with unat_page_offset [OF assms(1)] have "p * 4096 = unat (- 0xC0000000 :: u32)" by metis
  with assms(2) show False by simp
qed

lemma virt_to_page_to_virt:
  assumes "p < page_frames_count s" and "page_frames_count s \<le> 2 ^ 20" and "p \<noteq> 0x40000"
  shows "pmm_virt_to_page s (pmm_page_to_virt (Some p)) = Some p"
proof -
  have lt: "p < 2 ^ 20" using assms by linarith
  have "unat (of_nat p * of_nat PAGE_SIZE div of_nat PAGE_SIZE :: u32) = p"
    using unat_page_offset [OF lt] by (simp add: unat_div PAGE_SIZE_def)
  moreover have "pmm_page_to_virt (Some p) - 0xC0000000 = of_nat p * of_nat PAGE_SIZE"
    by (simp add: pmm_page_to_virt_def pmm_page_to_pfn_def)
  ultimately show ?thesis
    using assms(1) page_to_virt_nonzero [OF lt assms(3)] by (simp add: pmm_virt_to_page_def Let_def)
qed

text \<open>
  C5. Page addresses: for every frame of an address space of at most 2^20 frames except frame
  0x40000, whose virtual address wraps around to NULL, converting a page to its virtual address
  and back gives the page, and the physical and virtual mappings of its address are inverse to
  each other.
\<close>

theorem pmm_address_roundtrip:
  assumes "p < page_frames_count s" and "page_frames_count s \<le> 2 ^ 20" and "p \<noteq> 0x40000"
  shows "pmm_virt_to_page s (pmm_page_to_virt (Some p)) = Some p \<and>
    pmm_virt_to_phys (pmm_page_to_virt (Some p)) = of_nat p * of_nat PAGE_SIZE \<and>
    pmm_phys_to_virt (of_nat p * of_nat PAGE_SIZE) = pmm_page_to_virt (Some p)"
  using virt_to_page_to_virt [OF assms] page_to_virt_nonzero [of p] assms
  by (simp add: pmm_virt_to_phys_def pmm_phys_to_virt_def)
    (simp add: pmm_page_to_virt_def pmm_page_to_pfn_def)

theorem pmm_address_roundtrip_witness:
  "pmm_virt_to_page booted (pmm_page_to_virt (Some 300)) = Some 300 \<and>
   pmm_page_to_virt (Some 0x40000) = 0"
  using pmm_address_roundtrip [of 300 booted]
  by (simp add: booted_ok(4)) (simp add: pmm_page_to_virt_def pmm_page_to_pfn_def PAGE_SIZE_def)


text \<open>
  One page at a time, through addresses: whenever the allocator serves a single page of a
  machine of at most 2^18 frames, the address it returns is not NULL, and giving that address
  back restores the set of free pages, the counter and the invariant.
\<close>

theorem pmm_page_roundtrip:
  assumes "flag_ops_ok ops" and "pmm_inv ops s A" and "page_frames_count s \<le> 2 ^ 18"
    and "pmm_alloc_page ops s = Some (s', a)" and "a \<noteq> 0"
  shows "\<exists>s''. pmm_free_page ops s' a = Some s'' \<and> pmm_inv ops s'' A \<and>
    pages_of (free_blocks s'') = pages_of (free_blocks s) \<and> free_pages s'' = free_pages s"
proof -
  from assms(4,5) obtain p where p: "pmm_alloc_pages ops s 0 = Some (s', Some p)"
    "a = pmm_page_to_virt (Some p)"
    by (auto simp: pmm_alloc_page_def split: option.splits)
  note G = alloc_got [OF assms(1,2) p(1)]
  have n: "page_frames_count s' = page_frames_count s" using same_counters_simps(1) [OF G(6)] by simp
  have "blk_ok (page_frames_count s') (p, 0)"
    using pmm_inv_pool [OF G(3)] by (rule pool_okD) simp
  then have lt: "p < page_frames_count s'" by (simp add: blk_ok_def)
  then have "pmm_virt_to_page s' a = Some p"
    unfolding p(2) using assms(3) n by (intro virt_to_page_to_virt) auto
  moreover from pmm_free_pages_ok [OF assms(1) G(3,2)] obtain s'' where
    "pmm_free_pages ops s' (Some p) 0 = Some s''" "pmm_inv ops s'' A"
    "pages_of (free_blocks s'') = blk (p, 0) \<union> pages_of (free_blocks s')"
    "free_pages s'' = free_pages s' + of_nat (2 ^ 0)" by blast
  ultimately show ?thesis using assms(5) G(4,5) by (auto simp: pmm_free_page_def)
qed

theorem pmm_page_roundtrip_witness:
  "\<exists>s''. pmm_free_page bit_ops (fst first_alloc) (pmm_page_to_virt (Some (snd first_alloc))) = Some s'' \<and>
    pmm_inv bit_ops s'' {} \<and> pages_of (free_blocks s'') = pages_of (free_blocks booted) \<and>
    free_pages s'' = free_pages booted"
proof (rule pmm_page_roundtrip [OF bit_ops_ok booted_ok(2)])
  have "blk_ok (page_frames_count (fst first_alloc)) (snd first_alloc, 0)"
    using pmm_inv_pool [OF first_alloc_inv] by (rule pool_okD) simp
  moreover have "page_frames_count (fst first_alloc) = 16128"
    using same_counters_simps(1) [OF alloc_got(6) [OF bit_ops_ok booted_ok(2) first_alloc_ok]]
      booted_ok(4) by simp
  ultimately show "pmm_page_to_virt (Some (snd first_alloc)) \<noteq> 0"
    by (intro page_to_virt_nonzero) (auto simp: blk_ok_def)
qed (simp_all add: booted_ok(4) pmm_alloc_page_def first_alloc_ok)

section \<open>Merging\<close>

text \<open>
  Four frames: pages 0 and 1 are held on their own, pages 2 and 3 as a block of order 1. The
  list nodes of held pages are NULL, as \<^verbatim>\<open>list_del\<close> leaves them.
\<close>

definition held_frames :: pmm where
  "held_frames = zero_pmm\<lparr>page_frames_count := 4, links :=
     \<lparr>nxt = (\<lambda>a. case a of Free_area k \<Rightarrow> Some a | _ \<Rightarrow> None),
      prv = (\<lambda>a. case a of Free_area k \<Rightarrow> Some a | _ \<Rightarrow> None)\<rparr>\<rparr>"

definition held_blocks :: "(nat \<times> nat) set" where
  "held_blocks = {(0, 0), (1, 0), (2, 1)}"

fun free_each :: "page_flag_ops \<Rightarrow> (nat \<times> nat) list \<Rightarrow> pmm \<Rightarrow> pmm option" where
  "free_each ops [] s = Some s"
| "free_each ops ((p, k) # ps) s = Option.bind (pmm_free_pages ops s (Some p) k) (free_each ops ps)"

lemmas pmm_eval = pmm_free_pages_def pmm_alloc_pages_def take_block_def free_finish_def flag_defs
  test_buddy_def upd_page_def list_add_def list_del_def list_empty_def pmm_page_to_pfn_def
  bit_ops_def PG_buddy_def PG_reserved_def clear_page_def zero_pmm_def held_frames_def
  free_merge.simps split_block.simps alloc_search.simps Let_def

lemma pmm_invI:
  assumes "alloc_inv ops {} s fl A" and "free_pages s = of_nat (card (pages_of (blocks fl)))"
  shows "pmm_inv ops s A" and "free_blocks s = blocks fl"
  using alloc_inv_free_list [OF assms(1)] assms(2) by (simp_all add: pmm_inv_def)

lemma held_frames_inv: "pmm_inv bit_ops held_frames held_blocks" "free_blocks held_frames = {}"
proof -
  have "free_lists (links held_frames) (\<lambda>_. [])"
    unfolding free_lists_def area_map_Nil
    by (intro self_loops_lists_at) (auto simp: areas_def held_frames_def)
  moreover have "pool 4 held_blocks"
    by (auto simp: pool_def held_blocks_def blk_ok_def blk_def)
  ultimately have "alloc_inv bit_ops {} held_frames (\<lambda>_. []) held_blocks"
    by (simp add: alloc_inv_def binv_def page_order_def test_buddy_def)
      (simp add: held_frames_def zero_pmm_def clear_page_def bit_ops_def)
  from pmm_invI [OF this] show "pmm_inv bit_ops held_frames held_blocks" "free_blocks held_frames = {}"
    by (simp_all add: pages_of_def) (simp_all add: held_frames_def zero_pmm_def)
qed

lemma free_each_ok:
  assumes "flag_ops_ok ops" and "pmm_inv ops s A" and "set xs \<subseteq> A" and "distinct xs"
  shows "\<exists>s'. free_each ops xs s = Some s' \<and> pmm_inv ops s' (A - set xs) \<and>
    pages_of (free_blocks s') = pages_of (free_blocks s) \<union> pages_of (set xs)"
  using assms(2-)
proof (induction xs arbitrary: s A)
  case Nil
  then show ?case by (auto simp: pages_of_def)
next
  case (Cons x xs)
  obtain p k where x: "x = (p, k)" by (cases x)
  have A: "insert (p, k) (A - {(p, k)}) = A" using Cons.prems(2) x by auto
  from pmm_free_pages_ok [OF assms(1), of s p k "A - {(p, k)}"] Cons.prems(1) obtain t where
    t: "pmm_free_pages ops s (Some p) k = Some t" "pmm_inv ops t (A - {(p, k)})"
      "pages_of (free_blocks t) = blk (p, k) \<union> pages_of (free_blocks s)" unfolding A by blast
  from Cons.IH [OF t(2)] Cons.prems(2,3) x obtain s' where
    "free_each ops xs t = Some s'" "pmm_inv ops s' (A - {(p, k)} - set xs)"
    "pages_of (free_blocks s') = pages_of (free_blocks t) \<union> pages_of (set xs)" by auto
  with t x show ?case by (auto simp: pages_of_insert Diff_insert2 [symmetric])
qed

lemma free_upwards:
  "map_option (\<lambda>s. map_option snd (pmm_alloc_pages bit_ops s 2))
     (free_each bit_ops [(0, 0), (1, 0), (2, 1)] held_frames) = Some (Some None)"
  by (simp add: pmm_eval)

lemma free_downwards:
  "map_option (\<lambda>s. map_option snd (pmm_alloc_pages bit_ops s 2))
     (free_each bit_ops [(2, 1), (1, 0), (0, 0)] held_frames) = Some (Some (Some 0))"
  by (simp add: pmm_eval)

text \<open>
  Coalescing depends on the order of release, a defect of \<^verbatim>\<open>pmm_free_pages\<close>: it clears
  \<^verbatim>\<open>PG_buddy\<close> on the buddy even when the buddy is the first page of the merged block, so the
  merged block is never found by a later merge. Four held pages released from the top down end
  up as one block of order 2 and serve a request of that order; released from the bottom up the
  same four pages are all free, and the request is refused.
\<close>

theorem pmm_merge_order_dependent:
  "\<exists>up down t. free_each bit_ops [(0, 0), (1, 0), (2, 1)] held_frames = Some up \<and>
     free_each bit_ops [(2, 1), (1, 0), (0, 0)] held_frames = Some down \<and>
     pages_of (free_blocks up) = {0..<4} \<and> pages_of (free_blocks down) = {0..<4} \<and>
     pmm_alloc_pages bit_ops up 2 = Some (up, None) \<and>
     pmm_alloc_pages bit_ops down 2 = Some (t, Some 0)"
proof -
  have pg: "pages_of {(0, 0), (1, 0), (2, 1)} = {0..<4}" "pages_of {(2, 1), (1, 0), (0, 0)} = {0..<4}"
    by (auto simp: pages_of_def blk_def)
  note fe = free_each_ok [OF bit_ops_ok held_frames_inv(1)]
  from fe [of "[(0, 0), (1, 0), (2, 1)]"] pg obtain up where
    up: "free_each bit_ops [(0, 0), (1, 0), (2, 1)] held_frames = Some up" "pmm_inv bit_ops up {}"
      "pages_of (free_blocks up) = {0..<4}"
    by (auto simp: held_blocks_def held_frames_inv(2) pages_of_def [of "{}"])
  from fe [of "[(2, 1), (1, 0), (0, 0)]"] pg obtain down where
    down: "free_each bit_ops [(2, 1), (1, 0), (0, 0)] held_frames = Some down"
      "pages_of (free_blocks down) = {0..<4}"
    by (auto simp: held_blocks_def held_frames_inv(2) pages_of_def [of "{}"])
  obtain u where u: "pmm_alloc_pages bit_ops up 2 = Some (u, None)"
    using free_upwards up(1) by auto
  obtain t where "pmm_alloc_pages bit_ops down 2 = Some (t, Some 0)"
    using free_downwards down(1) by auto
  with up down u alloc_refused_same [OF bit_ops_ok up(2) u] show ?thesis by auto
qed

section \<open>Reserving and releasing ranges\<close>

lemma free_single_order:
  assumes "pmm_inv ops s A" and "(q, 0) \<in> free_blocks s" and "test_buddy ops s q"
  shows "page_order s q = 0"
proof -
  from assms(1) have ai: "alloc_inv ops {} s (free_list s) A" by (simp add: pmm_inv_def)
  note I = alloc_invD [OF ai]
  have "q < page_frames_count s"
    using pool_okD [OF pmm_inv_pool [OF assms(1)], of "(q, 0)"] assms(2) by (auto simp: blk_ok_def)
  from binvD(4) [OF I(2) this assms(3)] obtain p k where pk: "(p, k) \<in> free_blocks s \<union> A"
    "q \<in> blk (p, k)" "page_order s q < k \<or> q = p \<and> page_order s q = k"
    by (auto simp: settled_def free_blocks_def)
  then have "(p, k) = (q, 0)"
    using assms(2) by (intro pool_disjointD [OF pmm_inv_pool [OF assms(1)], of _ _ q]) auto
  with pk(3) show ?thesis by auto
qed

lemma pages_of_singles: "pages_of ((\<lambda>q. (q, 0)) ` Q) = Q"
  by (auto simp: pages_of_def blk_def)

lemma pages_of_Diff:
  assumes "pool n F" and "B \<subseteq> F"
  shows "pages_of (F - B) = pages_of F - pages_of B"
proof -
  have F: "(F - B) \<union> B = F" using assms(2) by auto
  then have "pages_of (F - B) \<inter> pages_of B = {}"
    using assms(1) by (intro pool_pages_disjoint [of n]) auto
  moreover have "pages_of (F - B) \<union> pages_of B = pages_of F" using F pages_of_Un by metis
  ultimately show ?thesis by blast
qed

text \<open>
  The whole of \<^verbatim>\<open>pmm_reserve_range\<close> on a range in which every page marked as free is a free
  block of its own.
\<close>

lemma pmm_reserve_range_ok:
  assumes ops: "flag_ops_ok ops" and inv: "pmm_inv ops s A" and "a < b"
    and single: "\<forall>q \<in> frames_in s a b. test_buddy ops s q \<longrightarrow> (q, 0) \<in> free_blocks s"
  defines "Q \<equiv> {q \<in> frames_in s a b. test_buddy ops s q}"
  shows "\<exists>s'. pmm_reserve_range ops s a b = Some s' \<and> pmm_inv ops s' A \<and>
    free_blocks s' = free_blocks s - (\<lambda>q. (q, 0)) ` Q \<and>
    pages_of (free_blocks s') = pages_of (free_blocks s) - Q \<and>
    (\<forall>q. test_reserved ops s' q \<longleftrightarrow> test_reserved ops s q \<or> q \<in> frames_in s a b) \<and>
    page_order s' = page_order s \<and> page_frames_count s' = page_frames_count s \<and>
    free_pages s' = free_pages s - of_nat (card Q) \<and>
    reserved_pages s' = reserved_pages s + of_nat (card (frames_in s a b))"
proof -
  have ai: "alloc_inv ops {} s (free_list s) A"
    and cnt: "free_pages s = of_nat (card (pages_of (free_blocks s)))"
    using inv by (auto simp: pmm_inv_def)
  from reserve_range_loop_ok [OF ops ai] single obtain s' fl' where
    s': "reserve_range_loop ops s a b = Some s'" "alloc_inv ops {} s' fl' A"
      "reserved_range ops s (free_list s) (frames_in s a b) s' fl'"
    unfolding free_blocks_def by blast
  note R = s'(3) [unfolded reserved_range_def, folded Q_def free_blocks_def]
  have sub: "(\<lambda>q. (q, 0)) ` Q \<subseteq> free_blocks s" using single by (auto simp: Q_def)
  have pl: "pool (page_frames_count s) (free_blocks s)"
    using pmm_inv_pool [OF inv] by (rule pool_subset) auto
  have pgs: "pages_of (blocks fl') = pages_of (free_blocks s) - Q"
    using R pages_of_Diff [OF pl sub] by (simp add: pages_of_singles)
  have fin: "finite Q" by (simp add: Q_def)
  have QF: "Q \<subseteq> pages_of (free_blocks s)"
  proof -
    have "pages_of ((\<lambda>q. (q, 0)) ` Q) \<subseteq> pages_of (free_blocks s)"
      unfolding pages_of_def using sub by (rule UN_mono) simp
    then show ?thesis by (simp only: pages_of_singles)
  qed
  have "finite (pages_of (free_blocks s))"
    using pool_finite [OF pl] by (auto simp: pages_of_def blk_def)
  then have "card (pages_of (free_blocks s)) = card Q + card (pages_of (blocks fl'))"
    using QF fin unfolding pgs by (simp add: card_Diff_subset card_mono)
  then have "free_pages s' = of_nat (card (pages_of (blocks fl')))" using R cnt by simp
  note inv' = pmm_invI [OF s'(2) this]
  show ?thesis
    using s'(1) assms(3) inv' R pgs by (intro exI [of _ s']) (simp add: pmm_reserve_range_def)
qed

text \<open>
  Reserving a range whose pages are all free on their own takes exactly these pages out of
  the free lists, marks them reserved and moves their number from the free to the reserved
  counter; releasing the range afterwards succeeds and restores the free blocks and both
  counters. The invariant holds throughout.
\<close>

theorem pmm_reserve_free_roundtrip:
  assumes "flag_ops_ok ops" and "pmm_inv ops s A" and "a < b"
    and "\<forall>q \<in> {a..<min b (page_frames_count s)}. (q, 0) \<in> free_blocks s \<and> test_buddy ops s q"
  shows "\<exists>s1 s2. pmm_reserve_range ops s a b = Some s1 \<and> pmm_inv ops s1 A \<and>
    pages_of (free_blocks s1) = pages_of (free_blocks s) - {a..<min b (page_frames_count s)} \<and>
    (\<forall>q \<in> {a..<min b (page_frames_count s)}. test_reserved ops s1 q) \<and>
    reserved_pages s1 = reserved_pages s + of_nat (min b (page_frames_count s) - a) \<and>
    pmm_free_range ops s1 a b = Some s2 \<and> pmm_inv ops s2 A \<and>
    free_blocks s2 = free_blocks s \<and> free_pages s2 = free_pages s \<and>
    reserved_pages s2 = reserved_pages s"
proof -
  let ?R = "frames_in s a b"
  have Q: "{q \<in> ?R. test_buddy ops s q} = ?R" using assms(4) by (auto simp: frames_in_def)
  have single: "\<forall>q \<in> ?R. test_buddy ops s q \<longrightarrow> (q, 0) \<in> free_blocks s"
    using assms(4) unfolding frames_in_def by blast
  from pmm_reserve_range_ok [OF assms(1-3) single, unfolded Q] obtain s1 where
    s1: "pmm_reserve_range ops s a b = Some s1" "pmm_inv ops s1 A"
      "free_blocks s1 = free_blocks s - (\<lambda>q. (q, 0)) ` ?R"
      "pages_of (free_blocks s1) = pages_of (free_blocks s) - ?R"
      "\<forall>q. test_reserved ops s1 q \<longleftrightarrow> test_reserved ops s q \<or> q \<in> ?R"
      "page_order s1 = page_order s" "page_frames_count s1 = page_frames_count s"
      "free_pages s1 = free_pages s - of_nat (card ?R)"
      "reserved_pages s1 = reserved_pages s + of_nat (card ?R)"
    by blast
  have R1: "frames_in s1 a b = ?R" using s1(7) by (simp add: frames_in_def)
  have held: "?R \<inter> pages_of A = {}"
  proof -
    have "q \<in> pages_of (free_blocks s)" if "q \<in> ?R" for q
      using that assms(4) by (intro pages_of_blocks_first [of q 0]) (auto simp: frames_in_def)
    with pool_pages_disjoint [OF pmm_inv_pool pmm_inv_disjoint, OF assms(2,2)] show ?thesis by blast
  qed
  have res: "\<forall>q \<in> frames_in s1 a b. test_reserved ops s1 q \<longrightarrow>
      q \<notin> pages_of (blocks (free_list s1) \<union> A) \<and> page_order s1 q = 0"
    using free_single_order [OF assms(2)] assms(4) held s1(4)
    unfolding R1 s1(6) free_blocks_def [of s1, symmetric] pages_of_Un
    by (auto simp: frames_in_def)
  have ai1: "alloc_inv ops {} s1 (free_list s1) A" using s1(2) by (simp add: pmm_inv_def)
  from free_range_loop_ok [OF assms(1) ai1 res] obtain s2 fl2 where
    s2: "free_range_loop ops s1 a b = Some s2" "alloc_inv ops {} s2 fl2 A"
      "released_range ops s1 (free_list s1) ?R s2 fl2"
    unfolding R1 by blast
  have "{q \<in> ?R. test_reserved ops s1 q} = ?R" using s1(5) by auto
  note rel = s2(3) [unfolded released_range_def this, folded free_blocks_def]
  have sub: "(\<lambda>q. (q, 0)) ` ?R \<subseteq> free_blocks s" using assms(4) by (auto simp: frames_in_def)
  have blocks2: "blocks fl2 = free_blocks s" using rel s1(3) sub by auto
  moreover have "free_pages s2 = free_pages s" using rel s1(8) by simp
  ultimately have "free_pages s2 = of_nat (card (pages_of (blocks fl2)))"
    using assms(2) by (simp add: pmm_inv_def)
  note inv2 = pmm_invI [OF s2(2) this]
  have "pmm_free_range ops s1 a b = Some s2" using s2(1) assms(3) by (simp add: pmm_free_range_def)
  moreover have "reserved_pages s1 = reserved_pages s + of_nat (min b (page_frames_count s) - a)"
    using s1(9) by (simp add: frames_in_def)
  moreover have "\<forall>q \<in> ?R. test_reserved ops s1 q" using s1(5) by blast
  moreover have "reserved_pages s2 = reserved_pages s" using rel s1(9) by simp
  moreover have "free_blocks s2 = free_blocks s" using inv2(2) blocks2 by (rule trans)
  ultimately show ?thesis
    using s1(1,2,4) inv2(1) \<open>free_pages s2 = free_pages s\<close> unfolding frames_in_def by blast
qed

lemma free_first_page:
  "\<exists>s. free_each bit_ops [(0, 0)] held_frames = Some s \<and> test_buddy bit_ops s 0 \<and>
     nxt (links s) (Free_area 0) = Some (Page_list 0) \<and> page_frames_count s = 4"
  by (simp add: pmm_eval)

theorem pmm_reserve_free_roundtrip_witness:
  "\<exists>s s1 s2. free_each bit_ops [(0, 0)] held_frames = Some s \<and>
     pmm_reserve_range bit_ops s 0 1 = Some s1 \<and> pages_of (free_blocks s1) = {} \<and>
     pmm_free_range bit_ops s1 0 1 = Some s2 \<and> free_blocks s2 = free_blocks s"
proof -
  from free_first_page obtain s where s: "free_each bit_ops [(0, 0)] held_frames = Some s"
    "test_buddy bit_ops s 0" "page_frames_count s = 4" by blast
  from free_each_ok [OF bit_ops_ok held_frames_inv(1), of "[(0, 0)]"] s(1)
  have inv: "pmm_inv bit_ops s {(1, 0), (2, 1)}" and pg: "pages_of (free_blocks s) = {0}"
    by (auto simp: held_blocks_def held_frames_inv(2) pages_of_def blk_def insert_Diff_if)
  have "0 \<in> pages_of (free_blocks s)" by (simp add: pg)
  then obtain p k where pk: "(p, k) \<in> free_blocks s" "0 \<in> blk (p, k)" by (auto simp: pages_of_def)
  then have sub: "blk (p, k) \<subseteq> {0}" using pg by (auto simp: pages_of_def)
  have "k = 0"
  proof (rule ccontr)
    assume "k \<noteq> 0"
    then have "(2 :: nat) \<le> 2 ^ k" by (cases k) auto
    with pk(2) have "1 \<in> blk (p, k)" by (simp add: blk_def)
    with sub show False by auto
  qed
  with pk have "(0, 0) \<in> free_blocks s" by (simp add: blk_def)
  with pmm_reserve_free_roundtrip [OF bit_ops_ok inv, of 0 1] s pg show ?thesis by auto
qed

lemma reserve_merged:
  "map_option (\<lambda>s. (map_option (\<lambda>s1. (test_reserved bit_ops s1 0,
       map_option (\<lambda>(t, r). (r, test_reserved bit_ops t 0)) (pmm_alloc_pages bit_ops s1 1)))
     (pmm_reserve_range bit_ops s 0 1), pmm_reserve_range bit_ops s 1 2 = None))
     (free_each bit_ops [(0, 0), (1, 0)] held_frames) =
   Some (Some (True, Some (Some 0, True)), True)"
  by (simp add: pmm_eval test_reserved_def pmm_reserve_range_def reserve_range_loop.simps
      reserve_page_def)

text \<open>
  Where a free block is the result of a merge, \<^verbatim>\<open>pmm_reserve_range\<close> goes wrong, a defect: it
  recognises a free page by \<^verbatim>\<open>PG_buddy\<close>, which the merge cleared on the block's first page and
  left set on its second. Reserving the first page marks it but leaves the block on its list,
  and the next request hands the reserved page out; reserving the second page unlinks a node
  that is on no list, which follows a null pointer.
\<close>

theorem pmm_reserve_merged_broken:
  "\<exists>s s1 t. free_each bit_ops [(0, 0), (1, 0)] held_frames = Some s \<and>
     pmm_reserve_range bit_ops s 0 1 = Some s1 \<and> test_reserved bit_ops s1 0 \<and>
     pmm_alloc_pages bit_ops s1 1 = Some (t, Some 0) \<and> test_reserved bit_ops t 0 \<and>
     pmm_reserve_range bit_ops s 1 2 = None"
proof -
  obtain s where s: "free_each bit_ops [(0, 0), (1, 0)] held_frames = Some s"
    using reserve_merged by blast
  from reserve_merged [unfolded s] obtain s1 where s1: "pmm_reserve_range bit_ops s 0 1 = Some s1"
    "pmm_reserve_range bit_ops s 1 2 = None" by auto
  with reserve_merged [unfolded s] obtain t where
    "pmm_alloc_pages bit_ops s1 1 = Some (t, Some 0)" "test_reserved bit_ops s1 0"
    "test_reserved bit_ops t 0" by auto
  with s s1 show ?thesis by blast
qed

end
