(* ===== verification/Slab.thy ===== *)
theory Slab
  imports Kernel_List
begin

text \<open>
  The slab allocator, \<^verbatim>\<open>mm/slab.c\<close> and \<^verbatim>\<open>include/horizon/mm/slab.h\<close>. Addresses are numbers; a cache is known by
  the page it lies in and a slab by its page, whose first 24 bytes are the \<^verbatim>\<open>slab_t\<close>. \<open>obj_next a\<close> is the
  pointer stored at address \<open>a\<close>, the link of a free object. The lists of caches and slabs are those of
  theory \<open>Kernel_List\<close>.

  What \<^verbatim>\<open>mm_alloc_pages\<close> gives for one zeroed kernel page is an argument (\<open>page\<close>); \<open>kmalloc\<close>, which also
  asks for runs of pages, takes the function from page count and flags to the outcome (\<open>mm\<close>). A page
  asked for with \<^verbatim>\<open>MEM_ZERO\<close> holds zeros. Constructors and destructors are functions given by the caller:
  \<open>run f a\<close> is what calling function \<open>f\<close> on the object at \<open>a\<close> does to the stored pointers. \<^verbatim>\<open>MEM_PANIC\<close> is
  defined nowhere in the repository, so its value is an argument (\<open>mem_panic\<close>). \<^verbatim>\<open>kernel_panic\<close> does
  not return. Clearing an object that reaches beyond its page is a fault.
\<close>

section \<open>Data\<close>

datatype slab_addr = Cache_list | Cache_node nat | Slabs_full nat | Slabs_partial nat | Slabs_free nat | Slab_node nat

record slab =
  sl_start :: nat
  sl_inuse :: u32
  sl_free :: u32
  sl_freelist :: "nat option"

record slab_cache =
  sc_name :: string
  sc_size :: u32
  sc_align :: u32
  sc_cflags :: u32
  sc_num :: u32
  sc_total_objects :: u32
  sc_total_slabs :: u32
  sc_ctor :: "nat option"
  sc_dtor :: "nat option"

record slab_state =
  sl_links :: "slab_addr list_heap"
  cache_at :: "nat \<rightharpoonup> slab_cache"
  slab_at :: "nat \<rightharpoonup> slab"
  obj_next :: "nat \<Rightarrow> nat option"
  kmalloc_caches :: "nat option list"

type_synonym slab_run = "nat \<Rightarrow> nat \<Rightarrow> (nat \<Rightarrow> nat option) \<Rightarrow> (nat \<Rightarrow> nat option)"

definition SLAB_HWCACHE_ALIGN :: u32 where "SLAB_HWCACHE_ALIGN = 1"
definition SLAB_PANIC :: u32 where "SLAB_PANIC = 4"
definition MEM_KERNEL :: u32 where "MEM_KERNEL = 1"
definition MEM_ZERO :: u32 where "MEM_ZERO = 8"

definition page_bytes :: nat where "page_bytes = 4096"
definition sizeof_slab :: nat where "sizeof_slab = 24"
definition sizeof_pointer :: u32 where "sizeof_pointer = 4"

definition kmalloc_sizes :: "u32 list" where
  "kmalloc_sizes = [32, 64, 128, 256, 512, 1024, 2048, 4096, 8192, 16384, 32768, 65536, 131072]"

definition upd_slab :: "nat \<Rightarrow> slab \<Rightarrow> slab_state \<Rightarrow> slab_state" where
  "upd_slab p sl s = s\<lparr>slab_at := (slab_at s)(p \<mapsto> sl)\<rparr>"

section \<open>Caches\<close>

definition round_size :: "u32 \<Rightarrow> u32 \<Rightarrow> u32" where
  "round_size sz align = (sz + align - 1) AND NOT (align - 1)"

definition object_size :: "u32 \<Rightarrow> u32 \<Rightarrow> u32 \<times> u32" where
  "object_size sz align =
     (let size1 = (if sz < sizeof_pointer then sizeof_pointer else sz);
          align1 = (if align = 0 then sizeof_pointer else align);
          align2 = (if align1 < sizeof_pointer then sizeof_pointer else align1)
      in (round_size size1 align2, align2))"

text \<open>The quotient is a fault when the rounded size has wrapped to zero.\<close>

definition objects_per_slab :: "u32 \<Rightarrow> u32 option" where
  "objects_per_slab sz =
     (if sz = 0 then None
      else let n = of_nat (page_bytes - sizeof_slab) div sz in Some (if n = 0 then 1 else n))"

definition slab_cache_create :: "nat option \<Rightarrow> slab_state \<Rightarrow> string option \<Rightarrow> u32 \<Rightarrow> u32 \<Rightarrow> u32 \<Rightarrow> nat option \<Rightarrow> nat option \<Rightarrow>
    (slab_state \<times> nat option) option" where
  "slab_cache_create page s name sz align flags ctor dtor =
     (case name of
        None \<Rightarrow> Some (s, None)
      | Some nm \<Rightarrow>
          if sz = 0 then Some (s, None)
          else case object_size sz align of
            (sz', align') \<Rightarrow>
              (case page of
                 None \<Rightarrow> if flags AND SLAB_PANIC \<noteq> 0 then None else Some (s, None)
               | Some c \<Rightarrow>
                   Option.bind (objects_per_slab sz') (\<lambda>num.
                   Option.bind
                     (list_add (list_init (list_init (list_init (sl_links s) (Slabs_full c)) (Slabs_partial c)) (Slabs_free c))
                        (Cache_node c) Cache_list) (\<lambda>h.
                     Some (s\<lparr>sl_links := h,
                        cache_at := (cache_at s)(c \<mapsto> \<lparr>sc_name = nm, sc_size = sz', sc_align = align', sc_cflags = flags,
                          sc_num = num, sc_total_objects = 0, sc_total_slabs = 0, sc_ctor = ctor, sc_dtor = dtor\<rparr>)\<rparr>, Some c)))))"

text \<open>One of the loops that free the slabs on a list, from \<open>pos\<close> on; the result also counts them.\<close>

partial_function (option) free_slabs :: "slab_state \<Rightarrow> slab_addr \<Rightarrow> slab_addr \<Rightarrow> nat \<Rightarrow> (slab_state \<times> nat) option" where
  "free_slabs s head pos n =
     (if pos = head then Some (s, n)
      else case pos of
        Slab_node p \<Rightarrow>
          Option.bind (slab_at s p) (\<lambda>sl.
          Option.bind (nxt (sl_links s) pos) (\<lambda>next.
          Option.bind (list_del (sl_links s) pos) (\<lambda>h.
            free_slabs (s\<lparr>sl_links := h, slab_at := (slab_at s)(sl_start sl := None)\<rparr>) head next (Suc n))))
      | _ \<Rightarrow> None)"

definition free_slab_list :: "slab_state \<Rightarrow> slab_addr \<Rightarrow> (slab_state \<times> nat) option" where
  "free_slab_list s head = Option.bind (nxt (sl_links s) head) (\<lambda>first. free_slabs s head first 0)"

definition slab_cache_destroy :: "slab_state \<Rightarrow> nat option \<Rightarrow> slab_state option" where
  "slab_cache_destroy s cache =
     (case cache of
        None \<Rightarrow> Some s
      | Some c \<Rightarrow>
          Option.bind (list_del (sl_links s) (Cache_node c)) (\<lambda>h.
          Option.bind (free_slab_list (s\<lparr>sl_links := h\<rparr>) (Slabs_full c)) (\<lambda>(s1, _).
          Option.bind (free_slab_list s1 (Slabs_partial c)) (\<lambda>(s2, _).
          Option.bind (free_slab_list s2 (Slabs_free c)) (\<lambda>(s3, _).
            Some (s3\<lparr>cache_at := (cache_at s3)(c := None)\<rparr>))))))"

section \<open>Allocating\<close>

definition obj_addr :: "nat \<Rightarrow> u32 \<Rightarrow> nat \<Rightarrow> nat" where
  "obj_addr start sz i = start + sizeof_slab + i * unat sz"

text \<open>The loop that links the objects of a new slab, from object \<open>i\<close> on with the list built so far.\<close>

fun link_objects :: "slab_run \<Rightarrow> slab_cache \<Rightarrow> nat \<Rightarrow> nat \<Rightarrow> nat \<Rightarrow> nat option \<Rightarrow> (nat \<Rightarrow> nat option) \<Rightarrow>
    nat option \<times> (nat \<Rightarrow> nat option)" where
  "link_objects run c start i 0 fl m = (fl, m)"
| "link_objects run c start i (Suc n) fl m =
     (let obj = obj_addr start (sc_size c) i;
          m1 = m(obj := fl);
          m2 = (case sc_ctor c of None \<Rightarrow> m1 | Some f \<Rightarrow> run f obj m1)
      in link_objects run c start (Suc i) n (Some obj) m2)"

text \<open>The pointers stored in a page after it was cleared.\<close>

definition zero_page :: "nat \<Rightarrow> (nat \<Rightarrow> nat option) \<Rightarrow> (nat \<Rightarrow> nat option)" where
  "zero_page start m = (\<lambda>a. if start \<le> a \<and> a < start + page_bytes then None else m a)"

definition slab_alloc :: "slab_run \<Rightarrow> nat option \<Rightarrow> slab_state \<Rightarrow> nat \<Rightarrow> (slab_state \<times> nat option) option" where
  "slab_alloc run page s c =
     Option.bind (cache_at s c) (\<lambda>cache.
       case page of
         None \<Rightarrow> Some (s, None)
       | Some start \<Rightarrow>
           (case link_objects run cache start 0 (unat (sc_num cache)) None (zero_page start (obj_next s)) of
              (fl, m) \<Rightarrow>
                Option.bind (list_add (sl_links s) (Slab_node start) (Slabs_free c)) (\<lambda>h.
                  Some (s\<lparr>sl_links := h, obj_next := m,
                     slab_at := (slab_at s)(start \<mapsto> \<lparr>sl_start = start, sl_inuse = 0, sl_free = sc_num cache, sl_freelist = fl\<rparr>),
                     cache_at := (cache_at s)(c \<mapsto> cache\<lparr>sc_total_slabs := sc_total_slabs cache + 1,
                       sc_total_objects := sc_total_objects cache + sc_num cache\<rparr>)\<rparr>, Some start))))"

text \<open>The slab to allocate from, and the state with it on the partial list.\<close>

definition pick_slab :: "slab_run \<Rightarrow> nat option \<Rightarrow> slab_state \<Rightarrow> nat \<Rightarrow> (slab_state \<times> nat option) option" where
  "pick_slab run page s c =
     (if list_empty (sl_links s) (Slabs_partial c) then
        Option.bind
          (if list_empty (sl_links s) (Slabs_free c) then slab_alloc run page s c
           else case nxt (sl_links s) (Slabs_free c) of
             Some (Slab_node p) \<Rightarrow>
               map_option (\<lambda>h. (s\<lparr>sl_links := h\<rparr>, Some p)) (list_del (sl_links s) (Slab_node p))
           | _ \<Rightarrow> None)
          (\<lambda>(s1, sl). case sl of
             None \<Rightarrow> Some (s1, None)
           | Some p \<Rightarrow>
               map_option (\<lambda>h. (s1\<lparr>sl_links := h\<rparr>, Some p)) (list_add (sl_links s1) (Slab_node p) (Slabs_partial c)))
      else case nxt (sl_links s) (Slabs_partial c) of
        Some (Slab_node p) \<Rightarrow> Some (s, Some p)
      | _ \<Rightarrow> None)"

text \<open>Taking the first free object of slab \<open>p\<close>; an empty free list is a null pointer.\<close>

definition take_object :: "slab_state \<Rightarrow> nat \<Rightarrow> nat \<Rightarrow> (slab_state \<times> nat) option" where
  "take_object s c p =
     Option.bind (slab_at s p) (\<lambda>sl.
     Option.bind (sl_freelist sl) (\<lambda>obj.
       let sl1 = sl\<lparr>sl_freelist := obj_next s obj, sl_inuse := sl_inuse sl + 1, sl_free := sl_free sl - 1\<rparr>;
           s1 = upd_slab p sl1 s
       in if sl_free sl1 = 0 then
            Option.bind (list_del (sl_links s1) (Slab_node p)) (\<lambda>h.
            Option.bind (list_add h (Slab_node p) (Slabs_full c)) (\<lambda>h'. Some (s1\<lparr>sl_links := h'\<rparr>, obj)))
          else Some (s1, obj)))"

definition clear_object :: "slab_state \<Rightarrow> nat \<Rightarrow> u32 \<Rightarrow> slab_state option" where
  "clear_object s obj sz =
     (if obj mod page_bytes + unat sz > page_bytes then None
      else Some (s\<lparr>obj_next := (\<lambda>a. if obj \<le> a \<and> a < obj + unat sz then None else obj_next s a)\<rparr>))"

definition slab_cache_alloc :: "slab_run \<Rightarrow> u32 \<Rightarrow> nat option \<Rightarrow> slab_state \<Rightarrow> nat option \<Rightarrow> u32 \<Rightarrow> (slab_state \<times> nat option) option" where
  "slab_cache_alloc run mem_panic page s cache flags =
     (case cache of
        None \<Rightarrow> Some (s, None)
      | Some c \<Rightarrow>
          Option.bind (cache_at s c) (\<lambda>cc.
          Option.bind (pick_slab run page s c) (\<lambda>(s1, sl).
            case sl of
              None \<Rightarrow> if flags AND mem_panic \<noteq> 0 then None else Some (s1, None)
            | Some p \<Rightarrow>
                Option.bind (take_object s1 c p) (\<lambda>(s2, obj).
                  if flags AND MEM_ZERO \<noteq> 0 then
                    map_option (\<lambda>s3. (s3, Some obj)) (clear_object s2 obj (sc_size cc))
                  else Some (s2, Some obj)))))"

section \<open>Freeing\<close>

definition page_of :: "nat \<Rightarrow> nat" where
  "page_of a = a div page_bytes * page_bytes"

definition slab_cache_free :: "slab_run \<Rightarrow> slab_state \<Rightarrow> nat option \<Rightarrow> nat option \<Rightarrow> slab_state option" where
  "slab_cache_free run s cache obj =
     (case (cache, obj) of
        (Some c, Some a) \<Rightarrow>
          Option.bind (cache_at s c) (\<lambda>cc.
            let p = page_of a;
                m = (case sc_dtor cc of None \<Rightarrow> obj_next s | Some f \<Rightarrow> run f a (obj_next s))
            in Option.bind (slab_at s p) (\<lambda>sl.
                 let sl1 = sl\<lparr>sl_freelist := Some a, sl_inuse := sl_inuse sl - 1, sl_free := sl_free sl + 1\<rparr>;
                     s1 = upd_slab p sl1 (s\<lparr>obj_next := m(a := sl_freelist sl)\<rparr>)
                 in Option.bind
                      (if sl_free sl1 = 1 then
                         Option.bind (list_del (sl_links s1) (Slab_node p)) (\<lambda>h. list_add h (Slab_node p) (Slabs_partial c))
                       else Some (sl_links s1)) (\<lambda>h1.
                    Option.bind
                      (if sl_free sl1 = sc_num cc then
                         Option.bind (list_del h1 (Slab_node p)) (\<lambda>h. list_add h (Slab_node p) (Slabs_free c))
                       else Some h1) (\<lambda>h2. Some (s1\<lparr>sl_links := h2\<rparr>)))))
      | _ \<Rightarrow> Some s)"

definition slab_cache_shrink :: "slab_state \<Rightarrow> nat option \<Rightarrow> (slab_state \<times> int) option" where
  "slab_cache_shrink s cache =
     (case cache of
        None \<Rightarrow> Some (s, 0)
      | Some c \<Rightarrow>
          Option.bind (cache_at s c) (\<lambda>cc.
          Option.bind (free_slab_list s (Slabs_free c)) (\<lambda>(s1, n).
            Some (s1\<lparr>cache_at := (cache_at s1)(c \<mapsto> cc\<lparr>sc_total_slabs := sc_total_slabs cc - of_nat n,
              sc_total_objects := sc_total_objects cc - of_nat n * sc_num cc\<rparr>)\<rparr>, int n))))"

section \<open>Information\<close>

definition slab_cache_size :: "slab_state \<Rightarrow> nat option \<Rightarrow> u32 option" where
  "slab_cache_size s cache =
     (case cache of None \<Rightarrow> Some 0 | Some c \<Rightarrow> Option.bind (cache_at s c) (\<lambda>cc. Some (sc_size cc)))"

definition slab_cache_name :: "slab_state \<Rightarrow> nat option \<Rightarrow> string option option" where
  "slab_cache_name s cache =
     (case cache of None \<Rightarrow> Some None | Some c \<Rightarrow> Option.bind (cache_at s c) (\<lambda>cc. Some (Some (sc_name cc))))"

text \<open>What is written through each of the two pointers; the arguments say which of them are not null.\<close>

definition slab_cache_info :: "slab_state \<Rightarrow> nat option \<Rightarrow> bool \<Rightarrow> bool \<Rightarrow> (u32 option \<times> u32 option) option" where
  "slab_cache_info s cache total_objects total_slabs =
     (case cache of
        None \<Rightarrow> Some (None, None)
      | Some c \<Rightarrow>
          Option.bind (cache_at s c) (\<lambda>cc.
            Some (if total_objects then Some (sc_total_objects cc) else None,
              if total_slabs then Some (sc_total_slabs cc) else None)))"

section \<open>The general allocator\<close>

text \<open>
  \<^verbatim>\<open>kmalloc_caches\<close> is an array of thirteen pointers, null until it is filled. The name that \<^verbatim>\<open>snprintf\<close>
  writes is an argument: the caches all keep a pointer to the one buffer, so they share its contents.
\<close>

fun init_caches :: "string \<Rightarrow> u32 list \<Rightarrow> nat \<Rightarrow> nat option list \<Rightarrow> slab_state \<Rightarrow> slab_state option" where
  "init_caches name [] i pages s = Some s"
| "init_caches name (sz # sizes) i [] s = None"
| "init_caches name (sz # sizes) i (page # pages) s =
     Option.bind (slab_cache_create page s (Some name) sz 0 SLAB_HWCACHE_ALIGN None None) (\<lambda>(s1, c).
       if c = None then None
       else init_caches name sizes (Suc i) pages (s1\<lparr>kmalloc_caches := (kmalloc_caches s1)[i := c]\<rparr>))"

text \<open>\<open>pages\<close> are the outcomes of the thirteen page allocations.\<close>

definition slab_init :: "string \<Rightarrow> nat option list \<Rightarrow> slab_state \<Rightarrow> slab_state option" where
  "slab_init name pages s = init_caches name kmalloc_sizes 0 pages s"

fun size_index :: "u32 list \<Rightarrow> u32 \<Rightarrow> nat \<Rightarrow> nat option" where
  "size_index [] sz i = None"
| "size_index (x # xs) sz i = (if sz \<le> x then Some i else size_index xs sz (Suc i))"

type_synonym page_source = "u32 \<Rightarrow> u32 \<Rightarrow> nat option"

definition kmalloc :: "slab_run \<Rightarrow> u32 \<Rightarrow> page_source \<Rightarrow> slab_state \<Rightarrow> u32 \<Rightarrow> u32 \<Rightarrow> (slab_state \<times> nat option) option" where
  "kmalloc run mem_panic mm s sz flags =
     (if sz = 0 then Some (s, None)
      else case size_index kmalloc_sizes sz 0 of
        Some i \<Rightarrow>
          if i < length (kmalloc_caches s)
          then slab_cache_alloc run mem_panic (mm 1 (MEM_KERNEL OR MEM_ZERO)) s (kmalloc_caches s ! i) flags
          else None
      | None \<Rightarrow> Some (s, mm (drop_bit 12 (sz + 4096 - 1)) flags))"

definition kzalloc :: "slab_run \<Rightarrow> u32 \<Rightarrow> page_source \<Rightarrow> slab_state \<Rightarrow> u32 \<Rightarrow> u32 \<Rightarrow> (slab_state \<times> nat option) option" where
  "kzalloc run mem_panic mm s sz flags = kmalloc run mem_panic mm s sz (flags OR MEM_ZERO)"

definition kcalloc :: "slab_run \<Rightarrow> u32 \<Rightarrow> page_source \<Rightarrow> slab_state \<Rightarrow> u32 \<Rightarrow> u32 \<Rightarrow> u32 \<Rightarrow> (slab_state \<times> nat option) option" where
  "kcalloc run mem_panic mm s n sz flags =
     (if n = 0 \<or> sz = 0 then Some (s, None)
      else if sz > (- 1) div n then Some (s, None)
      else kzalloc run mem_panic mm s (n * sz) flags)"

definition kfree :: "slab_run \<Rightarrow> slab_state \<Rightarrow> nat option \<Rightarrow> slab_state option" where
  "kfree run s ptr =
     (case ptr of
        None \<Rightarrow> Some s
      | Some a \<Rightarrow>
          if kmalloc_caches s = [] then None else slab_cache_free run s (kmalloc_caches s ! 0) ptr)"

text \<open>The number of bytes copied is the old size, which is always zero, so nothing is copied.\<close>

definition krealloc :: "slab_run \<Rightarrow> u32 \<Rightarrow> page_source \<Rightarrow> slab_state \<Rightarrow> nat option \<Rightarrow> u32 \<Rightarrow> u32 \<Rightarrow> (slab_state \<times> nat option) option" where
  "krealloc run mem_panic mm s ptr sz flags =
     (case ptr of
        None \<Rightarrow> kmalloc run mem_panic mm s sz flags
      | Some a \<Rightarrow>
          if sz = 0 then map_option (\<lambda>s1. (s1, None)) (kfree run s ptr)
          else
            Option.bind (kmalloc run mem_panic mm s sz flags) (\<lambda>(s1, new).
              if new = None then Some (s1, None)
              else map_option (\<lambda>s2. (s2, new)) (kfree run s1 ptr)))"

end
