(* ===== verification/Slab_Props.thy ===== *)
theory Slab_Props
  imports Slab
begin

text \<open>
  The slab allocator: lemmas and claims. A new slab is put on the free list and then, without being taken
  off it, on the partial list; the states of a cache with its first slab are therefore described by
  their pointers: \<open>first_partial\<close> while the slab has free objects, \<open>first_full\<close> after the last one.
\<close>

section \<open>The objects of a slab\<close>

lemma obj_addr_inj: "0 < unat sz \<Longrightarrow> obj_addr p sz i = obj_addr p sz j \<longleftrightarrow> i = j"
  by (simp add: obj_addr_def)

text \<open>The free list of \<open>r\<close> objects: the last one first, each pointing to the one before it.\<close>

definition top_object :: "nat \<Rightarrow> u32 \<Rightarrow> nat \<Rightarrow> nat option" where
  "top_object p sz r = (if r = 0 then None else Some (obj_addr p sz (r - 1)))"

definition linked_objects :: "(nat \<Rightarrow> nat option) \<Rightarrow> nat \<Rightarrow> u32 \<Rightarrow> nat \<Rightarrow> bool" where
  "linked_objects m p sz r \<longleftrightarrow> (\<forall>j<r. m (obj_addr p sz j) = top_object p sz j)"

lemma linked_objects_mono: "linked_objects m p sz r \<Longrightarrow> k \<le> r \<Longrightarrow> linked_objects m p sz k"
  by (auto simp: linked_objects_def)

lemma link_objects_result:
  assumes "sc_ctor c = None" and "0 < unat (sc_size c)" and "linked_objects m p (sc_size c) i"
  shows "\<exists>m'. link_objects run c p i n (top_object p (sc_size c) i) m = (top_object p (sc_size c) (i + n), m') \<and>
    linked_objects m' p (sc_size c) (i + n)"
  using assms(3)
proof (induction n arbitrary: i m)
  case (Suc n)
  let ?m = "m(obj_addr p (sc_size c) i := top_object p (sc_size c) i)"
  have "linked_objects ?m p (sc_size c) (Suc i)"
    using Suc.prems assms(2) by (auto simp: linked_objects_def obj_addr_inj less_Suc_eq)
  moreover have "top_object p (sc_size c) (Suc i) = Some (obj_addr p (sc_size c) i)" by (simp add: top_object_def)
  ultimately show ?case
    using Suc.IH [of ?m "Suc i"] assms(1) by (simp add: Let_def fun_upd_def)
qed simp

section \<open>The lists of a cache and its first slab\<close>

definition lists_fresh :: "slab_addr list_heap \<Rightarrow> nat \<Rightarrow> bool" where
  "lists_fresh h c \<longleftrightarrow> (\<forall>a\<in>{Slabs_full c, Slabs_partial c, Slabs_free c}. nxt h a = Some a \<and> prv h a = Some a)"

definition lists_first_partial :: "slab_addr list_heap \<Rightarrow> nat \<Rightarrow> nat \<Rightarrow> bool" where
  "lists_first_partial h c p \<longleftrightarrow> nxt h (Slabs_free c) = Some (Slab_node p) \<and>
     nxt h (Slabs_partial c) = Some (Slab_node p) \<and> prv h (Slabs_partial c) = Some (Slab_node p) \<and>
     nxt h (Slab_node p) = Some (Slabs_partial c) \<and> prv h (Slab_node p) = Some (Slabs_partial c) \<and>
     nxt h (Slabs_full c) = Some (Slabs_full c) \<and> prv h (Slabs_full c) = Some (Slabs_full c)"

definition lists_first_full :: "slab_addr list_heap \<Rightarrow> nat \<Rightarrow> nat \<Rightarrow> bool" where
  "lists_first_full h c p \<longleftrightarrow> nxt h (Slabs_free c) = Some (Slab_node p) \<and>
     nxt h (Slabs_partial c) = Some (Slabs_partial c) \<and> prv h (Slabs_partial c) = Some (Slabs_partial c) \<and>
     nxt h (Slab_node p) = Some (Slabs_full c) \<and> prv h (Slab_node p) = Some (Slabs_full c) \<and>
     nxt h (Slabs_full c) = Some (Slab_node p) \<and> prv h (Slabs_full c) = Some (Slab_node p)"

lemma new_slab_lists:
  assumes "lists_fresh h c"
  shows "\<exists>h1 h2. list_add h (Slab_node p) (Slabs_free c) = Some h1 \<and>
    list_add h1 (Slab_node p) (Slabs_partial c) = Some h2 \<and> lists_first_partial h2 c p"
  using assms by (simp add: lists_fresh_def list_add_def lists_first_partial_def)

lemma full_slab_lists:
  assumes "lists_first_partial h c p"
  shows "\<exists>h1 h2. list_del h (Slab_node p) = Some h1 \<and>
    list_add h1 (Slab_node p) (Slabs_full c) = Some h2 \<and> lists_first_full h2 c p"
  using assms by (simp add: lists_first_partial_def list_add_def list_del_def lists_first_full_def)

section \<open>Allocating from the first slab\<close>

definition slab_objects :: "slab_state \<Rightarrow> nat \<Rightarrow> nat \<Rightarrow> u32 \<Rightarrow> nat \<Rightarrow> bool" where
  "slab_objects s c p sz r \<longleftrightarrow> linked_objects (obj_next s) p sz r \<and> r < 2 ^ 32 \<and> 0 < unat sz \<and>
     (\<exists>cc. cache_at s c = Some cc \<and> sc_size cc = sz) \<and>
     (\<exists>sl. slab_at s p = Some sl \<and> sl_free sl = of_nat r \<and> sl_freelist sl = top_object p sz r)"

text \<open>The cache with \<open>r\<close> free objects left in its first slab.\<close>

definition first_slab :: "slab_state \<Rightarrow> nat \<Rightarrow> nat \<Rightarrow> u32 \<Rightarrow> nat \<Rightarrow> bool" where
  "first_slab s c p sz r \<longleftrightarrow> slab_objects s c p sz r \<and>
     (if r = 0 then lists_first_full (sl_links s) c p else lists_first_partial (sl_links s) c p)"

lemma of_nat_pred_zero: "r < 2 ^ 32 \<Longrightarrow> 0 < r \<Longrightarrow> (of_nat r - 1 :: u32) = 0 \<longleftrightarrow> r = 1"
proof -
  assume r: "r < 2 ^ 32" "0 < r"
  then obtain k where k: "r = Suc k" using gr0_implies_Suc by blast
  have u: "unat (of_nat k :: u32) = k" using r k by (simp add: unsigned_of_nat take_bit_nat_eq_self)
  have "k = 0" if z: "(of_nat k :: u32) = 0" using u unfolding z by simp
  then show ?thesis using k by auto
qed

lemma take_object_first:
  assumes "slab_objects s c p sz (Suc r)" and "lists_first_partial (sl_links s) c p"
  shows "\<exists>s'. take_object s c p = Some (s', obj_addr p sz r) \<and> first_slab s' c p sz r"
proof -
  from assms(1) obtain sl cc where sl: "slab_at s p = Some sl" "sl_free sl = of_nat (Suc r)"
      "sl_freelist sl = Some (obj_addr p sz r)" "cache_at s c = Some cc" "sc_size cc = sz"
    and ok: "linked_objects (obj_next s) p sz (Suc r)" "Suc r < 2 ^ 32" "0 < unat sz"
    by (auto simp: slab_objects_def top_object_def)
  have top: "obj_next s (obj_addr p sz r) = top_object p sz r" using ok(1) by (simp add: linked_objects_def)
  let ?sl = "sl\<lparr>sl_freelist := top_object p sz r, sl_inuse := sl_inuse sl + 1, sl_free := sl_free sl - 1\<rparr>"
  have zero: "sl_free ?sl = 0 \<longleftrightarrow> r = 0" using of_nat_pred_zero [of "Suc r"] ok(2) sl(2) by (simp del: of_nat_Suc)
  have objs: "slab_objects (s\<lparr>slab_at := (slab_at s)(p \<mapsto> ?sl), sl_links := h\<rparr>) c p sz r" for h
    using ok sl(2,4,5) linked_objects_mono [OF ok(1), of r] by (simp add: slab_objects_def)
  from full_slab_lists [OF assms(2)] obtain h1 h2 where
    h: "list_del (sl_links s) (Slab_node p) = Some h1" "list_add h1 (Slab_node p) (Slabs_full c) = Some h2"
      "lists_first_full h2 c p" by blast
  show ?thesis
  proof (cases "r = 0")
    case True
    with zero sl(1,3) top h objs [of h2] show ?thesis
      by (simp add: take_object_def upd_slab_def first_slab_def)
  next
    case False
    have "take_object s c p = Some (s\<lparr>slab_at := (slab_at s)(p \<mapsto> ?sl), sl_links := sl_links s\<rparr>, obj_addr p sz r)"
      using False zero sl(1,3) top by (simp add: take_object_def upd_slab_def Let_def)
    with False objs [of "sl_links s"] assms(2) show ?thesis by (simp add: first_slab_def)
  qed
qed

text \<open>
  Clearing the object just taken is harmless as long as the objects up to it lie inside the page: the
  links of the objects below it are not touched. \<open>clear_ok\<close> says that the caller asks for no clearing
  or that \<open>n\<close> objects fit behind the header of the aligned page \<open>p\<close>.
\<close>

definition clear_ok :: "u32 \<Rightarrow> nat \<Rightarrow> u32 \<Rightarrow> nat \<Rightarrow> bool" where
  "clear_ok flags p sz n \<longleftrightarrow> flags AND MEM_ZERO = 0 \<or> 4096 dvd p \<and> n * unat sz \<le> 4072"

lemma clear_ok_mono:
  assumes "clear_ok flags p sz n" and "k \<le> n"
  shows "clear_ok flags p sz k"
proof -
  have "k * unat sz \<le> n * unat sz" using assms(2) by (rule mult_le_mono1)
  with assms(1) show ?thesis unfolding clear_ok_def by linarith
qed

lemma clear_first:
  assumes "first_slab s c p sz r" and "4096 dvd p" and "Suc r * unat sz \<le> 4072"
  shows "\<exists>s'. clear_object s (obj_addr p sz r) sz = Some s' \<and> first_slab s' c p sz r"
proof -
  have "0 < unat sz" using assms(1) by (simp add: first_slab_def slab_objects_def)
  then have "24 + r * unat sz < 4096" using assms(3) by simp
  moreover from assms(2) obtain k where "p = 4096 * k" by (rule dvdE)
  then have "obj_addr p sz r = 24 + r * unat sz + 4096 * k" by (simp add: obj_addr_def sizeof_slab_def)
  then have "obj_addr p sz r mod 4096 = (24 + r * unat sz) mod 4096" by (simp only: mod_mult_self2)
  ultimately have "obj_addr p sz r mod 4096 = 24 + r * unat sz" by simp
  then have "obj_addr p sz r mod page_bytes + unat sz \<le> page_bytes" using assms(3) by (simp add: page_bytes_def)
  moreover have "\<not> obj_addr p sz r \<le> obj_addr p sz j" if "j < r" for j
    using that assms(1) by (simp add: obj_addr_def first_slab_def slab_objects_def not_le)
  ultimately show ?thesis
    using assms(1) by (auto simp: clear_object_def first_slab_def slab_objects_def linked_objects_def)
qed

text \<open>The last two steps of an allocation, once the slab is chosen.\<close>

lemma finish_alloc:
  assumes "cache_at s c = Some cc" and "sc_size cc = sz" and "pick_slab run page s c = Some (s1, Some p)"
    and "slab_objects s1 c p sz (Suc r)" and "lists_first_partial (sl_links s1) c p" and "clear_ok flags p sz (Suc r)"
  shows "\<exists>s'. slab_cache_alloc run mp page s (Some c) flags = Some (s', Some (obj_addr p sz r)) \<and> first_slab s' c p sz r"
proof -
  from take_object_first [OF assms(4,5)] obtain s2 where
    s2: "take_object s1 c p = Some (s2, obj_addr p sz r)" "first_slab s2 c p sz r" by blast
  show ?thesis
  proof (cases "flags AND MEM_ZERO = 0")
    case True
    with s2 assms(1-3) show ?thesis by (simp add: slab_cache_alloc_def)
  next
    case False
    with assms(6) clear_first [OF s2(2)] obtain s3 where
      "clear_object s2 (obj_addr p sz r) sz = Some s3" "first_slab s3 c p sz r" by (auto simp: clear_ok_def)
    with False s2 assms(1-3) show ?thesis by (simp add: slab_cache_alloc_def)
  qed
qed

lemma alloc_first_slab:
  assumes "first_slab s c p sz (Suc r)" and "clear_ok flags p sz (Suc r)"
  shows "\<exists>s'. slab_cache_alloc run mp page s (Some c) flags = Some (s', Some (obj_addr p sz r)) \<and> first_slab s' c p sz r"
proof -
  from assms(1) have objs: "slab_objects s c p sz (Suc r)" and ls: "lists_first_partial (sl_links s) c p"
    by (auto simp: first_slab_def)
  have "pick_slab run page s c = Some (s, Some p)"
    using ls by (simp add: pick_slab_def list_empty_def lists_first_partial_def)
  with finish_alloc [OF _ _ _ objs ls assms(2)] objs show ?thesis by (auto simp: slab_objects_def)
qed

lemma alloc_first_full:
  assumes "first_slab s c p sz 0"
  shows "slab_cache_alloc run mp page s (Some c) flags = None"
proof -
  from assms obtain sl cc where sl: "slab_at s p = Some sl" "sl_freelist sl = None" "cache_at s c = Some cc"
    and ls: "lists_first_full (sl_links s) c p"
    by (auto simp: first_slab_def slab_objects_def top_object_def)
  from ls have "\<exists>h. pick_slab run page s c = Some (s\<lparr>sl_links := h\<rparr>, Some p)"
    by (simp add: pick_slab_def list_empty_def lists_first_full_def list_del_def list_add_def) blast
  then show ?thesis using sl by (auto simp: slab_cache_alloc_def take_object_def)
qed

text \<open>A cache as \<^verbatim>\<open>slab_cache_create\<close> leaves it, without a constructor.\<close>

definition fresh_cache :: "slab_state \<Rightarrow> nat \<Rightarrow> slab_cache \<Rightarrow> bool" where
  "fresh_cache s c cc \<longleftrightarrow> cache_at s c = Some cc \<and> sc_ctor cc = None \<and>
     objects_per_slab (sc_size cc) = Some (sc_num cc) \<and> lists_fresh (sl_links s) c"

lemma objects_per_slab_nat:
  assumes "objects_per_slab sz = Some num"
  shows "0 < unat sz" and "unat num = max 1 (4072 div unat sz)"
proof -
  show pos: "0 < unat sz" using assms by (auto simp: objects_per_slab_def unat_gt_0 split: if_splits)
  have "unat ((4072 :: u32) div sz) = 4072 div unat sz" by (simp add: unat_div)
  moreover have "(4072 :: u32) div sz = 0 \<longleftrightarrow> unat ((4072 :: u32) div sz) = 0" by (simp add: unat_eq_0)
  ultimately show "unat num = max 1 (4072 div unat sz)"
    using assms by (simp add: objects_per_slab_def page_bytes_def sizeof_slab_def Let_def max_def split: if_splits)
qed

lemma alloc_fresh:
  assumes fresh: "fresh_cache s c cc" and "clear_ok flags p (sc_size cc) (unat (sc_num cc))"
  shows "\<exists>s'. slab_cache_alloc run mp (Some p) s (Some c) flags =
      Some (s', Some (obj_addr p (sc_size cc) (unat (sc_num cc) - 1))) \<and>
    first_slab s' c p (sc_size cc) (unat (sc_num cc) - 1)"
proof -
  from fresh have cc: "cache_at s c = Some cc" "sc_ctor cc = None" and ls: "lists_fresh (sl_links s) c"
    and num: "objects_per_slab (sc_size cc) = Some (sc_num cc)" by (auto simp: fresh_cache_def)
  note nat = objects_per_slab_nat [OF num]
  then have "0 < unat (sc_num cc)" by simp
  then obtain r where r: "unat (sc_num cc) = Suc r" using gr0_implies_Suc by blast
  have "linked_objects (zero_page p (obj_next s)) p (sc_size cc) 0" by (simp add: linked_objects_def)
  from link_objects_result [OF cc(2) nat(1) this, of run "Suc r"] obtain m where
    m: "link_objects run cc p 0 (Suc r) None (zero_page p (obj_next s)) = (top_object p (sc_size cc) (Suc r), m)"
      "linked_objects m p (sc_size cc) (Suc r)" by (auto simp: top_object_def [of _ _ 0])
  from new_slab_lists [OF ls, of p] obtain h1 h2 where
    h: "list_add (sl_links s) (Slab_node p) (Slabs_free c) = Some h1"
      "list_add h1 (Slab_node p) (Slabs_partial c) = Some h2" "lists_first_partial h2 c p" by blast
  let ?s = "s\<lparr>sl_links := h2, obj_next := m,
     slab_at := (slab_at s)(p \<mapsto> \<lparr>sl_start = p, sl_inuse = 0, sl_free = sc_num cc, sl_freelist = top_object p (sc_size cc) (Suc r)\<rparr>),
     cache_at := (cache_at s)(c \<mapsto> cc\<lparr>sc_total_slabs := sc_total_slabs cc + 1,
       sc_total_objects := sc_total_objects cc + sc_num cc\<rparr>)\<rparr>"
  have pick: "pick_slab run (Some p) s c = Some (?s, Some p)"
    using ls cc(1) r m(1) h by (simp add: pick_slab_def list_empty_def lists_fresh_def slab_alloc_def)
  have "sc_num cc = of_nat (unat (sc_num cc))" by simp
  then have "sc_num cc = of_nat (Suc r)" using r by simp
  moreover have "Suc r < 2 ^ 32" using r unsigned_less [where 'a = nat and w = "sc_num cc"] by simp
  ultimately have "slab_objects ?s c p (sc_size cc) (Suc r)" using m(2) nat(1) by (simp add: slab_objects_def)
  from finish_alloc [OF cc(1) refl pick this _ assms(2) [unfolded r]] h(3) r show ?thesis by simp
qed

text \<open>A number of allocations, each of which must give an object; \<open>page\<close> is what the page allocator has.\<close>

fun alloc_all :: "slab_run \<Rightarrow> u32 \<Rightarrow> nat option \<Rightarrow> slab_state \<Rightarrow> nat \<Rightarrow> u32 \<Rightarrow> nat \<Rightarrow> (slab_state \<times> nat list) option" where
  "alloc_all run mp page s c flags 0 = Some (s, [])"
| "alloc_all run mp page s c flags (Suc n) =
     Option.bind (slab_cache_alloc run mp page s (Some c) flags) (\<lambda>(s1, obj).
     Option.bind obj (\<lambda>a.
     Option.bind (alloc_all run mp page s1 c flags n) (\<lambda>(s2, as). Some (s2, a # as))))"

lemma alloc_all_first:
  assumes "first_slab s c p sz r" and "clear_ok flags p sz r"
  shows "\<exists>s'. alloc_all run mp page s c flags r = Some (s', map (obj_addr p sz) (rev [0..<r])) \<and> first_slab s' c p sz 0"
  using assms
proof (induction r arbitrary: s)
  case (Suc r)
  from alloc_first_slab [OF Suc.prems, of run mp page] obtain s1 where
    s1: "slab_cache_alloc run mp page s (Some c) flags = Some (s1, Some (obj_addr p sz r))" "first_slab s1 c p sz r" by blast
  from Suc.IH [OF s1(2) clear_ok_mono [OF Suc.prems(2)]] s1(1) show ?case by auto
qed simp

text \<open>The objects of a slab lie behind its header, and inside the page if one of them does.\<close>

lemma objects_inside:
  assumes "objects_per_slab sz = Some num" and "unat sz \<le> 4072"
  shows "unat num * unat sz \<le> 4072"
    and "i < unat num \<Longrightarrow> p + 24 \<le> obj_addr p sz i \<and> obj_addr p sz i + unat sz \<le> p + 4096"
proof -
  note nat = objects_per_slab_nat [OF assms(1)]
  have "1 \<le> 4072 div unat sz" using assms(2) nat(1) by (simp add: Suc_le_eq div_greater_zero_iff)
  then have num: "unat num = 4072 div unat sz" using nat(2) by simp
  show fit: "unat num * unat sz \<le> 4072" unfolding num by (rule div_times_less_eq_dividend)
  assume "i < unat num"
  then have "Suc i * unat sz \<le> unat num * unat sz" by (intro mult_le_mono1) simp
  with fit have "Suc i * unat sz \<le> 4072" by (rule order_trans [rotated])
  then show "p + 24 \<le> obj_addr p sz i \<and> obj_addr p sz i + unat sz \<le> p + 4096"
    by (simp add: obj_addr_def sizeof_slab_def)
qed

lemma first_object_fits:
  assumes "objects_per_slab sz = Some num" and "n \<le> unat sz"
  shows "p + 24 \<le> obj_addr p sz (unat num - 1) \<and> (obj_addr p sz (unat num - 1) + n \<le> p + 4096 \<longleftrightarrow> n \<le> 4072)"
proof (cases "unat sz \<le> 4072")
  case True
  have "0 < unat num" using objects_per_slab_nat [OF assms(1)] by simp
  with objects_inside(2) [OF assms(1) True, of "unat num - 1" p] assms(2) True show ?thesis by simp
next
  case False
  then have "unat num = 1" using objects_per_slab_nat(2) [OF assms(1)] by simp
  then show ?thesis by (simp add: obj_addr_def sizeof_slab_def)
qed

section \<open>The general caches\<close>

definition cache_ready :: "slab_state \<Rightarrow> nat \<Rightarrow> u32 \<Rightarrow> bool" where
  "cache_ready s c sz \<longleftrightarrow> (\<exists>cc. fresh_cache s c cc \<and> sc_size cc = sz)"

text \<open>The list of caches begins with a cache or is empty.\<close>

definition cache_list_ok :: "slab_state \<Rightarrow> bool" where
  "cache_list_ok s \<longleftrightarrow> (\<exists>n. nxt (sl_links s) Cache_list = Some n \<and> (n = Cache_list \<or> (\<exists>c. n = Cache_node c)))"

lemma create_ready:
  assumes "cache_list_ok s" and "object_size sz 0 = (sz, 4)" and "sz \<noteq> 0"
  shows "\<exists>s'. slab_cache_create (Some c) s (Some nm) sz 0 flags None None = Some (s', Some c) \<and> cache_list_ok s' \<and>
    cache_ready s' c sz \<and> (\<forall>c' sz'. c' \<noteq> c \<longrightarrow> cache_ready s c' sz' \<longrightarrow> cache_ready s' c' sz') \<and>
    kmalloc_caches s' = kmalloc_caches s"
proof -
  from assms(3) obtain num where "objects_per_slab sz = Some num" by (auto simp: objects_per_slab_def Let_def)
  with assms show ?thesis
    by (auto simp: slab_cache_create_def cache_list_ok_def list_add_def list_init_def cache_ready_def fresh_cache_def lists_fresh_def)
qed

lemma cache_ready_caches [simp]: "cache_ready (s\<lparr>kmalloc_caches := xs\<rparr>) c sz = cache_ready s c sz"
  by (simp add: cache_ready_def fresh_cache_def)

lemma cache_list_ok_caches [simp]: "cache_list_ok (s\<lparr>kmalloc_caches := xs\<rparr>) = cache_list_ok s"
  by (simp add: cache_list_ok_def)

lemma init_caches_ready:
  assumes "cache_list_ok s" and "\<forall>sz\<in>set sizes. object_size sz 0 = (sz, 4) \<and> sz \<noteq> 0"
    and "length pages = length sizes" and "distinct pages" and "i + length sizes \<le> length (kmalloc_caches s)"
  shows "\<exists>s'. init_caches nm sizes i (map Some pages) s = Some s' \<and> length (kmalloc_caches s') = length (kmalloc_caches s) \<and>
    (\<forall>j<i. kmalloc_caches s' ! j = kmalloc_caches s ! j) \<and>
    (\<forall>c sz. c \<notin> set pages \<longrightarrow> cache_ready s c sz \<longrightarrow> cache_ready s' c sz) \<and>
    (\<forall>j<length sizes. kmalloc_caches s' ! (i + j) = Some (pages ! j) \<and> cache_ready s' (pages ! j) (sizes ! j))"
  using assms
proof (induction sizes arbitrary: i pages s)
  case (Cons sz sizes)
  from Cons.prems(3) obtain c ps where pages: "pages = c # ps" by (cases pages) auto
  from create_ready [OF Cons.prems(1), of sz c nm SLAB_HWCACHE_ALIGN] Cons.prems(2) obtain s1 where
    s1: "slab_cache_create (Some c) s (Some nm) sz 0 SLAB_HWCACHE_ALIGN None None = Some (s1, Some c)" "cache_list_ok s1"
      "cache_ready s1 c sz" "\<forall>c' sz'. c' \<noteq> c \<longrightarrow> cache_ready s c' sz' \<longrightarrow> cache_ready s1 c' sz'"
      "kmalloc_caches s1 = kmalloc_caches s" by auto
  let ?s = "s1\<lparr>kmalloc_caches := (kmalloc_caches s1)[i := Some c]\<rparr>"
  from Cons.IH [of ?s ps "Suc i"] Cons.prems(2-5) s1(2,5) pages obtain s' where
    s': "init_caches nm sizes (Suc i) (map Some ps) ?s = Some s'" "length (kmalloc_caches s') = length (kmalloc_caches s)"
      "\<forall>j<Suc i. kmalloc_caches s' ! j = (kmalloc_caches s)[i := Some c] ! j"
      "\<forall>c sz. c \<notin> set ps \<longrightarrow> cache_ready s1 c sz \<longrightarrow> cache_ready s' c sz"
      "\<forall>j<length sizes. kmalloc_caches s' ! (Suc i + j) = Some (ps ! j) \<and> cache_ready s' (ps ! j) (sizes ! j)" by auto
  have "kmalloc_caches s' ! (i + j) = Some (pages ! j) \<and> cache_ready s' (pages ! j) ((sz # sizes) ! j)"
    if "j < length (sz # sizes)" for j
    using that s'(3-5) s1(3) Cons.prems(4,5) pages by (cases j) auto
  moreover have "\<forall>j<i. kmalloc_caches s' ! j = kmalloc_caches s ! j" using s'(3) by simp
  moreover have "\<forall>c sz. c \<notin> set pages \<longrightarrow> cache_ready s c sz \<longrightarrow> cache_ready s' c sz" using s'(4) s1(4) pages by simp
  ultimately show ?case using s1(1) s'(1,2) pages by auto
qed simp

lemma kmalloc_sizes_exact: "\<forall>sz\<in>set kmalloc_sizes. object_size sz 0 = (sz, 4) \<and> sz \<noteq> 0"
  by (simp add: kmalloc_sizes_def object_size_def sizeof_pointer_def round_size_def)

lemma size_index_result:
  "\<exists>x\<in>set xs. sz \<le> x \<Longrightarrow> \<exists>k<length xs. size_index xs sz i = Some (i + k) \<and> sz \<le> xs ! k"
proof (induction xs arbitrary: i)
  case (Cons x xs)
  show ?case
  proof (cases "sz \<le> x")
    case False
    with Cons obtain k where "k < length xs" "size_index xs sz (Suc i) = Some (Suc i + k)" "sz \<le> xs ! k" by fastforce
    with False show ?thesis by (intro exI [of _ "Suc k"]) simp
  qed auto
qed simp

section \<open>Claims\<close>

definition no_run :: slab_run where "no_run f a m = m"

definition boot_slab :: slab_state where
  "boot_slab = \<lparr>sl_links = list_init \<lparr>nxt = Map.empty, prv = Map.empty\<rparr> Cache_list, cache_at = Map.empty, slab_at = Map.empty,
     obj_next = (\<lambda>_. None), kmalloc_caches = replicate 13 None\<rparr>"

definition sample_slab :: slab_state where
  "sample_slab = fst (the (slab_cache_create (Some 4096) boot_slab (Some ''t'') 2000 0 0 None None))"

definition sample_cache :: slab_cache where
  "sample_cache = \<lparr>sc_name = ''t'', sc_size = 2000, sc_align = 4, sc_cflags = 0, sc_num = 2, sc_total_objects = 0,
     sc_total_slabs = 0, sc_ctor = None, sc_dtor = None\<rparr>"

lemma sample_slab_fresh: "fresh_cache sample_slab 4096 sample_cache"
  by (simp add: sample_slab_def boot_slab_def slab_cache_create_def object_size_def sizeof_pointer_def round_size_def
      objects_per_slab_def page_bytes_def sizeof_slab_def list_add_def list_init_def fresh_cache_def
      lists_fresh_def sample_cache_def)

lemma obj_addr_apart:
  "obj_addr p sz i \<noteq> obj_addr p sz j \<Longrightarrow>
     obj_addr p sz i + unat sz \<le> obj_addr p sz j \<or> obj_addr p sz j + unat sz \<le> obj_addr p sz i"
proof (induction i j rule: linorder_wlog)
  case (le i j)
  then have "Suc i \<le> j" by (cases "i = j") auto
  then have "Suc i * unat sz \<le> j * unat sz" by (rule mult_le_mono1)
  then show ?case by (simp add: obj_addr_def)
qed auto

text \<open>
  C6. A cache works for exactly one slab. From a new cache without a constructor, as many allocations as
  a slab has objects succeed and return, from the last to the first, the objects laid out behind the
  header at multiples of the object size; no two of them overlap, and they lie inside the slab's page
  whenever an object fits there. But the next allocation follows a null pointer whatever the page
  allocator has, because the full slab is still on the list of free ones. This holds with and without
  clearing, where clearing is asked for only of objects that fit and the page is aligned.
\<close>

theorem slab_cache_one_slab:
  assumes "fresh_cache s c cc" and "flags AND MEM_ZERO \<noteq> 0 \<longrightarrow> 4096 dvd p \<and> unat (sc_size cc) \<le> 4072"
  shows "\<exists>s' objs. alloc_all run mp (Some p) s c flags (unat (sc_num cc)) = Some (s', objs) \<and>
    objs = map (\<lambda>i. p + 24 + i * unat (sc_size cc)) (rev [0..<unat (sc_num cc)]) \<and> distinct objs \<and>
    (\<forall>a\<in>set objs. \<forall>b\<in>set objs. a \<noteq> b \<longrightarrow> a + unat (sc_size cc) \<le> b \<or> b + unat (sc_size cc) \<le> a) \<and>
    (unat (sc_size cc) \<le> 4072 \<longrightarrow> (\<forall>a\<in>set objs. p + 24 \<le> a \<and> a + unat (sc_size cc) \<le> p + 4096)) \<and>
    slab_cache_alloc run mp page s' (Some c) flags = None"
proof -
  let ?sz = "sc_size cc"
  have num: "objects_per_slab ?sz = Some (sc_num cc)" using assms(1) by (simp add: fresh_cache_def)
  note nat = objects_per_slab_nat [OF num]
  then have "0 < unat (sc_num cc)" by simp
  then obtain r where r: "unat (sc_num cc) = Suc r" using gr0_implies_Suc by blast
  have ok: "clear_ok flags p ?sz (unat (sc_num cc))"
    using assms(2) objects_inside(1) [OF num] by (auto simp: clear_ok_def)
  from alloc_fresh [OF assms(1) ok, of run mp] r obtain s1 where
    s1: "slab_cache_alloc run mp (Some p) s (Some c) flags = Some (s1, Some (obj_addr p ?sz r))" "first_slab s1 c p ?sz r" by auto
  from alloc_all_first [OF s1(2) clear_ok_mono [OF ok], of run mp "Some p"] r obtain s' where
    s': "alloc_all run mp (Some p) s1 c flags r = Some (s', map (obj_addr p ?sz) (rev [0..<r]))" "first_slab s' c p ?sz 0" by auto
  let ?objs = "map (obj_addr p ?sz) (rev [0..<Suc r])"
  have "alloc_all run mp (Some p) s c flags (Suc r) = Some (s', ?objs)" using s1(1) s'(1) by simp
  moreover have "?objs = map (\<lambda>i. p + 24 + i * unat ?sz) (rev [0..<Suc r])"
    by (simp add: obj_addr_def [abs_def] sizeof_slab_def)
  moreover have "distinct ?objs" using nat(1) by (auto simp: distinct_map inj_on_def obj_addr_inj)
  moreover have "\<forall>a\<in>set ?objs. \<forall>b\<in>set ?objs. a \<noteq> b \<longrightarrow> a + unat ?sz \<le> b \<or> b + unat ?sz \<le> a"
    using obj_addr_apart by (fastforce simp del: upt_Suc)
  moreover have "\<forall>a\<in>set ?objs. p + 24 \<le> a \<and> a + unat ?sz \<le> p + 4096" if "unat ?sz \<le> 4072"
    using objects_inside(2) [OF num that, of _ p] r by (auto simp del: upt_Suc)
  moreover have "slab_cache_alloc run mp page s' (Some c) flags = None" by (rule alloc_first_full [OF s'(2)])
  ultimately show ?thesis using r by (intro exI [of _ s'] exI [of _ ?objs]) (simp del: upt_Suc)
qed

theorem slab_cache_one_slab_witness:
  "\<exists>s' objs. alloc_all no_run 16 (Some 8192) sample_slab 4096 MEM_ZERO 2 = Some (s', objs) \<and>
     objs = [8192 + 24 + unat (sc_size sample_cache), 8192 + 24] \<and>
     slab_cache_alloc no_run 16 (Some 12288) s' (Some 4096) MEM_ZERO = None"
proof -
  have n: "unat (sc_num sample_cache) = 2"
    and z: "MEM_ZERO AND MEM_ZERO \<noteq> 0 \<longrightarrow> (4096 :: nat) dvd 8192 \<and> unat (sc_size sample_cache) \<le> 4072"
    by (simp_all add: sample_cache_def)
  show ?thesis using slab_cache_one_slab [OF sample_slab_fresh z, of no_run 16 "Some 12288"] unfolding n by (auto simp: upt_rec)
qed

text \<open>
  Where the first object of each size lies. \<^verbatim>\<open>slab_init\<close> with thirteen different pages succeeds, and
  afterwards \<^verbatim>\<open>kmalloc\<close> without clearing serves every size up to 131072 bytes behind the header of the one
  page it gets; the object lies inside that page exactly if at most 4072 bytes were asked for.
\<close>

theorem kmalloc_overruns_page:
  assumes "nxt (sl_links s) Cache_list = Some Cache_list" and "length (kmalloc_caches s) = 13"
    and "length pages = 13" and "distinct pages" and "0 < sz" and "sz \<le> 131072"
    and "flags AND MEM_ZERO = 0" and "mm 1 (MEM_KERNEL OR MEM_ZERO) = Some p"
  shows "\<exists>s1 s2 a. slab_init nm (map Some pages) s = Some s1 \<and> kmalloc run mp mm s1 sz flags = Some (s2, Some a) \<and>
    p + 24 \<le> a \<and> (a + unat sz \<le> p + 4096 \<longleftrightarrow> sz \<le> 4072)"
proof -
  have "length kmalloc_sizes = 13" by (simp add: kmalloc_sizes_def)
  with init_caches_ready [OF _ kmalloc_sizes_exact, of s pages 0 nm] assms(1-4) obtain s1 where
    s1: "slab_init nm (map Some pages) s = Some s1" "length (kmalloc_caches s1) = 13"
      "\<forall>j<13. kmalloc_caches s1 ! j = Some (pages ! j) \<and> cache_ready s1 (pages ! j) (kmalloc_sizes ! j)"
    by (auto simp: cache_list_ok_def slab_init_def)
  have "\<exists>x\<in>set kmalloc_sizes. sz \<le> x" using assms(6) by (simp add: kmalloc_sizes_def)
  from size_index_result [OF this, of 0] obtain k where
    k: "k < 13" "size_index kmalloc_sizes sz 0 = Some k" "sz \<le> kmalloc_sizes ! k" by (auto simp: kmalloc_sizes_def)
  from s1(3) k(1) obtain cc where cc: "fresh_cache s1 (pages ! k) cc" "sz \<le> sc_size cc" "kmalloc_caches s1 ! k = Some (pages ! k)"
    using k(3) by (auto simp: cache_ready_def)
  have num: "objects_per_slab (sc_size cc) = Some (sc_num cc)" using cc(1) by (simp add: fresh_cache_def)
  let ?a = "obj_addr p (sc_size cc) (unat (sc_num cc) - 1)"
  have "clear_ok flags p (sc_size cc) (unat (sc_num cc))" using assms(7) by (simp add: clear_ok_def)
  from alloc_fresh [OF cc(1) this, of run mp] obtain s2 where
    "slab_cache_alloc run mp (Some p) s1 (Some (pages ! k)) flags = Some (s2, Some ?a)" by blast
  then have "kmalloc run mp mm s1 sz flags = Some (s2, Some ?a)"
    using k(1,2) s1(2) cc(3) assms(5,8) by (simp add: kmalloc_def)
  moreover have "p + 24 \<le> ?a \<and> (?a + unat sz \<le> p + 4096 \<longleftrightarrow> unat sz \<le> 4072)"
    using first_object_fits [OF num] cc(2) by (simp add: word_le_nat_alt)
  ultimately show ?thesis using s1(1) by (auto simp: word_le_nat_alt)
qed

theorem kmalloc_overruns_page_witness:
  "\<exists>s1 s2 a. slab_init ''kmalloc'' (map Some [1..<14]) boot_slab = Some s1 \<and>
     kmalloc no_run 16 (\<lambda>_ _. Some 8192) s1 5000 0 = Some (s2, Some a) \<and> 8192 + 24 \<le> a \<and> \<not> a + unat (5000 :: u32) \<le> 8192 + 4096"
  using kmalloc_overruns_page [of boot_slab "[1..<14]" 5000 0 "\<lambda>_ _. Some 8192" 8192 "''kmalloc''" no_run 16]
  by (simp add: boot_slab_def list_init_def)

end
