(* ===== verification/Page_Bitmap.thy ===== *)
theory Page_Bitmap
  imports Horizon_Prelude
begin

text \<open>
  The page allocator of \<^verbatim>\<open>mm/memory.c\<close>: one bit per page, the bit map lying at the start of the memory it
  manages. Memory is a function from addresses to bytes, so that the map and the pages handed out share
  it; an address is a 32-bit word and 0 is the null pointer. Page numbers and loop counters are natural
  numbers where the loop bounds keep them small, and words where they can wrap.

  The claims are that an allocation returns the lowest free run of pages if there is one, that every run
  of allocations and releases keeps the blocks disjoint and the counter exact, and that \<^verbatim>\<open>kfree\<close> loses all
  pages of an object but the first.
\<close>

section \<open>The allocator\<close>

record mm_state =
  mem_start :: u32
  mem_end :: u32
  mm_total_pages :: u32
  mm_free_pages_left :: u32
  page_bitmap :: u32
  mem_bytes :: "u32 \<Rightarrow> u8"

definition mm_page_size :: nat where "mm_page_size = 4096"
definition MEM_ZERO_FLAG :: u32 where "MEM_ZERO_FLAG = 8"
definition MEM_KERNEL_FLAG :: u32 where "MEM_KERNEL_FLAG = 1"

text \<open>The loops that store zero in \<open>n\<close> bytes.\<close>

fun zero_bytes :: "(u32 \<Rightarrow> u8) \<Rightarrow> u32 \<Rightarrow> nat \<Rightarrow> u32 \<Rightarrow> u8" where
  "zero_bytes m p 0 = m"
| "zero_bytes m p (Suc n) = zero_bytes (m(p := 0)) (p + 1) n"

definition page_used :: "mm_state \<Rightarrow> nat \<Rightarrow> bool" where
  "page_used s i \<longleftrightarrow> mem_bytes s (page_bitmap s + of_nat (i div 8)) AND push_bit (i mod 8) 1 \<noteq> 0"

definition mark_page_used :: "mm_state \<Rightarrow> nat \<Rightarrow> mm_state" where
  "mark_page_used s i =
     (let p = page_bitmap s + of_nat (i div 8)
      in s\<lparr>mem_bytes := (mem_bytes s)(p := mem_bytes s p OR push_bit (i mod 8) 1)\<rparr>)"

definition mark_page_free :: "mm_state \<Rightarrow> nat \<Rightarrow> mm_state" where
  "mark_page_free s i =
     (let p = page_bitmap s + of_nat (i div 8)
      in s\<lparr>mem_bytes := (mem_bytes s)(p := mem_bytes s p AND NOT (push_bit (i mod 8) 1))\<rparr>)"

text \<open>Marking \<open>n\<close> pages from \<open>page\<close> on.\<close>

fun mark_pages :: "mm_state \<Rightarrow> nat \<Rightarrow> nat \<Rightarrow> mm_state" where
  "mark_pages s page 0 = s"
| "mark_pages s page (Suc n) = mark_pages (mark_page_used s page) (Suc page) n"

definition mm_init :: "mm_state \<Rightarrow> mm_state" where
  "mm_init s =
     (let start = 0x100000; end = 0x1000000;
          total = (end - start) div of_nat mm_page_size;
          bitmap_size = (total + 7) div 8;
          s1 = s\<lparr>mem_start := start, mem_end := end, mm_total_pages := total, mm_free_pages_left := total, page_bitmap := start\<rparr>;
          s2 = s1\<lparr>mem_bytes := zero_bytes (mem_bytes s1) (page_bitmap s1) (unat bitmap_size)\<rparr>;
          bitmap_pages = (bitmap_size + of_nat mm_page_size - 1) div of_nat mm_page_size;
          s3 = mark_pages s2 0 (unat bitmap_pages)
      in s3\<lparr>mm_free_pages_left := mm_free_pages_left s3 - bitmap_pages\<rparr>)"

text \<open>
  The search of \<^verbatim>\<open>mm_alloc_pages\<close>: \<open>n\<close> pages from \<open>i\<close> on are left, the run that may become the block starts at
  \<open>start_page\<close> and has \<open>found_pages\<close> pages so far.
\<close>

fun find_pages :: "mm_state \<Rightarrow> nat \<Rightarrow> nat \<Rightarrow> nat \<Rightarrow> nat \<Rightarrow> nat \<Rightarrow> nat option" where
  "find_pages s count i start_page found_pages 0 = None"
| "find_pages s count i start_page found_pages (Suc n) =
     (if page_used s i then find_pages s count (Suc i) (Suc i) 0 n
      else if Suc found_pages = count then Some start_page
      else find_pages s count (Suc i) start_page (Suc found_pages) n)"

definition mm_alloc_pages :: "mm_state \<Rightarrow> u32 \<Rightarrow> u32 \<Rightarrow> mm_state \<times> u32" where
  "mm_alloc_pages s count flags =
     (if count = 0 then (s, 0)
      else if count > mm_free_pages_left s then (s, 0)
      else case find_pages s (unat count) 0 0 0 (unat (mm_total_pages s)) of
        None \<Rightarrow> (s, 0)
      | Some start_page \<Rightarrow>
          let s1 = mark_pages s start_page (unat count)
          in (s1\<lparr>mm_free_pages_left := mm_free_pages_left s1 - count\<rparr>, mem_start s + of_nat start_page * of_nat mm_page_size))"

fun free_loop :: "mm_state \<Rightarrow> u32 \<Rightarrow> nat \<Rightarrow> mm_state" where
  "free_loop s p 0 = s"
| "free_loop s p (Suc n) =
     free_loop
       (if p < mm_total_pages s \<and> page_used s (unat p)
        then (mark_page_free s (unat p))\<lparr>mm_free_pages_left := mm_free_pages_left s + 1\<rparr> else s)
       (p + 1) n"

definition mm_free_pages :: "mm_state \<Rightarrow> u32 \<Rightarrow> u32 \<Rightarrow> mm_state" where
  "mm_free_pages s addr count =
     (if addr = 0 \<or> count = 0 then s
      else free_loop s ((addr - mem_start s) div of_nat mm_page_size) (unat count))"

definition kmalloc_mm :: "mm_state \<Rightarrow> u32 \<Rightarrow> u32 \<Rightarrow> mm_state \<times> u32" where
  "kmalloc_mm s sz flags =
     (if sz = 0 then (s, 0)
      else
        let pages = (sz + of_nat mm_page_size - 1) div of_nat mm_page_size
        in case mm_alloc_pages s pages flags of
             (s1, addr) \<Rightarrow>
               (if addr \<noteq> 0 \<and> flags AND MEM_ZERO_FLAG \<noteq> 0
                then s1\<lparr>mem_bytes := zero_bytes (mem_bytes s1) addr (unat (pages * of_nat mm_page_size))\<rparr> else s1,
                addr))"

definition kfree_mm :: "mm_state \<Rightarrow> u32 \<Rightarrow> mm_state" where
  "kfree_mm s addr = (if addr = 0 then s else mm_free_pages s addr 1)"

definition vmalloc_mm :: "mm_state \<Rightarrow> u32 \<Rightarrow> mm_state \<times> u32" where
  "vmalloc_mm s sz = kmalloc_mm s sz MEM_KERNEL_FLAG"

definition vfree_mm :: "mm_state \<Rightarrow> u32 \<Rightarrow> mm_state" where
  "vfree_mm s addr = kfree_mm s addr"

section \<open>The invariant\<close>

text \<open>The pages marked as used, among the 3840 there are.\<close>

definition used_pages :: "mm_state \<Rightarrow> nat set" where
  "used_pages s = {i. i < 3840 \<and> page_used s i}"

definition mm_inv :: "mm_state \<Rightarrow> bool" where
  "mm_inv s \<longleftrightarrow> mem_start s = 0x100000 \<and> page_bitmap s = 0x100000 \<and> mm_total_pages s = 3840 \<and>
     unat (mm_free_pages_left s) + card (used_pages s) = 3840"

lemma used_pages_less: "i \<in> used_pages s \<Longrightarrow> i < 3840"
  by (simp add: used_pages_def)

lemma finite_used [simp]: "finite (used_pages s)"
  by (rule finite_subset [of _ "{..<3840}"]) (auto simp: used_pages_def)

lemma card_used: "card (used_pages s) \<le> 3840"
  using card_mono [of "{..<3840}" "used_pages s"] by (auto simp: used_pages_def)

lemma used_bit: "page_used s i \<longleftrightarrow> bit (mem_bytes s (page_bitmap s + of_nat (i div 8))) (i mod 8)"
  by (simp add: page_used_def and_exp_eq_0_iff_not_bit)

lemma byte_addr: "i < 3840 \<Longrightarrow> j < 3840 \<Longrightarrow> (of_nat (i div 8) :: u32) = of_nat (j div 8) \<longleftrightarrow> i div 8 = j div 8"
  by (simp add: word_unat_eq_iff unsigned_of_nat take_bit_nat_eq_self)

lemma bit_of_byte: "bit (2 ^ (i mod 8) :: u8) (j mod 8) \<longleftrightarrow> i mod 8 = j mod 8"
  by (auto simp: bit_exp_iff)

lemma div_mod_8_eq: "i div 8 = j div 8 \<Longrightarrow> i mod 8 = j mod 8 \<Longrightarrow> i = (j :: nat)"
  by (metis div_mult_mod_eq)

lemma mark_page_used_used:
  assumes "i < 3840" and "j < 3840"
  shows "page_used (mark_page_used s i) j \<longleftrightarrow> j = i \<or> page_used s j"
  using assms by (auto simp: used_bit mark_page_used_def Let_def byte_addr bit_or_iff bit_of_byte dest: div_mod_8_eq)

lemma mark_page_free_used:
  assumes "i < 3840" and "j < 3840"
  shows "page_used (mark_page_free s i) j \<longleftrightarrow> j \<noteq> i \<and> page_used s j"
  using assms by (auto simp: used_bit mark_page_free_def Let_def byte_addr bit_and_iff bit_not_iff bit_of_byte dest: div_mod_8_eq)

lemma page_used_free_left [simp]: "page_used (s\<lparr>mm_free_pages_left := n\<rparr>) j = page_used s j"
  by (simp add: page_used_def)

lemma used_pages_free_left [simp]: "used_pages (s\<lparr>mm_free_pages_left := n\<rparr>) = used_pages s"
  by (simp add: used_pages_def)

lemma used_mark: "i < 3840 \<Longrightarrow> used_pages (mark_page_used s i) = insert i (used_pages s)"
  by (auto simp: used_pages_def mark_page_used_used)

lemma used_unmark: "i < 3840 \<Longrightarrow> used_pages (mark_page_free s i) = used_pages s - {i}"
  by (auto simp: used_pages_def mark_page_free_used)

lemma mark_fields [simp]:
  "mem_start (mark_page_used s i) = mem_start s" "page_bitmap (mark_page_used s i) = page_bitmap s"
  "mm_total_pages (mark_page_used s i) = mm_total_pages s" "mm_free_pages_left (mark_page_used s i) = mm_free_pages_left s"
  "mem_start (mark_page_free s i) = mem_start s" "page_bitmap (mark_page_free s i) = page_bitmap s"
  "mm_total_pages (mark_page_free s i) = mm_total_pages s" "mm_free_pages_left (mark_page_free s i) = mm_free_pages_left s"
  by (simp_all add: mark_page_used_def mark_page_free_def Let_def)

lemma mark_pages_fields [simp]:
  "mem_start (mark_pages s p n) = mem_start s" "page_bitmap (mark_pages s p n) = page_bitmap s"
  "mm_total_pages (mark_pages s p n) = mm_total_pages s" "mm_free_pages_left (mark_pages s p n) = mm_free_pages_left s"
  by (induction s p n rule: mark_pages.induct) simp_all

lemma used_mark_pages: "p + n \<le> 3840 \<Longrightarrow> used_pages (mark_pages s p n) = used_pages s \<union> {p..<p + n}"
proof (induction s p n rule: mark_pages.induct)
  case (2 s p n)
  moreover have "{p..<p + Suc n} = insert p {Suc p..<Suc p + n}" by auto
  ultimately show ?case by (simp add: used_mark)
qed simp

section \<open>Allocation\<close>

definition free_run :: "mm_state \<Rightarrow> nat \<Rightarrow> nat \<Rightarrow> bool" where
  "free_run s b n \<longleftrightarrow> b + n \<le> 3840 \<and> {b..<b + n} \<inter> used_pages s = {}"

lemma find_pages_result:
  assumes "i + n = 3840" and "start + found = i" and "found < count" and "\<forall>b < start. \<not> free_run s b count"
    and "{start..<i} \<inter> used_pages s = {}"
  shows "case find_pages s count i start found n of
      None \<Rightarrow> \<forall>b. \<not> free_run s b count
    | Some b \<Rightarrow> free_run s b count \<and> (\<forall>c<b. \<not> free_run s c count)"
  using assms
proof (induction n arbitrary: i start found)
  case 0
  have "\<not> free_run s b count" for b
    using 0 by (cases "b < start") (auto simp: free_run_def)
  then show ?case by simp
next
  case (Suc n)
  have i: "i < 3840" using Suc.prems(1) by simp
  show ?case
  proof (cases "page_used s i")
    case True
    then have u: "i \<in> used_pages s" using i by (simp add: used_pages_def)
    have "\<not> free_run s b count" if "b < Suc i" for b
    proof (cases "b < start")
      case False
      then have "i \<in> {b..<b + count}" using that Suc.prems(2,3) by auto
      then show ?thesis using u by (auto simp: free_run_def)
    qed (use Suc.prems(4) in blast)
    then show ?thesis using Suc.IH [of "Suc i" "Suc i" 0] Suc.prems True by simp
  next
    case False
    then have f: "{start..<Suc i} \<inter> used_pages s = {}"
      using Suc.prems(2,5) by (auto simp: used_pages_def less_Suc_eq)
    show ?thesis
    proof (cases "Suc found = count")
      case True
      then have e: "start + count = Suc i" using Suc.prems(2) by simp
      then have "free_run s start count" using f Suc.prems(1) unfolding free_run_def e by simp
      then show ?thesis using False True Suc.prems(4) by simp
    next
      case neq: False
      then show ?thesis using Suc.IH [of "Suc i" start "Suc found"] Suc.prems False f by simp
    qed
  qed
qed

lemma card_free_run:
  assumes "free_run s b n"
  shows "n + card (used_pages s) \<le> 3840" and "card (used_pages s \<union> {b..<b + n}) = card (used_pages s) + n"
proof -
  have d: "used_pages s \<inter> {b..<b + n} = {}" using assms by (auto simp: free_run_def)
  show c: "card (used_pages s \<union> {b..<b + n}) = card (used_pages s) + n"
    using card_Un_disjoint [of "used_pages s" "{b..<b + n}"] d by simp
  have "used_pages s \<union> {b..<b + n} \<subseteq> {..<3840}" using assms by (auto simp: free_run_def used_pages_def)
  from card_mono [OF _ this] c show "n + card (used_pages s) \<le> 3840" by simp
qed

definition frame_addr :: "nat \<Rightarrow> u32" where
  "frame_addr b = 0x100000 + of_nat (b * 4096)"

lemma frame_addr_unat: "b < 3840 \<Longrightarrow> unat (frame_addr b) = 0x100000 + b * 4096"
  by (simp add: frame_addr_def unat_word_ariths unsigned_of_nat take_bit_nat_eq_self)

lemma frame_addr_nonzero: "b < 3840 \<Longrightarrow> frame_addr b \<noteq> 0"
  using frame_addr_unat [of b] by auto

text \<open>The block taken by an allocation, and the state after it.\<close>

definition take_run :: "mm_state \<Rightarrow> nat \<Rightarrow> u32 \<Rightarrow> mm_state" where
  "take_run s b count =
     (let s1 = mark_pages s b (unat count) in s1\<lparr>mm_free_pages_left := mm_free_pages_left s1 - count\<rparr>)"

lemma take_run_inv:
  assumes "mm_inv s" and "free_run s b (unat count)"
  shows "mm_inv (take_run s b count)" and "used_pages (take_run s b count) = used_pages s \<union> {b..<b + unat count}"
proof -
  note c = card_free_run [OF assms(2)]
  show u: "used_pages (take_run s b count) = used_pages s \<union> {b..<b + unat count}"
    using assms(2) by (simp add: take_run_def Let_def used_mark_pages free_run_def)
  have "unat (mm_free_pages_left s - count) = unat (mm_free_pages_left s) - unat count"
    using c(1) assms(1) by (intro unat_sub) (simp add: word_le_nat_alt mm_inv_def)
  then show "mm_inv (take_run s b count)"
    using assms(1) c unfolding mm_inv_def u by (simp add: take_run_def Let_def)
qed

lemma mm_alloc_result:
  assumes "mm_inv s" and "count \<noteq> 0"
  shows "(\<forall>b. \<not> free_run s b (unat count)) \<and> mm_alloc_pages s count flags = (s, 0) \<or>
    (\<exists>b. free_run s b (unat count) \<and> (\<forall>c<b. \<not> free_run s c (unat count)) \<and>
      mm_alloc_pages s count flags = (take_run s b count, frame_addr b))"
proof (cases "count > mm_free_pages_left s")
  case True
  have "\<not> free_run s b (unat count)" for b
    using card_free_run(1) [of s b "unat count"] assms(1) True by (auto simp: mm_inv_def word_less_nat_alt)
  then show ?thesis using True assms(2) by (simp add: mm_alloc_pages_def)
next
  case False
  have "0 < unat count" using assms(2) by (simp add: unat_gt_0)
  then have r: "case find_pages s (unat count) 0 0 0 3840 of
      None \<Rightarrow> \<forall>b. \<not> free_run s b (unat count)
    | Some b \<Rightarrow> free_run s b (unat count) \<and> (\<forall>c<b. \<not> free_run s c (unat count))"
    by (intro find_pages_result) simp_all
  have t: "unat (mm_total_pages s) = 3840" "mem_start s = 0x100000" using assms(1) by (simp_all add: mm_inv_def)
  show ?thesis
  proof (cases "find_pages s (unat count) 0 0 0 3840")
    case None
    then show ?thesis using r False assms(2) t by (simp add: mm_alloc_pages_def)
  next
    case (Some b)
    then have "mm_alloc_pages s count flags = (take_run s b count, frame_addr b)"
      using False assms(2) t by (simp add: mm_alloc_pages_def take_run_def frame_addr_def Let_def mm_page_size_def)
    then show ?thesis using r Some by auto
  qed
qed

section \<open>Release\<close>

lemma free_step_inv:
  assumes "mm_inv s" and "i \<in> used_pages s"
  shows "mm_inv ((mark_page_free s i)\<lparr>mm_free_pages_left := mm_free_pages_left s + 1\<rparr>)"
proof -
  have i: "i < 3840" using assms(2) by (rule used_pages_less)
  have "0 < card (used_pages s)" using assms(2) by (auto simp: card_gt_0_iff)
  then have "unat (mm_free_pages_left s + 1) = unat (mm_free_pages_left s) + 1"
    using assms(1) by (simp add: mm_inv_def unat_word_ariths)
  with assms(1) \<open>0 < card (used_pages s)\<close> show ?thesis
    by (simp add: mm_inv_def used_unmark [OF i] card_Diff_singleton [OF assms(2)])
qed

lemma free_loop_result:
  assumes "mm_inv s" and "unat p + n \<le> 3840"
  shows "mm_inv (free_loop s p n) \<and> used_pages (free_loop s p n) = used_pages s - {unat p..<unat p + n}"
  using assms
proof (induction n arbitrary: s p)
  case (Suc n)
  have p: "unat p < 3840" and p1: "unat (p + 1) = Suc (unat p)"
    using Suc.prems(2) by (simp_all add: unat_word_ariths)
  have t: "p < mm_total_pages s" using Suc.prems(1) p by (simp add: mm_inv_def word_less_nat_alt)
  have e: "{unat p..<unat p + Suc n} = insert (unat p) {unat (p + 1)..<unat (p + 1) + n}" unfolding p1 by auto
  show ?case
  proof (cases "page_used s (unat p)")
    case True
    let ?s = "(mark_page_free s (unat p))\<lparr>mm_free_pages_left := mm_free_pages_left s + 1\<rparr>"
    have "mm_inv ?s" using Suc.prems(1) True p by (intro free_step_inv) (simp_all add: used_pages_def)
    then have "mm_inv (free_loop ?s (p + 1) n) \<and> used_pages (free_loop ?s (p + 1) n) = used_pages ?s - {unat (p + 1)..<unat (p + 1) + n}"
      using Suc.prems(2) p1 by (intro Suc.IH) simp_all
    then show ?thesis using True t unfolding e by (auto simp: used_unmark [OF p])
  next
    case False
    then have "unat p \<notin> used_pages s" by (simp add: used_pages_def)
    moreover have "mm_inv (free_loop s (p + 1) n) \<and> used_pages (free_loop s (p + 1) n) = used_pages s - {unat (p + 1)..<unat (p + 1) + n}"
      using Suc.prems p1 by (intro Suc.IH) simp_all
    ultimately show ?thesis using False unfolding e by auto
  qed
qed simp

lemma mm_free_result:
  assumes "mm_inv s" and "b + unat count \<le> 3840" and "b < 3840"
  shows "mm_inv (mm_free_pages s (frame_addr b) count) \<and> used_pages (mm_free_pages s (frame_addr b) count) = used_pages s - {b..<b + unat count}"
proof (cases "count = 0")
  case False
  have "unat ((frame_addr b - mem_start s) div of_nat mm_page_size) = b"
    using assms(1,3) by (simp add: frame_addr_def mm_inv_def mm_page_size_def unat_div unat_word_ariths unsigned_of_nat take_bit_nat_eq_self)
  then show ?thesis
    using False frame_addr_nonzero [OF assms(3)] free_loop_result [OF assms(1), of "(frame_addr b - mem_start s) div of_nat mm_page_size" "unat count"] assms(2)
    by (simp add: mm_free_pages_def)
qed (use assms in \<open>simp add: mm_free_pages_def\<close>)

section \<open>Clearing\<close>

lemma zero_bytes_result: "n \<le> 2 ^ 32 \<Longrightarrow> zero_bytes m p n a = (if unat (a - p) < n then 0 else m a)"
proof (induction n arbitrary: m p)
  case (Suc n)
  show ?case
  proof (cases "a = p")
    case False
    have "a - (p + 1) = (a - p) - 1" by simp
    then have "unat (a - (p + 1)) = unat (a - p) - 1" and "0 < unat (a - p)"
      using False by (simp_all only: unat_minus_one unat_gt_0) (simp_all add: unat_minus_one unat_gt_0)
    then show ?thesis using Suc False by auto
  next
    case True
    then show ?thesis using Suc by simp
  qed
qed simp

text \<open>Bytes of the map are outside every page but the first.\<close>

lemma map_byte_outside:
  assumes "1 \<le> b" and "b + n \<le> 3840" and "k < 480"
  shows "\<not> unat (0x100000 + of_nat k - frame_addr b :: u32) < n * 4096"
proof -
  have "0x100000 + of_nat k - frame_addr b = (of_nat (2 ^ 32 + k - b * 4096) :: u32)"
    using assms by (simp add: frame_addr_def of_nat_diff)
  moreover have "2 ^ 32 + k - b * 4096 < 2 ^ 32" using assms by simp
  ultimately have "unat (0x100000 + of_nat k - frame_addr b :: u32) = 2 ^ 32 + k - b * 4096"
    by (simp add: unsigned_of_nat take_bit_nat_eq_self)
  then show ?thesis using assms by simp
qed

text \<open>The owner of a block may store anything in it.\<close>

definition in_block :: "u32 \<Rightarrow> u32 \<Rightarrow> u32 \<Rightarrow> bool" where
  "in_block a c x \<longleftrightarrow> unat (x - a) < unat c * 4096"

lemma outside_map_used:
  assumes "mm_inv s" and "1 \<le> b" and "b + unat c \<le> 3840" and "\<forall>x. \<not> in_block (frame_addr b) c x \<longrightarrow> m x = mem_bytes s x"
  shows "used_pages (s\<lparr>mem_bytes := m\<rparr>) = used_pages s" and "mm_inv (s\<lparr>mem_bytes := m\<rparr>)"
proof -
  have "m (0x100000 + of_nat (i div 8)) = mem_bytes s (0x100000 + of_nat (i div 8))" if "i < 3840" for i
    using map_byte_outside [OF assms(2,3), of "i div 8"] assms(4) that by (simp add: in_block_def)
  moreover have "page_bitmap s = 0x100000" using assms(1) by (simp add: mm_inv_def)
  ultimately show u: "used_pages (s\<lparr>mem_bytes := m\<rparr>) = used_pages s"
    by (auto simp: used_pages_def page_used_def)
  show "mm_inv (s\<lparr>mem_bytes := m\<rparr>)" using assms(1) unfolding mm_inv_def u by simp
qed

lemma kmalloc_result:
  assumes "mm_inv s" and "0 \<in> used_pages s" and "kmalloc_mm s sz flags = (s', a)" and "a \<noteq> 0"
  defines "pages \<equiv> (sz + 4095) div 4096 :: u32"
  shows "\<exists>b. a = frame_addr b \<and> 1 \<le> b \<and> pages \<noteq> 0 \<and> free_run s b (unat pages) \<and> mm_inv s' \<and>
    used_pages s' = used_pages s \<union> {b..<b + unat pages} \<and>
    (flags AND MEM_ZERO_FLAG \<noteq> 0 \<longrightarrow> (\<forall>x. in_block a pages x \<longrightarrow> mem_bytes s' x = 0))"
proof -
  have km: "kmalloc_mm s sz flags = (case mm_alloc_pages s pages flags of (s1, addr) \<Rightarrow>
      (if addr \<noteq> 0 \<and> flags AND MEM_ZERO_FLAG \<noteq> 0
       then s1\<lparr>mem_bytes := zero_bytes (mem_bytes s1) addr (unat (pages * 4096))\<rparr> else s1, addr))"
  proof -
    have "sz \<noteq> 0" using assms(3,4) by (auto simp: kmalloc_mm_def)
    moreover have ps: "of_nat mm_page_size = (4096 :: u32)" "sz + 4096 - 1 = sz + 4095" by (simp_all add: mm_page_size_def)
    ultimately show ?thesis unfolding kmalloc_mm_def pages_def Let_def ps by simp
  qed
  have nz: "pages \<noteq> 0" using assms(3,4) unfolding km by (auto simp: mm_alloc_pages_def)
  from mm_alloc_result [OF assms(1) nz, of flags] obtain b where
    b: "free_run s b (unat pages)" "mm_alloc_pages s pages flags = (take_run s b pages, frame_addr b)"
    using assms(3,4) unfolding km by (auto split: if_splits)
  have a: "a = frame_addr b" using assms(3) b(2) unfolding km by simp
  note t = take_run_inv [OF assms(1) b(1)]
  have "0 \<notin> {b..<b + unat pages}" using b(1) assms(2) unfolding free_run_def by blast
  then have b1: "1 \<le> b" using nz by (cases b) (simp_all add: unat_gt_0)
  have le: "b + unat pages \<le> 3840" using b(1) by (simp add: free_run_def)
  then have n: "unat (pages * 4096) = unat pages * 4096" by (simp add: unat_word_ariths)
  let ?m = "zero_bytes (mem_bytes (take_run s b pages)) (frame_addr b) (unat pages * 4096)"
  have z: "?m x = (if in_block (frame_addr b) pages x then 0 else mem_bytes (take_run s b pages) x)" for x
    using le by (simp add: zero_bytes_result in_block_def)
  have s': "s' = (if flags AND MEM_ZERO_FLAG \<noteq> 0 then (take_run s b pages)\<lparr>mem_bytes := ?m\<rparr> else take_run s b pages)"
    using assms(3,4) b(2) a unfolding km n by simp
  have "mm_inv s'" "used_pages s' = used_pages (take_run s b pages)"
    using outside_map_used [OF t(1) b1 le, of ?m] t(1) z unfolding s' by auto
  then show ?thesis using a b1 nz b(1) t(2) s' z by auto
qed

section \<open>Runs\<close>

text \<open>
  The states reached from \<^verbatim>\<open>mm_init\<close>, with the blocks held, as address and number of pages: a block is
  allocated, written by its owner, and released once, with its size.
\<close>

inductive mm_run :: "mm_state \<Rightarrow> (u32 \<times> u32) set \<Rightarrow> bool" where
  boot: "mm_run (mm_init s0) {}"
| pages: "mm_run s H \<Longrightarrow> mm_alloc_pages s c flags = (s', a) \<Longrightarrow> a \<noteq> 0 \<Longrightarrow> mm_run s' (insert (a, c) H)"
| object: "mm_run s H \<Longrightarrow> kmalloc_mm s sz flags = (s', a) \<Longrightarrow> a \<noteq> 0 \<Longrightarrow> mm_run s' (insert (a, (sz + 4095) div 4096) H)"
| failed: "mm_run s H \<Longrightarrow> mm_alloc_pages s c flags = (s', 0) \<Longrightarrow> mm_run s' H"
| store: "mm_run s H \<Longrightarrow> (a, c) \<in> H \<Longrightarrow> \<forall>x. \<not> in_block a c x \<longrightarrow> m x = mem_bytes s x \<Longrightarrow> mm_run (s\<lparr>mem_bytes := m\<rparr>) H"
| release: "mm_run s H \<Longrightarrow> (a, c) \<in> H \<Longrightarrow> mm_run (mm_free_pages s a c) (H - {(a, c)})"

text \<open>The pages of a block.\<close>

definition block_pages :: "u32 \<times> u32 \<Rightarrow> nat set" where
  "block_pages x = (let b = unat (fst x - 0x100000) div 4096 in {b..<b + unat (snd x)})"

lemma block_pages_addr: "b < 3840 \<Longrightarrow> block_pages (frame_addr b, c) = {b..<b + unat c}"
  by (simp add: block_pages_def frame_addr_def Let_def unat_word_ariths unsigned_of_nat take_bit_nat_eq_self)

definition block_ok :: "u32 \<times> u32 \<Rightarrow> bool" where
  "block_ok x \<longleftrightarrow> (\<exists>b. fst x = frame_addr b \<and> 1 \<le> b \<and> snd x \<noteq> 0 \<and> b + unat (snd x) \<le> 3840)"

definition run_ok :: "mm_state \<Rightarrow> (u32 \<times> u32) set \<Rightarrow> bool" where
  "run_ok s H \<longleftrightarrow> mm_inv s \<and> (\<forall>x\<in>H. block_ok x) \<and> (\<forall>x\<in>H. \<forall>y\<in>H. x \<noteq> y \<longrightarrow> block_pages x \<inter> block_pages y = {}) \<and>
     used_pages s = insert 0 (\<Union> (block_pages ` H))"

lemma block_okE:
  assumes "block_ok (a, c)"
  obtains b where "a = frame_addr b" "1 \<le> b" "c \<noteq> 0" "b + unat c \<le> 3840" "b < 3840" "block_pages (a, c) = {b..<b + unat c}"
proof -
  from assms obtain b where b: "a = frame_addr b" "1 \<le> b" "c \<noteq> 0" "b + unat c \<le> 3840" by (auto simp: block_ok_def)
  have "0 < unat c" using b(3) by (simp add: unat_gt_0)
  then have "b < 3840" using b(4) by simp
  then show thesis using that b block_pages_addr by blast
qed

lemma run_ok_take:
  assumes "run_ok s H" and "mm_inv s'" and "c \<noteq> 0" and "free_run s b (unat c)" and "used_pages s' = used_pages s \<union> {b..<b + unat c}"
  shows "run_ok s' (insert (frame_addr b, c) H)"
proof -
  have c: "0 < unat c" using assms(3) by (simp add: unat_gt_0)
  have le: "b + unat c \<le> 3840" and d: "{b..<b + unat c} \<inter> used_pages s = {}" using assms(4) by (simp_all add: free_run_def)
  have "0 \<in> used_pages s" using assms(1) by (simp add: run_ok_def)
  then have b1: "1 \<le> b" using d c by (cases b) auto
  have p: "block_pages (frame_addr b, c) = {b..<b + unat c}" using le c by (intro block_pages_addr) simp
  have n: "block_pages (frame_addr b, c) \<inter> block_pages x = {}" if "x \<in> H" for x
    using d that assms(1) unfolding p run_ok_def by blast
  have "block_ok (frame_addr b, c)" using b1 assms(3) le by (auto simp: block_ok_def)
  then show ?thesis using assms(1,2,5) n p unfolding run_ok_def by (auto simp: Int_commute)
qed

lemma run_ok_release:
  assumes "run_ok s H" and "(a, c) \<in> H"
  shows "run_ok (mm_free_pages s a c) (H - {(a, c)})"
proof -
  have "block_ok (a, c)" using assms by (simp add: run_ok_def)
  then obtain b where b: "a = frame_addr b" "1 \<le> b" "c \<noteq> 0" "b + unat c \<le> 3840" "b < 3840" "block_pages (a, c) = {b..<b + unat c}"
    by (rule block_okE)
  have f: "mm_inv (mm_free_pages s a c)" "used_pages (mm_free_pages s a c) = used_pages s - block_pages (a, c)"
    using mm_free_result [OF _ b(4,5), of s] assms(1) unfolding b(6) unfolding b(1) by (simp_all add: run_ok_def)
  have "block_pages (a, c) \<inter> block_pages x = {}" if "x \<in> H - {(a, c)}" for x
    using assms that unfolding run_ok_def by blast
  moreover have "0 \<notin> block_pages (a, c)" using b(2,6) by simp
  ultimately have "used_pages (mm_free_pages s a c) = insert 0 (\<Union> (block_pages ` (H - {(a, c)})))"
    using f(2) assms unfolding run_ok_def by auto
  then show ?thesis using f(1) assms(1) unfolding run_ok_def by blast
qed

lemma mm_init_ok: "run_ok (mm_init s0) {}"
proof -
  let ?s = "s0\<lparr>mem_start := 0x100000, mem_end := 0x1000000, mm_total_pages := 3840, mm_free_pages_left := 3840,
    page_bitmap := 0x100000, mem_bytes := zero_bytes (mem_bytes s0) 0x100000 480\<rparr>"
  have u: "used_pages ?s = {}"
    by (auto simp: used_pages_def page_used_def zero_bytes_result unsigned_of_nat take_bit_nat_eq_self)
  have i: "mm_init s0 = (mark_page_used ?s 0)\<lparr>mm_free_pages_left := 3839\<rparr>"
    by (simp add: mm_init_def mm_page_size_def Let_def)
  show ?thesis unfolding i run_ok_def mm_inv_def by (simp add: used_mark u)
qed

lemma mm_run_ok: "mm_run s H \<Longrightarrow> run_ok s H"
proof (induction rule: mm_run.induct)
  case (boot s0)
  show ?case by (rule mm_init_ok)
next
  case (pages s H c flags s' a)
  have i: "mm_inv s" using pages.IH by (simp add: run_ok_def)
  have nz: "c \<noteq> 0" using pages.hyps by (auto simp: mm_alloc_pages_def)
  from mm_alloc_result [OF i nz, of flags] pages.hyps obtain b where
    b: "free_run s b (unat c)" "s' = take_run s b c" "a = frame_addr b" by auto
  show ?case using run_ok_take [OF pages.IH _ nz b(1)] take_run_inv [OF i b(1)] unfolding b(2,3) by blast
next
  case (object s H sz flags s' a)
  have i: "mm_inv s" "0 \<in> used_pages s" using object.IH by (simp_all add: run_ok_def)
  from kmalloc_result [OF i object.hyps(2,3)] show ?case
    using run_ok_take [OF object.IH] by (elim exE conjE) simp
next
  case (failed s H c flags s')
  have i: "mm_inv s" using failed.IH by (simp add: run_ok_def)
  have "s' = s"
  proof (cases "c = 0")
    case False
    from mm_alloc_result [OF i False, of flags] failed.hyps(2) show ?thesis
    proof (elim disjE exE conjE)
      fix b assume b: "free_run s b (unat c)" "mm_alloc_pages s c flags = (take_run s b c, frame_addr b)"
      have "0 < unat c" using False by (simp add: unat_gt_0)
      then have "frame_addr b \<noteq> 0" using b(1) by (intro frame_addr_nonzero) (simp add: free_run_def)
      then show ?thesis using b(2) failed.hyps(2) by simp
    qed simp
  qed (use failed.hyps(2) in \<open>simp add: mm_alloc_pages_def\<close>)
  then show ?case using failed.IH by simp
next
  case (store s H a c m)
  have "block_ok (a, c)" "mm_inv s" using store by (simp_all add: run_ok_def)
  then obtain b where "a = frame_addr b" "1 \<le> b" "b + unat c \<le> 3840" by (auto elim: block_okE)
  with outside_map_used [OF \<open>mm_inv s\<close>, of b c m] store show ?case by (simp add: run_ok_def)
next
  case (release s H a c)
  then show ?case by (intro run_ok_release)
qed

section \<open>Claims\<close>

definition blank_mm :: mm_state where
  "blank_mm = \<lparr>mem_start = 0, mem_end = 0, mm_total_pages = 0, mm_free_pages_left = 0, page_bitmap = 0, mem_bytes = \<lambda>_. 0xFF\<rparr>"

lemma blank_init: "mm_inv (mm_init blank_mm)" "used_pages (mm_init blank_mm) = {0}"
  using mm_init_ok [of blank_mm] by (simp_all add: run_ok_def)

text \<open>
  C12. Allocation is exact. In a state with the right counter a request for some pages is refused only if no
  run of that many free pages exists; otherwise the lowest such run is returned, exactly its pages become
  used, and releasing it makes exactly them free again, with the counter right throughout.
\<close>

theorem mm_alloc_first_fit:
  assumes "mm_inv s" and "count \<noteq> 0"
  shows "(\<forall>b. \<not> free_run s b (unat count)) \<and> mm_alloc_pages s count flags = (s, 0) \<or>
    (\<exists>b s'. free_run s b (unat count) \<and> (\<forall>c<b. \<not> free_run s c (unat count)) \<and>
      mm_alloc_pages s count flags = (s', frame_addr b) \<and> frame_addr b \<noteq> 0 \<and>
      mm_inv s' \<and> used_pages s' = used_pages s \<union> {b..<b + unat count} \<and>
      mm_inv (mm_free_pages s' (frame_addr b) count) \<and> used_pages (mm_free_pages s' (frame_addr b) count) = used_pages s)"
  using mm_alloc_result [OF assms, of flags]
proof (elim disjE exE conjE)
  fix b assume b: "free_run s b (unat count)" "\<forall>c<b. \<not> free_run s c (unat count)"
    "mm_alloc_pages s count flags = (take_run s b count, frame_addr b)"
  note t = take_run_inv [OF assms(1) b(1)]
  have c: "0 < unat count" using assms(2) by (simp add: unat_gt_0)
  have le: "b + unat count \<le> 3840" "b < 3840" and d: "{b..<b + unat count} \<inter> used_pages s = {}"
    using b(1) c by (simp_all add: free_run_def)
  have "used_pages s \<union> {b..<b + unat count} - {b..<b + unat count} = used_pages s" using d by auto
  with mm_free_result [OF t(1) le] t frame_addr_nonzero [OF le(2)] b show ?thesis by auto
qed blast

theorem mm_alloc_first_fit_witness:
  "\<exists>b s'. mm_alloc_pages (mm_init blank_mm) 2 0 = (s', frame_addr b) \<and> used_pages s' = {0} \<union> {b..<b + 2}"
proof -
  have "free_run (mm_init blank_mm) 1 2" by (auto simp: free_run_def blank_init)
  with mm_alloc_first_fit [OF blank_init(1), of 2 0] show ?thesis by (auto simp: blank_init)
qed

text \<open>
  C11. No page is handed out twice. After \<^verbatim>\<open>mm_init\<close> and any sequence of allocations of pages and objects,
  stores of the owners into their blocks, and releases of held blocks, the held blocks lie in the managed
  memory, are disjoint and leave out the page of the bit map, the pages in use are exactly theirs and that
  one, and the free counter is the number of all other pages.
\<close>

theorem mm_run_safe:
  assumes "mm_run s H"
  shows "(\<forall>x\<in>H. block_ok x) \<and> (\<forall>x\<in>H. \<forall>y\<in>H. x \<noteq> y \<longrightarrow> block_pages x \<inter> block_pages y = {}) \<and>
    used_pages s = insert 0 (\<Union> (block_pages ` H)) \<and> 0 \<notin> \<Union> (block_pages ` H) \<and>
    unat (mm_free_pages_left s) = card ({..<3840} - used_pages s)"
proof -
  have r: "run_ok s H" by (rule mm_run_ok [OF assms])
  have "used_pages s \<subseteq> {..<3840}" by (auto simp: used_pages_def)
  then have "card ({..<3840} - used_pages s) = 3840 - card (used_pages s)" by (simp add: card_Diff_subset)
  moreover have "0 \<notin> block_pages x" if "x \<in> H" for x
  proof -
    have "block_ok x" using that r by (simp add: run_ok_def)
    then show ?thesis by (cases x) (auto elim: block_okE)
  qed
  ultimately show ?thesis using r unfolding run_ok_def mm_inv_def by auto
qed

theorem mm_run_safe_witness:
  "\<exists>s a. mm_run s {(a, 2)} \<and> used_pages s = insert 0 (block_pages (a, 2)) \<and> unat (mm_free_pages_left s) = card ({..<3840} - used_pages s)"
proof -
  have "free_run (mm_init blank_mm) 1 2" by (auto simp: free_run_def blank_init)
  then have "\<not> (\<forall>b. \<not> free_run (mm_init blank_mm) b (unat (2 :: u32)))" by auto
  then obtain b where b: "free_run (mm_init blank_mm) b 2" "mm_alloc_pages (mm_init blank_mm) 2 0 = (take_run (mm_init blank_mm) b 2, frame_addr b)"
    using mm_alloc_result [OF blank_init(1), of 2 0] by auto
  have "frame_addr b \<noteq> 0" using b(1) by (intro frame_addr_nonzero) (simp add: free_run_def)
  then have "mm_run (take_run (mm_init blank_mm) b 2) {(frame_addr b, 2)}"
    using mm_run.pages [OF mm_run.boot b(2)] by simp
  with mm_run_safe [OF this] show ?thesis by auto
qed

text \<open>
  \<^verbatim>\<open>kfree\<close> leaks. An object allocated by \<^verbatim>\<open>kmalloc\<close> gets enough pages, all zero if that was asked for, but
  releasing it frees only the first of them: the others stay in use. Everything is released exactly if the
  object has at most one page.
\<close>

theorem kfree_keeps_pages:
  assumes "mm_inv s" and "0 \<in> used_pages s" and "kmalloc_mm s sz flags = (s', a)" and "a \<noteq> 0"
  shows "\<exists>b. a = frame_addr b \<and> unat sz \<le> unat ((sz + 4095) div 4096) * 4096 \<and>
    used_pages s' = used_pages s \<union> {b..<b + unat ((sz + 4095) div 4096)} \<and> {b..<b + unat ((sz + 4095) div 4096)} \<inter> used_pages s = {} \<and>
    (flags AND MEM_ZERO_FLAG \<noteq> 0 \<longrightarrow> (\<forall>x. in_block a ((sz + 4095) div 4096) x \<longrightarrow> mem_bytes s' x = 0)) \<and>
    used_pages (kfree_mm s' a) = used_pages s \<union> {b + 1..<b + unat ((sz + 4095) div 4096)} \<and>
    (used_pages (kfree_mm s' a) = used_pages s \<longleftrightarrow> sz \<le> 4096)"
proof -
  let ?n = "unat ((sz + 4095) div 4096)"
  from kmalloc_result [OF assms] obtain b where b: "a = frame_addr b" "1 \<le> b" "(sz + 4095) div 4096 \<noteq> 0"
      "free_run s b ?n" "mm_inv s'" "used_pages s' = used_pages s \<union> {b..<b + ?n}"
      "flags AND MEM_ZERO_FLAG \<noteq> 0 \<longrightarrow> (\<forall>x. in_block a ((sz + 4095) div 4096) x \<longrightarrow> mem_bytes s' x = 0)" by blast
  have n: "0 < ?n" "b + ?n \<le> 3840" "{b..<b + ?n} \<inter> used_pages s = {}" using b(3,4) by (simp_all add: free_run_def unat_gt_0)
  have "sz + 4095 \<ge> sz"
  proof (rule ccontr)
    assume "\<not> sz \<le> sz + 4095"
    then have "\<not> unat sz \<le> (unat sz + 4095) mod 2 ^ 32" by (simp add: word_le_nat_alt unat_word_ariths)
    then have "\<not> unat sz + 4095 < 2 ^ 32" by auto
    then have "(unat sz + 4095) mod 2 ^ 32 = unat sz + 4095 - 2 ^ 32"
      using unsigned_less [where 'a = nat and w = sz] by (simp add: le_mod_geq)
    then have "unat (sz + 4095) < 4096" using unsigned_less [where 'a = nat and w = sz] by (simp add: unat_word_ariths)
    then show False using b(3) by (simp add: unat_div word_unat_eq_iff)
  qed
  then have sz: "?n = (unat sz + 4095) div 4096" by (simp add: unat_div unat_plus_simple)
  have f: "used_pages (kfree_mm s' a) = used_pages s' - {b..<b + 1}"
    using mm_free_result [OF b(5), of b 1] frame_addr_nonzero [of b] n b(1) by (simp add: kfree_mm_def)
  have "{b..<b + ?n} = insert b {b + 1..<b + ?n}" using n(1) by auto
  then have k: "used_pages (kfree_mm s' a) = used_pages s \<union> {b + 1..<b + ?n}" using f n(3) b(6) by auto
  have "used_pages s \<union> {b + 1..<b + ?n} = used_pages s \<longleftrightarrow> ?n = 1"
  proof (cases "?n = 1")
    case False
    then have "b + 1 \<in> {b + 1..<b + ?n}" "b + 1 \<in> {b..<b + ?n}" using n(1) by auto
    then have "b + 1 \<notin> used_pages s" using n(3) by blast
    then show ?thesis using False \<open>b + 1 \<in> {b + 1..<b + ?n}\<close> by blast
  qed simp
  moreover have "?n = 1 \<longleftrightarrow> sz \<le> 4096" using n(1) unfolding sz word_le_nat_alt by simp linarith
  ultimately show ?thesis using b n k sz by (intro exI [of _ b]) simp
qed

theorem kfree_keeps_pages_witness:
  "\<exists>s' a. kmalloc_mm (mm_init blank_mm) 5000 8 = (s', a) \<and> used_pages (kfree_mm s' a) \<noteq> used_pages (mm_init blank_mm)"
proof -
  have "free_run (mm_init blank_mm) 1 2" by (auto simp: free_run_def blank_init)
  then have "\<not> (\<forall>b. \<not> free_run (mm_init blank_mm) b (unat (2 :: u32)))" by auto
  then obtain b where b: "free_run (mm_init blank_mm) b 2" "mm_alloc_pages (mm_init blank_mm) 2 8 = (take_run (mm_init blank_mm) b 2, frame_addr b)"
    using mm_alloc_result [OF blank_init(1), of 2 8] by auto
  have a: "frame_addr b \<noteq> 0" using b(1) by (intro frame_addr_nonzero) (simp add: free_run_def)
  obtain s' where k: "kmalloc_mm (mm_init blank_mm) 5000 8 = (s', frame_addr b)"
    using b(2) by (simp add: kmalloc_mm_def mm_page_size_def)
  with kfree_keeps_pages [OF blank_init(1) _ k a] show ?thesis by (auto simp: blank_init)
qed

end
