(* ===== verification/Swap_Compress.thy ===== *)
theory Swap_Compress
  imports Horizon_Prelude
begin

text \<open>
  Compression of swapped pages, \<^verbatim>\<open>kernel/mm/swap_compress.c\<close>. The input and the output buffer are separate
  lists of bytes; reading or writing beyond the end of one has no result. Positions and sizes are natural
  numbers: they are bounded by the length of a buffer, so the sums of the code do not wrap. All algorithms
  but the plain copy are one run-length encoding. The claim is that every input comes back, whatever
  algorithm is set, if the output buffer has twice its size.
\<close>

section \<open>Buffers\<close>

type_synonym buffer = "u8 list"

definition get_byte :: "buffer \<Rightarrow> nat \<Rightarrow> u8 option" where
  "get_byte xs i = (if i < length xs then Some (xs ! i) else None)"

definition put_byte :: "buffer \<Rightarrow> nat \<Rightarrow> u8 \<Rightarrow> buffer option" where
  "put_byte xs i v = (if i < length xs then Some (xs[i := v]) else None)"

definition copy_bytes :: "buffer \<Rightarrow> buffer \<Rightarrow> nat \<Rightarrow> buffer option" where
  "copy_bytes dst src n = (if n \<le> length src \<and> n \<le> length dst then Some (take n src @ drop n dst) else None)"

section \<open>Run-length encoding\<close>

text \<open>The inner loop that measures a run.\<close>

function find_run :: "buffer \<Rightarrow> nat \<Rightarrow> nat \<Rightarrow> u8 \<Rightarrow> nat \<Rightarrow> nat option" where
  "find_run src src_pos in_size v run_length =
     (if src_pos + run_length < in_size then
        Option.bind (get_byte src (src_pos + run_length)) (\<lambda>b.
          if b = v \<and> run_length < 255 then find_run src src_pos in_size v (Suc run_length)
          else Some run_length)
      else Some run_length)"
  by pat_completeness auto
termination by (relation "measure (\<lambda>(_, _, _, _, r). 255 - r)") auto

declare find_run.simps [simp del]

lemma find_run_ge: "find_run src p n v r = Some k \<Longrightarrow> r \<le> k"
proof (induction src p n v r rule: find_run.induct)
  case (1 src p n v r)
  then show ?case
    by (subst (asm) (2) find_run.simps) (fastforce simp: bind_Some_iff split: if_splits)
qed

text \<open>The loop over the runs; the result is the output buffer and the value returned.\<close>

function compress_loop :: "buffer \<Rightarrow> nat \<Rightarrow> nat \<Rightarrow> nat \<Rightarrow> nat \<Rightarrow> buffer \<Rightarrow> (buffer \<times> int) option" where
  "compress_loop src in_size out_size src_pos dst_pos dst =
     (if src_pos < in_size then
        (case get_byte src src_pos of
           None \<Rightarrow> None
         | Some v \<Rightarrow>
             (case find_run src src_pos in_size v 1 of
                None \<Rightarrow> None
              | Some run_length \<Rightarrow>
                  if dst_pos + 2 > out_size then Some (dst, - ENOSPC)
                  else
                    Option.bind (put_byte dst dst_pos (of_nat run_length)) (\<lambda>dst1.
                    Option.bind (put_byte dst1 (dst_pos + 1) v) (\<lambda>dst2.
                      compress_loop src in_size out_size (src_pos + run_length) (dst_pos + 2) dst2))))
      else Some (dst, int dst_pos))"
  by pat_completeness auto
termination by (relation "measure (\<lambda>(_, n, _, p, _, _). n - p)") (auto dest: find_run_ge)

declare compress_loop.simps [simp del]

definition swap_compress_lz4 :: "buffer \<Rightarrow> buffer \<Rightarrow> nat \<Rightarrow> nat \<Rightarrow> (buffer \<times> int) option" where
  "swap_compress_lz4 src dst in_size out_size = compress_loop src in_size out_size 0 0 dst"

text \<open>Writing one run, and the loop over the encoded runs.\<close>

fun write_run :: "buffer \<Rightarrow> nat \<Rightarrow> nat \<Rightarrow> u8 \<Rightarrow> buffer option" where
  "write_run dst dst_pos 0 v = Some dst"
| "write_run dst dst_pos (Suc n) v = Option.bind (put_byte dst dst_pos v) (\<lambda>dst1. write_run dst1 (Suc dst_pos) n v)"

function decompress_loop :: "buffer \<Rightarrow> nat \<Rightarrow> nat \<Rightarrow> nat \<Rightarrow> nat \<Rightarrow> buffer \<Rightarrow> (buffer \<times> int) option" where
  "decompress_loop src in_size out_size src_pos dst_pos dst =
     (if src_pos < in_size then
        Option.bind (get_byte src src_pos) (\<lambda>run_length.
        Option.bind (get_byte src (src_pos + 1)) (\<lambda>v.
          if dst_pos + unat run_length > out_size then Some (dst, - ENOSPC)
          else
            Option.bind (write_run dst dst_pos (unat run_length) v) (\<lambda>dst1.
              decompress_loop src in_size out_size (src_pos + 2) (dst_pos + unat run_length) dst1)))
      else Some (dst, int dst_pos))"
  by pat_completeness auto
termination by (relation "measure (\<lambda>(_, n, _, p, _, _). n - p)") auto

declare decompress_loop.simps [simp del]

definition swap_decompress_lz4 :: "buffer \<Rightarrow> buffer \<Rightarrow> nat \<Rightarrow> nat \<Rightarrow> (buffer \<times> int) option" where
  "swap_decompress_lz4 src dst in_size out_size = decompress_loop src in_size out_size 0 0 dst"

text \<open>The other two algorithms are placeholders for the first.\<close>

definition swap_compress_zlib :: "buffer \<Rightarrow> buffer \<Rightarrow> nat \<Rightarrow> nat \<Rightarrow> (buffer \<times> int) option" where
  "swap_compress_zlib src dst in_size out_size = swap_compress_lz4 src dst in_size out_size"

definition swap_decompress_zlib :: "buffer \<Rightarrow> buffer \<Rightarrow> nat \<Rightarrow> nat \<Rightarrow> (buffer \<times> int) option" where
  "swap_decompress_zlib src dst in_size out_size = swap_decompress_lz4 src dst in_size out_size"

definition swap_compress_zstd :: "buffer \<Rightarrow> buffer \<Rightarrow> nat \<Rightarrow> nat \<Rightarrow> (buffer \<times> int) option" where
  "swap_compress_zstd src dst in_size out_size = swap_compress_lz4 src dst in_size out_size"

definition swap_decompress_zstd :: "buffer \<Rightarrow> buffer \<Rightarrow> nat \<Rightarrow> nat \<Rightarrow> (buffer \<times> int) option" where
  "swap_decompress_zstd src dst in_size out_size = swap_decompress_lz4 src dst in_size out_size"

section \<open>The compression subsystem\<close>

text \<open>The algorithm is the number of the enumeration \<^verbatim>\<open>swap_compress_algo\<close>.\<close>

definition SWAP_COMPRESS_NONE :: u32 where "SWAP_COMPRESS_NONE = 0"
definition SWAP_COMPRESS_LZ4 :: u32 where "SWAP_COMPRESS_LZ4 = 1"
definition SWAP_COMPRESS_ZLIB :: u32 where "SWAP_COMPRESS_ZLIB = 2"
definition SWAP_COMPRESS_ZSTD :: u32 where "SWAP_COMPRESS_ZSTD = 3"

lemmas algo_defs = SWAP_COMPRESS_NONE_def SWAP_COMPRESS_LZ4_def SWAP_COMPRESS_ZLIB_def SWAP_COMPRESS_ZSTD_def

definition EIO :: int where "EIO = 5"

record compress_state =
  compress_count :: u64
  compress_bytes_in :: u64
  compress_bytes_out :: u64
  decompress_count :: u64
  decompress_bytes_in :: u64
  decompress_bytes_out :: u64
  current_algo :: u32
  compress_buffer :: "nat option"
  decompress_buffer :: "nat option"

text \<open>\<open>b1\<close> and \<open>b2\<close> are the outcomes of the two allocations.\<close>

definition swap_compress_init :: "nat option \<Rightarrow> nat option \<Rightarrow> compress_state" where
  "swap_compress_init b1 b2 =
     \<lparr>compress_count = 0, compress_bytes_in = 0, compress_bytes_out = 0, decompress_count = 0, decompress_bytes_in = 0,
       decompress_bytes_out = 0, current_algo = SWAP_COMPRESS_LZ4, compress_buffer = b1, decompress_buffer = b2\<rparr>"

definition swap_compress_set_algo :: "compress_state \<Rightarrow> u32 \<Rightarrow> compress_state \<times> int" where
  "swap_compress_set_algo s algo =
     (if algo < SWAP_COMPRESS_NONE \<or> algo > SWAP_COMPRESS_ZSTD then (s, - EINVAL)
      else (s\<lparr>current_algo := algo\<rparr>, 0))"

definition swap_compress_get_algo :: "compress_state \<Rightarrow> u32" where
  "swap_compress_get_algo s = current_algo s"

text \<open>The switch over the algorithm; an early return is marked by \<^const>\<open>True\<close>.\<close>

definition compress_switch :: "u32 \<Rightarrow> buffer \<Rightarrow> buffer \<Rightarrow> nat \<Rightarrow> nat \<Rightarrow> (bool \<times> buffer \<times> int) option" where
  "compress_switch algo src dst in_size out_size =
     (if algo = SWAP_COMPRESS_NONE then
        (if out_size < in_size then Some (True, dst, - ENOSPC)
         else map_option (\<lambda>d. (False, d, int in_size)) (copy_bytes dst src in_size))
      else if algo = SWAP_COMPRESS_LZ4 then map_option (Pair False) (swap_compress_lz4 src dst in_size out_size)
      else if algo = SWAP_COMPRESS_ZLIB then map_option (Pair False) (swap_compress_zlib src dst in_size out_size)
      else if algo = SWAP_COMPRESS_ZSTD then map_option (Pair False) (swap_compress_zstd src dst in_size out_size)
      else Some (True, dst, - EINVAL))"

definition count_compressed :: "compress_state \<Rightarrow> nat \<Rightarrow> int \<Rightarrow> compress_state" where
  "count_compressed s in_size n = s\<lparr>compress_count := compress_count s + 1,
     compress_bytes_in := compress_bytes_in s + of_nat in_size, compress_bytes_out := compress_bytes_out s + of_int n\<rparr>"

definition swap_compress_page :: "compress_state \<Rightarrow> buffer option \<Rightarrow> buffer option \<Rightarrow> nat \<Rightarrow> nat \<Rightarrow>
    (compress_state \<times> buffer option \<times> int) option" where
  "swap_compress_page s src dst in_size out_size =
     (case (src, dst) of
        (Some i, Some d) \<Rightarrow>
          if in_size = 0 \<or> out_size = 0 then Some (s, dst, - EINVAL)
          else
            Option.bind (compress_switch (current_algo s) i d in_size out_size) (\<lambda>(early, d1, n).
              if early then Some (s, Some d1, n)
              else if n \<le> 0 then
                (if out_size < in_size then Some (s, Some d1, - ENOSPC)
                 else map_option (\<lambda>d2. (count_compressed s in_size (int in_size), Some d2, int in_size)) (copy_bytes d1 i in_size))
              else Some (count_compressed s in_size n, Some d1, n))
      | _ \<Rightarrow> Some (s, dst, - EINVAL))"

definition decompress_switch :: "u32 \<Rightarrow> buffer \<Rightarrow> buffer \<Rightarrow> nat \<Rightarrow> nat \<Rightarrow> (bool \<times> buffer \<times> int) option" where
  "decompress_switch algo src dst in_size out_size =
     (if algo = SWAP_COMPRESS_NONE then
        (if out_size < in_size then Some (True, dst, - ENOSPC)
         else map_option (\<lambda>d. (False, d, int in_size)) (copy_bytes dst src in_size))
      else if algo = SWAP_COMPRESS_LZ4 then map_option (Pair False) (swap_decompress_lz4 src dst in_size out_size)
      else if algo = SWAP_COMPRESS_ZLIB then map_option (Pair False) (swap_decompress_zlib src dst in_size out_size)
      else if algo = SWAP_COMPRESS_ZSTD then map_option (Pair False) (swap_decompress_zstd src dst in_size out_size)
      else Some (True, dst, - EINVAL))"

definition swap_decompress_page :: "compress_state \<Rightarrow> buffer option \<Rightarrow> buffer option \<Rightarrow> nat \<Rightarrow> nat \<Rightarrow>
    (compress_state \<times> buffer option \<times> int) option" where
  "swap_decompress_page s src dst in_size out_size =
     (case (src, dst) of
        (Some i, Some d) \<Rightarrow>
          if in_size = 0 \<or> out_size = 0 then Some (s, dst, - EINVAL)
          else
            Option.bind (decompress_switch (current_algo s) i d in_size out_size) (\<lambda>(early, d1, n).
              if early then Some (s, Some d1, n)
              else if n \<le> 0 then Some (s, Some d1, - EIO)
              else Some (s\<lparr>decompress_count := decompress_count s + 1,
                decompress_bytes_in := decompress_bytes_in s + of_nat in_size,
                decompress_bytes_out := decompress_bytes_out s + of_int n\<rparr>, Some d1, n))
      | _ \<Rightarrow> Some (s, dst, - EINVAL))"

end
