(* ===== verification/Swap.thy ===== *)
theory Swap
  imports Swap_Compress
begin

text \<open>
  Swap areas, \<^verbatim>\<open>kernel/mm/swap.c\<close>, with the monitor of \<^verbatim>\<open>kernel/mm/swap_monitor.c\<close> that every transfer
  calls, and the file access of \<^verbatim>\<open>kernel/fs/fs.c\<close> it goes through. A file has the state its driver keeps (the
  contents of the device and a position) and the table of driver functions, absent when the pointer is
  null; the drivers themselves are not part of the model. An area has a bitmap of 32-bit words, and using a
  word beyond it has no result. The results of allocations and the ticks of the timer are arguments.
\<close>

section \<open>File access\<close>

record device =
  dv_data :: "nat \<Rightarrow> u8"
  dv_pos :: nat

text \<open>A read returns the bytes stored in the buffer and the value returned by the driver.\<close>

record file_operations =
  op_open :: "(device \<Rightarrow> u32 \<Rightarrow> device \<times> int) option"
  op_close :: "(device \<Rightarrow> device \<times> int) option"
  op_read :: "(device \<Rightarrow> nat \<Rightarrow> device \<times> u8 list \<times> int) option"
  op_write :: "(device \<Rightarrow> u8 list \<Rightarrow> device \<times> int) option"
  op_seek :: "(device \<Rightarrow> u64 \<Rightarrow> int \<Rightarrow> device \<times> int) option"

record swap_file =
  fl_name :: string
  fl_ops :: "file_operations option"
  fl_dev :: device

definition ENOSYS :: int where "ENOSYS = 38"
definition EBUSY :: int where "EBUSY = 16"
definition EALREADY :: int where "EALREADY = 114"
definition SEEK_SET :: int where "SEEK_SET = 0"
definition FILE_OPEN_READ :: u32 where "FILE_OPEN_READ = 1"
definition FILE_OPEN_WRITE :: u32 where "FILE_OPEN_WRITE = 2"

text \<open>The new file structure is zeroed, so its table of operations is null. \<open>alloc\<close>: the allocation succeeds.\<close>

definition zeroed_file :: "string \<Rightarrow> swap_file" where
  "zeroed_file path = \<lparr>fl_name = take 255 path, fl_ops = None, fl_dev = \<lparr>dv_data = (\<lambda>_. 0), dv_pos = 0\<rparr>\<rparr>"

definition fs_open :: "bool \<Rightarrow> string option \<Rightarrow> u32 \<Rightarrow> swap_file option" where
  "fs_open alloc path flags =
     (case path of
        None \<Rightarrow> None
      | Some p \<Rightarrow>
          if \<not> alloc then None
          else let file = zeroed_file p
            in case fl_ops file of
                 None \<Rightarrow> Some file
               | Some ops \<Rightarrow>
                   (case op_open ops of
                      None \<Rightarrow> Some file
                    | Some f \<Rightarrow>
                        (case f (fl_dev file) flags of
                           (d, ret) \<Rightarrow> if ret \<noteq> 0 then None else Some (file\<lparr>fl_dev := d\<rparr>))))"

definition fs_read :: "swap_file \<Rightarrow> nat \<Rightarrow> swap_file \<times> u8 list \<times> int" where
  "fs_read file n =
     (case fl_ops file of
        None \<Rightarrow> (file, [], - ENOSYS)
      | Some ops \<Rightarrow>
          (case op_read ops of
             None \<Rightarrow> (file, [], - ENOSYS)
           | Some f \<Rightarrow> (case f (fl_dev file) n of (d, bytes, ret) \<Rightarrow> (file\<lparr>fl_dev := d\<rparr>, bytes, ret))))"

definition fs_write :: "swap_file \<Rightarrow> u8 list \<Rightarrow> swap_file \<times> int" where
  "fs_write file bytes =
     (case fl_ops file of
        None \<Rightarrow> (file, - ENOSYS)
      | Some ops \<Rightarrow>
          (case op_write ops of
             None \<Rightarrow> (file, - ENOSYS)
           | Some f \<Rightarrow> (case f (fl_dev file) bytes of (d, ret) \<Rightarrow> (file\<lparr>fl_dev := d\<rparr>, ret))))"

definition fs_seek :: "swap_file \<Rightarrow> u64 \<Rightarrow> int \<Rightarrow> swap_file \<times> int" where
  "fs_seek file offset whence =
     (case fl_ops file of
        None \<Rightarrow> (file, - ENOSYS)
      | Some ops \<Rightarrow>
          (case op_seek ops of
             None \<Rightarrow> (file, - ENOSYS)
           | Some f \<Rightarrow> (case f (fl_dev file) offset whence of (d, ret) \<Rightarrow> (file\<lparr>fl_dev := d\<rparr>, ret))))"

text \<open>The result says whether the structure was freed, and the value returned.\<close>

definition fs_close :: "swap_file \<Rightarrow> bool \<times> int" where
  "fs_close file =
     (case fl_ops file of
        None \<Rightarrow> (True, 0)
      | Some ops \<Rightarrow>
          (case op_close ops of
             None \<Rightarrow> (True, 0)
           | Some f \<Rightarrow> (case f (fl_dev file) of (d, ret) \<Rightarrow> if ret \<noteq> 0 then (False, ret) else (True, 0))))"

section \<open>The monitor\<close>

record monitor =
  monitor_start_time :: u64
  monitor_last_time :: u64
  monitor_interval :: u64
  monitor_count :: u64
  monitor_swap_in_total :: u64
  monitor_swap_out_total :: u64
  monitor_swap_in_rate :: u64
  monitor_swap_out_rate :: u64
  monitor_swap_in_peak :: u64
  monitor_swap_out_peak :: u64
  monitor_swap_in_last :: u64
  monitor_swap_out_last :: u64
  monitor_swap_in_current :: u64
  monitor_swap_out_current :: u64
  monitor_swap_pressure :: u64
  monitor_swap_threshold :: u64
  monitor_enabled :: bool
  monitor_auto_adjust :: bool

definition swap_monitor_init :: monitor where
  "swap_monitor_init =
     \<lparr>monitor_start_time = 0, monitor_last_time = 0, monitor_interval = 1000, monitor_count = 0, monitor_swap_in_total = 0,
       monitor_swap_out_total = 0, monitor_swap_in_rate = 0, monitor_swap_out_rate = 0, monitor_swap_in_peak = 0,
       monitor_swap_out_peak = 0, monitor_swap_in_last = 0, monitor_swap_out_last = 0, monitor_swap_in_current = 0,
       monitor_swap_out_current = 0, monitor_swap_pressure = 0, monitor_swap_threshold = 75, monitor_enabled = False,
       monitor_auto_adjust = False\<rparr>"

definition swap_monitor_start :: "u64 \<Rightarrow> monitor \<Rightarrow> monitor \<times> int" where
  "swap_monitor_start ticks m =
     (if monitor_enabled m then (m, - EALREADY)
      else (m\<lparr>monitor_start_time := ticks, monitor_last_time := ticks, monitor_count := 0, monitor_swap_in_total := 0,
        monitor_swap_out_total := 0, monitor_swap_in_rate := 0, monitor_swap_out_rate := 0, monitor_swap_in_peak := 0,
        monitor_swap_out_peak := 0, monitor_swap_in_last := 0, monitor_swap_out_last := 0, monitor_swap_in_current := 0,
        monitor_swap_out_current := 0, monitor_swap_pressure := 0, monitor_enabled := True\<rparr>, 0))"

definition swap_monitor_stop :: "monitor \<Rightarrow> monitor \<times> int" where
  "swap_monitor_stop m = (if \<not> monitor_enabled m then (m, - EINVAL) else (m\<lparr>monitor_enabled := False\<rparr>, 0))"

definition swap_monitor_set_interval :: "monitor \<Rightarrow> u64 \<Rightarrow> monitor \<times> int" where
  "swap_monitor_set_interval m interval = (if interval = 0 then (m, - EINVAL) else (m\<lparr>monitor_interval := interval\<rparr>, 0))"

definition swap_monitor_set_threshold :: "monitor \<Rightarrow> u64 \<Rightarrow> monitor \<times> int" where
  "swap_monitor_set_threshold m threshold =
     (if threshold > 100 then (m, - EINVAL) else (m\<lparr>monitor_swap_threshold := threshold\<rparr>, 0))"

definition swap_monitor_set_auto_adjust :: "monitor \<Rightarrow> int \<Rightarrow> monitor \<times> int" where
  "swap_monitor_set_auto_adjust m enable = (m\<lparr>monitor_auto_adjust := enable \<noteq> 0\<rparr>, 0)"

text \<open>The algorithm of \<^verbatim>\<open>swap_priority.c\<close> is the number of its enumeration.\<close>

definition SWAP_PRIORITY_NONE :: u32 where "SWAP_PRIORITY_NONE = 0"
definition SWAP_PRIORITY_ACCESS :: u32 where "SWAP_PRIORITY_ACCESS = 1"
definition SWAP_PRIORITY_TYPE :: u32 where "SWAP_PRIORITY_TYPE = 2"
definition SWAP_PRIORITY_CUSTOM :: u32 where "SWAP_PRIORITY_CUSTOM = 3"

lemmas priority_defs = SWAP_PRIORITY_NONE_def SWAP_PRIORITY_ACCESS_def SWAP_PRIORITY_TYPE_def SWAP_PRIORITY_CUSTOM_def

definition swap_priority_set_algo :: "u32 \<Rightarrow> u32 \<Rightarrow> u32 \<times> int" where
  "swap_priority_set_algo current algo =
     (if algo < SWAP_PRIORITY_NONE \<or> algo > SWAP_PRIORITY_CUSTOM then (current, - EINVAL) else (algo, 0))"

definition swap_monitor_adjust :: "monitor \<Rightarrow> u32 \<times> compress_state \<Rightarrow> u32 \<times> compress_state" where
  "swap_monitor_adjust m pc =
     (case pc of (prio, cs) \<Rightarrow>
       (fst (swap_priority_set_algo prio
          (if monitor_swap_pressure m > 90 then SWAP_PRIORITY_ACCESS
           else if monitor_swap_pressure m > 75 then SWAP_PRIORITY_TYPE else SWAP_PRIORITY_CUSTOM)),
        fst (swap_compress_set_algo cs
          (if monitor_swap_pressure m > 90 then SWAP_COMPRESS_ZSTD
           else if monitor_swap_pressure m > 75 then SWAP_COMPRESS_ZLIB else SWAP_COMPRESS_LZ4))))"

text \<open>The rates of the interval that has passed. The interval is never zero, so nothing is divided by zero.\<close>

definition update_rates :: "monitor \<Rightarrow> u64 \<Rightarrow> monitor" where
  "update_rates m elapsed =
     (let in_rate = (monitor_swap_in_current m * 1000) div elapsed;
          out_rate = (monitor_swap_out_current m * 1000) div elapsed
      in m\<lparr>monitor_swap_in_rate := in_rate, monitor_swap_out_rate := out_rate,
           monitor_swap_in_peak := (if in_rate > monitor_swap_in_peak m then in_rate else monitor_swap_in_peak m),
           monitor_swap_out_peak := (if out_rate > monitor_swap_out_peak m then out_rate else monitor_swap_out_peak m),
           monitor_swap_pressure := (out_rate * 100) div (in_rate + out_rate + 1)\<rparr>)"

definition close_interval :: "monitor \<Rightarrow> u64 \<Rightarrow> monitor" where
  "close_interval m now = m\<lparr>monitor_swap_in_last := monitor_swap_in_current m, monitor_swap_out_last := monitor_swap_out_current m,
     monitor_swap_in_current := 0, monitor_swap_out_current := 0, monitor_last_time := now, monitor_count := monitor_count m + 1\<rparr>"

definition swap_monitor_update :: "u64 \<Rightarrow> u64 \<Rightarrow> u64 \<Rightarrow> monitor \<times> u32 \<times> compress_state \<Rightarrow> monitor \<times> u32 \<times> compress_state" where
  "swap_monitor_update ticks swap_in swap_out mpc =
     (case mpc of (m, pc) \<Rightarrow>
        if \<not> monitor_enabled m then (m, pc)
        else
          let m1 = m\<lparr>monitor_swap_in_total := monitor_swap_in_total m + swap_in,
                     monitor_swap_out_total := monitor_swap_out_total m + swap_out,
                     monitor_swap_in_current := monitor_swap_in_current m + swap_in,
                     monitor_swap_out_current := monitor_swap_out_current m + swap_out\<rparr>
          in if ticks - monitor_last_time m1 \<ge> monitor_interval m1 then
               let m2 = update_rates m1 (ticks - monitor_last_time m1);
                   pc2 = (if monitor_auto_adjust m2 \<and> monitor_swap_pressure m2 > monitor_swap_threshold m2
                          then swap_monitor_adjust m2 pc else pc)
               in (close_interval m2 ticks, pc2)
             else (m1, pc))"

section \<open>Swap areas\<close>

definition MAX_SWAP_AREAS :: nat where "MAX_SWAP_AREAS = 8"
definition swap_page_size :: nat where "swap_page_size = 4096"

record swap_area =
  sa_path :: string
  sa_file :: swap_file
  sa_size :: u32
  sa_used :: u32
  sa_bitmap :: "u32 list"

text \<open>\<open>swap_areas\<close> holds the used entries of the array, so its length is \<^verbatim>\<open>swap_area_count\<close>.\<close>

record swap_state =
  swap_areas :: "swap_area list"
  swap_in_count :: u64
  swap_out_count :: u64
  swap_in_bytes :: u64
  swap_out_bytes :: u64
  sw_monitor :: monitor
  sw_priority :: u32
  sw_comp :: compress_state

definition swap_init :: "swap_state \<Rightarrow> swap_state" where
  "swap_init s = s\<lparr>swap_areas := []\<rparr>"

text \<open>\<open>file_alloc\<close> and \<open>alloc\<close> say whether the file structure and the bitmap can be allocated.\<close>

definition swap_add :: "bool \<Rightarrow> bool \<Rightarrow> swap_state \<Rightarrow> string option \<Rightarrow> u32 \<Rightarrow> swap_state \<times> int" where
  "swap_add file_alloc alloc s path sz =
     (case path of
        None \<Rightarrow> (s, - EINVAL)
      | Some p \<Rightarrow>
          if sz = 0 then (s, - EINVAL)
          else if length (swap_areas s) \<ge> MAX_SWAP_AREAS then (s, - ENOMEM)
          else case fs_open file_alloc path (FILE_OPEN_READ OR FILE_OPEN_WRITE) of
            None \<Rightarrow> (s, - ENOENT)
          | Some file \<Rightarrow>
              let pages = sz div of_nat swap_page_size
              in if \<not> alloc then (s, - ENOMEM)
                 else (s\<lparr>swap_areas := swap_areas s @ [\<lparr>sa_path = take 255 p, sa_file = file, sa_size = pages, sa_used = 0,
                   sa_bitmap = replicate (unat ((pages + 31) div 32)) 0\<rparr>]\<rparr>, 0))"

fun find_area :: "swap_area list \<Rightarrow> string \<Rightarrow> nat" where
  "find_area [] path = 0"
| "find_area (a # as) path = (if sa_path a = path then 0 else Suc (find_area as path))"

definition swap_remove :: "swap_state \<Rightarrow> string option \<Rightarrow> swap_state \<times> int" where
  "swap_remove s path =
     (case path of
        None \<Rightarrow> (s, - EINVAL)
      | Some p \<Rightarrow>
          let i = find_area (swap_areas s) p
          in if i = length (swap_areas s) then (s, - ENOENT)
             else if sa_used (swap_areas s ! i) > 0 then (s, - EBUSY)
             else (s\<lparr>swap_areas := take i (swap_areas s) @ drop (Suc i) (swap_areas s)\<rparr>, 0))"

text \<open>Testing and changing the bit of a page.\<close>

definition page_bit :: "u32 list \<Rightarrow> nat \<Rightarrow> bool option" where
  "page_bit bm j = (if j div 32 < length bm then Some (bm ! (j div 32) AND push_bit (j mod 32) 1 \<noteq> 0) else None)"

definition set_page_bit :: "u32 list \<Rightarrow> nat \<Rightarrow> u32 list" where
  "set_page_bit bm j = bm[j div 32 := bm ! (j div 32) OR push_bit (j mod 32) 1]"

definition clear_page_bit :: "u32 list \<Rightarrow> nat \<Rightarrow> u32 list" where
  "clear_page_bit bm j = bm[j div 32 := bm ! (j div 32) AND NOT (push_bit (j mod 32) 1)]"

text \<open>The search for a free page among the \<open>n\<close> pages from \<open>j\<close> on.\<close>

fun find_free_page :: "u32 list \<Rightarrow> nat \<Rightarrow> nat \<Rightarrow> nat option option" where
  "find_free_page bm j 0 = Some None"
| "find_free_page bm j (Suc n) =
     Option.bind (page_bit bm j) (\<lambda>b. if b then find_free_page bm (Suc j) n else Some (Some j))"

text \<open>The loop over the areas from the \<open>i\<close>-th on; \<open>n\<close> of them are left.\<close>

fun alloc_in_areas :: "swap_state \<Rightarrow> nat \<Rightarrow> nat \<Rightarrow> (swap_state \<times> u32) option" where
  "alloc_in_areas s i 0 = Some (s, 0)"
| "alloc_in_areas s i (Suc n) =
     (let a = swap_areas s ! i
      in if sa_used a \<ge> sa_size a then alloc_in_areas s (Suc i) n
         else Option.bind (find_free_page (sa_bitmap a) 0 (unat (sa_size a))) (\<lambda>r.
           case r of
             None \<Rightarrow> alloc_in_areas s (Suc i) n
           | Some j \<Rightarrow>
               Some (s\<lparr>swap_areas := (swap_areas s)[i := a\<lparr>sa_bitmap := set_page_bit (sa_bitmap a) j, sa_used := sa_used a + 1\<rparr>]\<rparr>,
                 push_bit 24 (of_nat i) OR of_nat j)))"

definition swap_alloc :: "swap_state \<Rightarrow> (swap_state \<times> u32) option" where
  "swap_alloc s = alloc_in_areas s 0 (length (swap_areas s))"

text \<open>The parts of an entry, and the checks that \<^verbatim>\<open>swap_free\<close>, \<^verbatim>\<open>swap_write\<close> and \<^verbatim>\<open>swap_read\<close> begin with.\<close>

definition entry_area :: "u32 \<Rightarrow> nat" where
  "entry_area entry = unat (drop_bit 24 entry AND 0xFF)"

definition entry_page :: "u32 \<Rightarrow> nat" where
  "entry_page entry = unat (entry AND 0xFFFFFF)"

definition check_entry :: "swap_state \<Rightarrow> u32 \<Rightarrow> bool option" where
  "check_entry s entry =
     (if entry_area entry \<ge> length (swap_areas s) then Some False
      else let a = swap_areas s ! entry_area entry
           in if entry_page entry \<ge> unat (sa_size a) then Some False
              else page_bit (sa_bitmap a) (entry_page entry))"

definition swap_free :: "swap_state \<Rightarrow> u32 \<Rightarrow> (swap_state \<times> int) option" where
  "swap_free s entry =
     (if entry = 0 then Some (s, - EINVAL)
      else Option.bind (check_entry s entry) (\<lambda>ok.
        if \<not> ok then Some (s, - EINVAL)
        else let i = entry_area entry; a = swap_areas s ! i
             in Some (s\<lparr>swap_areas := (swap_areas s)[i := a\<lparr>sa_bitmap := clear_page_bit (sa_bitmap a) (entry_page entry),
                  sa_used := sa_used a - 1\<rparr>]\<rparr>, 0)))"

section \<open>Transfers\<close>

text \<open>A \<^verbatim>\<open>ssize_t\<close> in memory, least significant byte first.\<close>

definition size_bytes :: "int \<Rightarrow> u8 list" where
  "size_bytes n = map (\<lambda>k. ucast (drop_bit (8 * k) (of_int n :: u32))) [0, 1, 2, 3]"

definition bytes_size :: "u8 list \<Rightarrow> int" where
  "bytes_size bs = sint (foldr (\<lambda>b w. push_bit 8 w OR ucast b) bs (0 :: u32))"

definition set_file :: "swap_state \<Rightarrow> nat \<Rightarrow> swap_file \<Rightarrow> swap_state" where
  "set_file s i f = s\<lparr>swap_areas := (swap_areas s)[i := (swap_areas s ! i)\<lparr>sa_file := f\<rparr>]\<rparr>"

definition page_offset :: "u32 \<Rightarrow> u64" where
  "page_offset entry = ucast (of_nat (entry_page entry) * of_nat swap_page_size :: u32)"

definition run_monitor :: "u64 \<Rightarrow> u64 \<Rightarrow> u64 \<Rightarrow> swap_state \<Rightarrow> swap_state" where
  "run_monitor ticks swap_in swap_out s =
     (case swap_monitor_update ticks swap_in swap_out (sw_monitor s, sw_priority s, sw_comp s) of
        (m, p, c) \<Rightarrow> s\<lparr>sw_monitor := m, sw_priority := p, sw_comp := c\<rparr>)"

text \<open>Storing the bytes of a read in a buffer.\<close>

definition fill_buffer :: "buffer \<Rightarrow> u8 list \<Rightarrow> buffer option" where
  "fill_buffer buf bytes = (if length bytes \<le> length buf then Some (bytes @ drop (length bytes) buf) else None)"

text \<open>Writing the size and then the data at the place of the entry.\<close>

definition write_out :: "u64 \<Rightarrow> swap_state \<Rightarrow> u32 \<Rightarrow> u8 list \<Rightarrow> int \<Rightarrow> swap_state \<times> int" where
  "write_out ticks s entry bytes compressed_size =
     (let i = entry_area entry;
          f1 = fst (fs_seek (sa_file (swap_areas s ! i)) (page_offset entry) SEEK_SET)
      in case fs_write f1 (size_bytes compressed_size) of
           (f2, ret) \<Rightarrow>
             if ret \<noteq> 4 then (set_file s i f2, - EIO)
             else case fs_write f2 bytes of
               (f3, ret2) \<Rightarrow>
                 if ret2 \<noteq> compressed_size then (set_file s i f3, - EIO)
                 else let s1 = set_file s i f3
                      in (run_monitor ticks 0 1 (s1\<lparr>swap_out_count := swap_out_count s1 + 1,
                            swap_out_bytes := swap_out_bytes s1 + of_nat swap_page_size\<rparr>), 0))"

text \<open>\<open>alloc\<close> is the compression buffer as allocated, of two pages.\<close>

definition swap_write :: "u64 \<Rightarrow> buffer option \<Rightarrow> swap_state \<Rightarrow> u32 \<Rightarrow> buffer option \<Rightarrow> (swap_state \<times> int) option" where
  "swap_write ticks alloc s entry data =
     (case data of
        None \<Rightarrow> Some (s, - EINVAL)
      | Some d \<Rightarrow>
          if entry = 0 then Some (s, - EINVAL)
          else Option.bind (check_entry s entry) (\<lambda>ok.
            if \<not> ok then Some (s, - EINVAL)
            else case alloc of
              None \<Rightarrow> Some (s, - ENOMEM)
            | Some cb \<Rightarrow>
                Option.bind (swap_compress_page (sw_comp s) data (Some cb) swap_page_size (2 * swap_page_size)) (\<lambda>(c, cb', n).
                  let s1 = s\<lparr>sw_comp := c\<rparr>
                  in if n < 0 then Some (write_out ticks s1 entry (take swap_page_size d) (int swap_page_size))
                     else Option.bind cb' (\<lambda>b. Some (write_out ticks s1 entry (take (nat n) b) n)))))"

definition count_read :: "u64 \<Rightarrow> swap_state \<Rightarrow> swap_state" where
  "count_read ticks s = run_monitor ticks 1 0 (s\<lparr>swap_in_count := swap_in_count s + 1,
     swap_in_bytes := swap_in_bytes s + of_nat swap_page_size\<rparr>)"

text \<open>The two ways to get the page after its size was read; \<open>alloc\<close> gives a buffer of the size asked for, if any.\<close>

definition read_raw :: "u64 \<Rightarrow> swap_state \<Rightarrow> nat \<Rightarrow> swap_file \<Rightarrow> buffer \<Rightarrow> (swap_state \<times> buffer \<times> int) option" where
  "read_raw ticks s i f data =
     (case fs_read f swap_page_size of
        (f1, bytes, ret) \<Rightarrow>
          Option.bind (fill_buffer data bytes) (\<lambda>data1.
            if ret \<noteq> int swap_page_size then Some (set_file s i f1, data1, - EIO)
            else Some (count_read ticks (set_file s i f1), data1, 0)))"

definition read_packed :: "u64 \<Rightarrow> (nat \<Rightarrow> buffer option) \<Rightarrow> swap_state \<Rightarrow> nat \<Rightarrow> swap_file \<Rightarrow> buffer \<Rightarrow> int \<Rightarrow>
    (swap_state \<times> buffer \<times> int) option" where
  "read_packed ticks alloc s i f data compressed_size =
     (let n = unat (of_int compressed_size :: u32)
      in case alloc n of
           None \<Rightarrow> Some (set_file s i f, data, - ENOMEM)
         | Some cb \<Rightarrow>
             (case fs_read f n of
                (f1, bytes, ret) \<Rightarrow>
                  Option.bind (fill_buffer cb bytes) (\<lambda>cb1.
                    if ret \<noteq> compressed_size then Some (set_file s i f1, data, - EIO)
                    else
                      Option.bind (swap_decompress_page (sw_comp s) (Some cb1) (Some data) n swap_page_size) (\<lambda>(c, data1, ret1).
                      Option.bind data1 (\<lambda>d1.
                        let s1 = (set_file s i f1)\<lparr>sw_comp := c\<rparr>
                        in if ret1 \<noteq> int swap_page_size then Some (s1, d1, - EIO)
                           else Some (count_read ticks s1, d1, 0))))))"

definition swap_read :: "u64 \<Rightarrow> (nat \<Rightarrow> buffer option) \<Rightarrow> swap_state \<Rightarrow> u32 \<Rightarrow> buffer option \<Rightarrow> (swap_state \<times> buffer option \<times> int) option" where
  "swap_read ticks alloc s entry data =
     (case data of
        None \<Rightarrow> Some (s, None, - EINVAL)
      | Some d \<Rightarrow>
          if entry = 0 then Some (s, data, - EINVAL)
          else Option.bind (check_entry s entry) (\<lambda>ok.
            if \<not> ok then Some (s, data, - EINVAL)
            else
              let i = entry_area entry;
                  f1 = fst (fs_seek (sa_file (swap_areas s ! i)) (page_offset entry) SEEK_SET)
              in case fs_read f1 4 of
                   (f2, bytes, ret) \<Rightarrow>
                     if ret \<noteq> 4 then Some (set_file s i f2, data, - EIO)
                     else if length bytes \<noteq> 4 then None
                     else map_option (\<lambda>(s', d', r). (s', Some d', r))
                       (if bytes_size bytes = int swap_page_size then read_raw ticks s i f2 d
                        else read_packed ticks alloc s i f2 d (bytes_size bytes))))"

end
