(* ===== verification/Swap_Compress_Props.thy ===== *)
theory Swap_Compress_Props
  imports Swap_Compress
begin

text \<open>
  Run-length encoding as a list of runs, the equivalence of the loops with it, and the round trip.
\<close>

section \<open>The runs of an input\<close>

fun runs :: "u8 list \<Rightarrow> (nat \<times> u8) list" where
  "runs [] = []"
| "runs (x # xs) = (let k = length (takeWhile ((=) x) (take 254 xs)) in (Suc k, x) # runs (drop k xs))"

definition encode :: "(nat \<times> u8) list \<Rightarrow> u8 list" where
  "encode rs = concat (map (\<lambda>(n, v). [of_nat n, v]) rs)"

definition decode :: "(nat \<times> u8) list \<Rightarrow> u8 list" where
  "decode rs = concat (map (\<lambda>(n, v). replicate n v) rs)"

lemma encode_simps [simp]: "encode [] = []" "encode ((n, v) # rs) = of_nat n # v # encode rs"
  by (simp_all add: encode_def)

lemma decode_simps [simp]: "decode [] = []" "decode ((n, v) # rs) = replicate n v @ decode rs"
  by (simp_all add: decode_def)

lemma length_encode [simp]: "length (encode rs) = 2 * length rs"
  by (induction rs) auto

lemma take_same: "take (length (takeWhile ((=) x) (take m xs))) xs = replicate (length (takeWhile ((=) x) (take m xs))) x"
proof (induction xs arbitrary: m)
  case (Cons y ys)
  then show ?case by (cases m) auto
qed simp

lemma decode_runs [simp]: "decode (runs xs) = xs"
proof (induction xs rule: runs.induct)
  case (2 x xs)
  let ?k = "length (takeWhile ((=) x) (take 254 xs))"
  have "replicate ?k x @ drop ?k xs = xs" using take_same [of x 254 xs] by (metis append_take_drop_id)
  with 2 show ?case by (simp add: Let_def)
qed simp

lemma length_runs: "length (runs xs) \<le> length xs"
proof (induction xs rule: runs.induct)
  case (2 x xs)
  from 2 [OF refl] have "length (runs (drop (length (takeWhile ((=) x) (take 254 xs))) xs)) \<le> length xs" by simp
  then show ?case by (simp add: Let_def)
qed simp

lemma runs_bounded: "(n, v) \<in> set (runs xs) \<Longrightarrow> 0 < n \<and> n \<le> 255"
proof (induction xs rule: runs.induct)
  case (2 x xs)
  have "length (takeWhile ((=) x) (take 254 xs)) \<le> length (take 254 xs)" by (rule length_takeWhile_le)
  then have "length (takeWhile ((=) x) (take 254 xs)) \<le> 254" by simp
  with 2 show ?case by (auto simp: Let_def)
qed simp

section \<open>The loops compute them\<close>

lemma find_run_result:
  assumes "n \<le> length src" and "r \<le> 255"
  shows "find_run src p n v r = Some (r + length (takeWhile ((=) v) (take (255 - r) (drop (p + r) (take n src)))))"
  using assms
proof (induction src p n v r rule: find_run.induct)
  case (1 src p n v r)
  show ?case
  proof (cases "p + r < n")
    case False
    then show ?thesis by (subst find_run.simps) simp
  next
    case True
    then have d: "drop (p + r) (take n src) = src ! (p + r) # drop (p + Suc r) (take n src)"
      using 1(2) by (metis Cons_nth_drop_Suc add_Suc_right length_take min.absorb2 nth_take)
    show ?thesis
    proof (cases "src ! (p + r) = v \<and> r < 255")
      case True
      then have "255 - r = Suc (255 - Suc r)" by linarith
      then show ?thesis using 1 True d \<open>p + r < n\<close>
        by (subst find_run.simps) (simp add: get_byte_def)
    next
      case False
      then show ?thesis using 1(2,3) d \<open>p + r < n\<close>
        by (subst find_run.simps) (auto simp: get_byte_def take_Cons')
    qed
  qed
qed

lemma put_two:
  assumes "Suc d < length dst"
  shows "Option.bind (put_byte dst d a) (\<lambda>x. Option.bind (put_byte x (d + 1) b) f) = f (take d dst @ a # b # drop (d + 2) dst)"
proof -
  define xs zs where "xs = take d dst" and "zs = drop (d + 2) dst"
  have "dst = xs @ dst ! d # dst ! Suc d # zs"
    unfolding xs_def zs_def using assms by (metis Cons_nth_drop_Suc Suc_lessD add_2_eq_Suc' append_take_drop_id)
  then obtain x y where "dst = xs @ x # y # zs" "length xs = d" using assms by (auto simp: xs_def)
  then have "dst[d := a, Suc d := b] = xs @ a # b # zs" by (auto simp: list_update_append)
  then have "dst[d := a, Suc d := b] = take d dst @ a # b # drop (d + 2) dst" by (simp add: xs_def zs_def)
  then show ?thesis using assms by (simp add: put_byte_def)
qed

lemma compress_loop_result:
  assumes "n \<le> length src" and "out \<le> length dst" and "d \<le> out"
  shows "if d + length (encode (runs (drop p (take n src)))) \<le> out
    then compress_loop src n out p d dst =
      Some (take d dst @ encode (runs (drop p (take n src))) @ drop (d + length (encode (runs (drop p (take n src))))) dst,
        int (d + length (encode (runs (drop p (take n src))))))
    else \<exists>dst'. compress_loop src n out p d dst = Some (dst', - ENOSPC)"
  using assms
proof (induction "n - p" arbitrary: p d dst rule: less_induct)
  case less
  show ?case
  proof (cases "p < n")
    case False
    then show ?thesis using less.prems by (subst (1 2) compress_loop.simps) simp
  next
    case True
    let ?v = "src ! p" and ?rest = "drop (Suc p) (take n src)"
    let ?k = "length (takeWhile ((=) ?v) (take 254 ?rest))"
    have d: "drop p (take n src) = ?v # ?rest"
      using True less.prems(1) by (metis Cons_nth_drop_Suc length_take min.absorb2 nth_take)
    then have runs: "runs (drop p (take n src)) = (Suc ?k, ?v) # runs (drop (p + Suc ?k) (take n src))"
      by (simp add: Let_def add.commute)
    have find: "find_run src p n ?v 1 = Some (Suc ?k)" using find_run_result [of n src 1 p ?v] less.prems(1) by simp
    have get: "get_byte src p = Some ?v" using True less.prems(1) by (simp add: get_byte_def)
    show ?thesis
    proof (cases "d + 2 > out")
      case True
      then show ?thesis using \<open>p < n\<close> runs find get by (subst (1 2) compress_loop.simps) simp
    next
      case False
      let ?dst = "take d dst @ of_nat (Suc ?k) # ?v # drop (d + 2) dst"
      have step: "compress_loop src n out p d dst = compress_loop src n out (p + Suc ?k) (d + 2) ?dst"
        using \<open>p < n\<close> False find get less.prems(2) put_two [of d dst "of_nat (Suc ?k)" ?v]
        by (subst compress_loop.simps) (simp del: of_nat_Suc)
      have len: "length ?dst = length dst" using False less.prems(2) by simp
      have "n - (p + Suc ?k) < n - p" using \<open>p < n\<close> by simp
      note IH = less.hyps [OF this less.prems(1), of ?dst "d + 2"]
      have "take (d + 2) ?dst = take d dst @ [of_nat (Suc ?k), ?v]" using False less.prems(2) by simp
      moreover have "drop (d + 2 + m) ?dst = drop (d + 2 + m) dst" for m using False less.prems(2) by (simp add: add.commute)
      ultimately show ?thesis using IH len False less.prems(2) unfolding step runs
        by (simp add: add.assoc del: of_nat_Suc split: if_splits)
    qed
  qed
qed

lemma write_run_result:
  "d + n \<le> length dst \<Longrightarrow> write_run dst d n v = Some (take d dst @ replicate n v @ drop (d + n) dst)"
proof (induction n arbitrary: d dst)
  case (Suc n)
  have "take (Suc d) (dst[d := v]) = take d dst @ [v]" using Suc.prems by (simp add: take_Suc_conv_app_nth)
  with Suc show ?case by (simp add: put_byte_def)
qed simp

lemma decompress_loop_result:
  assumes "drop p (take n src) = encode rs" and "n \<le> length src" and "\<forall>(k, v)\<in>set rs. k \<le> 255"
    and "d + length (decode rs) \<le> out" and "out \<le> length dst"
  shows "decompress_loop src n out p d dst =
    Some (take d dst @ decode rs @ drop (d + length (decode rs)) dst, int (d + length (decode rs)))"
  using assms
proof (induction rs arbitrary: p d dst)
  case Nil
  then have "\<not> p < n" by simp
  then show ?case by (subst decompress_loop.simps) simp
next
  case (Cons kv rs)
  obtain k v where kv: "kv = (k, v)" by (cases kv)
  have e: "drop p (take n src) = of_nat k # v # encode rs" using Cons.prems(1) kv by simp
  then have "length (drop p (take n src)) = length (of_nat k # v # encode rs)" by simp
  then have p: "Suc p < n" using Cons.prems(2) by simp
  have "drop p (take n src) ! 0 = of_nat k" "drop p (take n src) ! 1 = v" unfolding e by simp_all
  then have get: "get_byte src p = Some (of_nat k)" "get_byte src (p + 1) = Some v"
    using p Cons.prems(2) by (simp_all add: get_byte_def)
  have "drop 2 (drop p (take n src)) = encode rs" unfolding e by simp
  then have rest: "drop (p + 2) (take n src) = encode rs" by (simp add: add.commute)
  have k: "unat (of_nat k :: u8) = k" using Cons.prems(3) kv by (simp add: unsigned_of_nat take_bit_nat_eq_self)
  let ?dst = "take d dst @ replicate k v @ drop (d + k) dst"
  have w: "write_run dst d k v = Some ?dst" using Cons.prems(4,5) kv by (intro write_run_result) simp
  have "decompress_loop src n out p d dst = decompress_loop src n out (p + 2) (d + k) ?dst"
    using p get k w Cons.prems(4) kv by (subst decompress_loop.simps) simp
  also have "\<dots> = Some (take (d + k) ?dst @ decode rs @ drop (d + k + length (decode rs)) ?dst, int (d + k + length (decode rs)))"
    using Cons.prems kv by (intro Cons.IH [OF rest]) auto
  finally show ?case using Cons.prems(4,5) kv by (simp add: add.assoc add.commute)
qed

section \<open>Round trip\<close>

lemma rle_compress:
  assumes "2 * length xs \<le> out" and "out \<le> length dst"
  shows "swap_compress_lz4 xs dst (length xs) out = Some (encode (runs xs) @ drop (2 * length (runs xs)) dst, int (2 * length (runs xs)))"
  using compress_loop_result [of "length xs" xs out dst 0 0] length_runs [of xs] assms by (simp add: swap_compress_lz4_def)

lemma rle_decompress:
  assumes "length xs \<le> length buf"
  shows "swap_decompress_lz4 (encode (runs xs) @ rest) buf (2 * length (runs xs)) (length xs) = Some (xs @ drop (length xs) buf, int (length xs))"
proof -
  let ?k = "2 * length (runs xs)"
  have "drop 0 (take ?k (encode (runs xs) @ rest)) = encode (runs xs)" by simp
  from decompress_loop_result [OF this, of 0 "length xs" buf] assms show ?thesis
    by (auto simp: swap_decompress_lz4_def dest: runs_bounded)
qed

text \<open>What the compressed page is, by algorithm.\<close>

definition packed :: "u32 \<Rightarrow> u8 list \<Rightarrow> u8 list" where
  "packed algo xs = (if algo = SWAP_COMPRESS_NONE then xs else encode (runs xs))"

lemma algo_cases:
  assumes "(algo :: u32) \<le> SWAP_COMPRESS_ZSTD"
  obtains "algo = SWAP_COMPRESS_NONE" | "algo = SWAP_COMPRESS_LZ4" | "algo = SWAP_COMPRESS_ZLIB" | "algo = SWAP_COMPRESS_ZSTD"
proof -
  have "unat algo \<le> 3" using assms by (simp add: word_le_nat_alt algo_defs)
  then have "unat algo = 0 \<or> unat algo = 1 \<or> unat algo = 2 \<or> unat algo = 3" by linarith
  then have "algo = 0 \<or> algo = 1 \<or> algo = 2 \<or> algo = 3"
    by (elim disjE) (simp_all add: word_unat_eq_iff)
  then show thesis using that by (auto simp: algo_defs)
qed

lemma packed_length:
  assumes "xs \<noteq> []"
  shows "0 < length (packed algo xs)" and "length (packed algo xs) \<le> 2 * length xs"
  using assms length_runs [of xs] by (cases xs, auto simp: packed_def Let_def)

lemma swap_compress_page_result:
  assumes "current_algo s \<le> SWAP_COMPRESS_ZSTD" and "xs \<noteq> []" and "2 * length xs \<le> out" and "out \<le> length dst"
  shows "swap_compress_page s (Some xs) (Some dst) (length xs) out =
    Some (count_compressed s (length xs) (int (length (packed (current_algo s) xs))),
      Some (packed (current_algo s) xs @ drop (length (packed (current_algo s) xs)) dst), int (length (packed (current_algo s) xs)))"
proof -
  have "compress_switch (current_algo s) xs dst (length xs) out =
      Some (False, packed (current_algo s) xs @ drop (length (packed (current_algo s) xs)) dst, int (length (packed (current_algo s) xs)))"
    using assms(1) by (rule algo_cases)
      (use assms rle_compress [OF assms(3,4)] in \<open>simp_all add: compress_switch_def packed_def copy_bytes_def algo_defs
        swap_compress_zlib_def swap_compress_zstd_def\<close>)
  moreover have "0 < out" using assms(2,3) by (cases xs) auto
  ultimately show ?thesis using assms packed_length(1) [OF assms(2), of "current_algo s"] by (simp add: swap_compress_page_def)
qed

lemma swap_decompress_page_result:
  assumes "current_algo s \<le> SWAP_COMPRESS_ZSTD" and "xs \<noteq> []" and "length xs \<le> length buf"
  shows "\<exists>s'. swap_decompress_page s (Some (packed (current_algo s) xs @ rest)) (Some buf) (length (packed (current_algo s) xs)) (length xs) =
    Some (s', Some (xs @ drop (length xs) buf), int (length xs)) \<and> current_algo s' = current_algo s"
proof -
  have "decompress_switch (current_algo s) (packed (current_algo s) xs @ rest) buf (length (packed (current_algo s) xs)) (length xs) =
      Some (False, xs @ drop (length xs) buf, int (length xs))"
    using assms(1) by (rule algo_cases)
      (use assms rle_decompress [OF assms(3), of rest] in \<open>simp_all add: decompress_switch_def
        packed_def copy_bytes_def algo_defs swap_decompress_zlib_def swap_decompress_zstd_def\<close>)
  then show ?thesis using assms packed_length(1) [OF assms(2), of "current_algo s"] by (simp add: swap_decompress_page_def)
qed

text \<open>
  C7. A page comes back as it was: with any algorithm set and an output buffer of at least twice the size,
  compressing succeeds, uses at most twice the size, and decompressing the result under the same algorithm
  gives the page.
\<close>

theorem compress_page_roundtrip:
  assumes "current_algo s \<le> SWAP_COMPRESS_ZSTD" and "xs \<noteq> []" and "2 * length xs \<le> out" and "out \<le> length dst"
    and "length xs \<le> length buf"
  shows "\<exists>s1 dst' k s2 buf'. swap_compress_page s (Some xs) (Some dst) (length xs) out = Some (s1, Some dst', int k) \<and>
    0 < k \<and> k \<le> 2 * length xs \<and>
    swap_decompress_page s1 (Some dst') (Some buf) k (length xs) = Some (s2, Some buf', int (length xs)) \<and>
    take (length xs) buf' = xs"
proof -
  let ?p = "packed (current_algo s) xs"
  let ?s1 = "count_compressed s (length xs) (int (length ?p))"
  have a: "current_algo ?s1 = current_algo s" by (simp add: count_compressed_def)
  obtain s2 where
    "swap_decompress_page ?s1 (Some (?p @ drop (length ?p) dst)) (Some buf) (length ?p) (length xs) =
      Some (s2, Some (xs @ drop (length xs) buf), int (length xs))"
    using swap_decompress_page_result [of ?s1 xs buf] assms(1,2,5) unfolding a by blast
  with swap_compress_page_result [OF assms(1-4)] packed_length [OF assms(2), of "current_algo s"] show ?thesis
    by (intro exI conjI) auto
qed

theorem compress_page_roundtrip_witness:
  "\<exists>s1 dst' k s2 buf'. swap_compress_page (swap_compress_init None None) (Some [7, 7, 7, 9]) (Some (replicate 8 0)) 4 8 = Some (s1, Some dst', int k) \<and>
    swap_decompress_page s1 (Some dst') (Some (replicate 4 0)) k 4 = Some (s2, Some buf', 4) \<and> take 4 buf' = [7, 7, 7, 9]"
proof -
  let ?xs = "[7, 7, 7, 9] :: u8 list"
  have l: "length ?xs = 4" "int 4 = 4" by simp_all
  have "current_algo (swap_compress_init None None) \<le> SWAP_COMPRESS_ZSTD" "2 * length ?xs \<le> 8" "8 \<le> length (replicate 8 (0 :: u8))"
    "length ?xs \<le> length (replicate 4 (0 :: u8))" by (simp_all add: swap_compress_init_def algo_defs)
  then show ?thesis using compress_page_roundtrip [of "swap_compress_init None None" ?xs 8 "replicate 8 0" "replicate 4 0"]
    unfolding l by blast
qed

end
