(* ===== verification/Swap_Props.thy ===== *)
theory Swap_Props
  imports Swap Swap_Compress_Props
begin

text \<open>
  Swap areas: the set of slots in use, the invariant that every operation keeps, allocation, and what the
  entry format and \<^verbatim>\<open>fs_open\<close> get wrong.
\<close>

section \<open>Bitmaps as sets\<close>

definition marked :: "u32 list \<Rightarrow> nat set" where
  "marked bm = {j. j div 32 < length bm \<and> bit (bm ! (j div 32)) (j mod 32)}"

lemma bit_of_page: "bit (2 ^ (j mod 32) :: u32) (k mod 32) \<longleftrightarrow> j mod 32 = k mod 32"
  by (auto simp: bit_exp_iff)

lemma page_bit_marked: "j div 32 < length bm \<Longrightarrow> page_bit bm j = Some (j \<in> marked bm)"
  by (simp add: page_bit_def marked_def and_exp_eq_0_iff_not_bit)

lemma div_mod_32_eq: "j div 32 = k div 32 \<Longrightarrow> j mod 32 = k mod 32 \<Longrightarrow> j = (k :: nat)"
  by (metis div_mult_mod_eq)

lemma marked_set: "j div 32 < length bm \<Longrightarrow> marked (set_page_bit bm j) = insert j (marked bm)"
  by (auto simp: marked_def set_page_bit_def nth_list_update bit_or_iff bit_of_page dest: div_mod_32_eq)

lemma marked_clear: "j div 32 < length bm \<Longrightarrow> marked (clear_page_bit bm j) = marked bm - {j}"
  by (auto simp: marked_def clear_page_bit_def nth_list_update bit_and_iff bit_not_iff bit_of_page dest: div_mod_32_eq)

lemma length_page_bits [simp]: "length (set_page_bit bm j) = length bm" "length (clear_page_bit bm j) = length bm"
  by (simp_all add: set_page_bit_def clear_page_bit_def)

lemma find_free_page_result:
  assumes "\<forall>k<j + n. k div 32 < length bm"
  shows "\<exists>r. find_free_page bm j n = Some r \<and>
    (case r of None \<Rightarrow> \<forall>k. j \<le> k \<and> k < j + n \<longrightarrow> k \<in> marked bm
     | Some k \<Rightarrow> j \<le> k \<and> k < j + n \<and> k \<notin> marked bm \<and> (\<forall>l. j \<le> l \<and> l < k \<longrightarrow> l \<in> marked bm))"
  using assms
proof (induction n arbitrary: j)
  case (Suc n)
  have b: "page_bit bm j = Some (j \<in> marked bm)" using Suc.prems by (intro page_bit_marked) simp
  show ?case
  proof (cases "j \<in> marked bm")
    case True
    from Suc.IH [of "Suc j"] Suc.prems obtain r where
      r: "find_free_page bm (Suc j) n = Some r"
        "case r of None \<Rightarrow> \<forall>k. Suc j \<le> k \<and> k < Suc j + n \<longrightarrow> k \<in> marked bm
         | Some k \<Rightarrow> Suc j \<le> k \<and> k < Suc j + n \<and> k \<notin> marked bm \<and> (\<forall>l. Suc j \<le> l \<and> l < k \<longrightarrow> l \<in> marked bm)" by auto
    have "j < l" if "j \<le> l" "l \<noteq> j" for l using that by simp
    with r True b show ?thesis by (auto split: option.splits simp: Suc_le_eq) (metis le_neq_implies_less)+
  qed (use b in auto)
qed auto

section \<open>The invariant\<close>

definition area_ok :: "swap_area \<Rightarrow> bool" where
  "area_ok a \<longleftrightarrow> unat (sa_size a) < 2 ^ 20 \<and> length (sa_bitmap a) = (unat (sa_size a) + 31) div 32 \<and>
     marked (sa_bitmap a) \<subseteq> {..<unat (sa_size a)} \<and> unat (sa_used a) = card (marked (sa_bitmap a))"

definition swap_inv :: "swap_state \<Rightarrow> bool" where
  "swap_inv s \<longleftrightarrow> length (swap_areas s) \<le> 8 \<and> (\<forall>a\<in>set (swap_areas s). area_ok a)"

text \<open>The slots in use, and all slots there are.\<close>

definition slots :: "swap_state \<Rightarrow> (nat \<times> nat) set" where
  "slots s = {(i, j). i < length (swap_areas s) \<and> j \<in> marked (sa_bitmap (swap_areas s ! i))}"

definition all_slots :: "swap_state \<Rightarrow> (nat \<times> nat) set" where
  "all_slots s = {(i, j). i < length (swap_areas s) \<and> j < unat (sa_size (swap_areas s ! i))}"

lemma area_word: "area_ok a \<Longrightarrow> j < unat (sa_size a) \<Longrightarrow> j div 32 < length (sa_bitmap a)"
  by (simp add: area_ok_def)

lemma area_marked_less: "area_ok a \<Longrightarrow> j \<in> marked (sa_bitmap a) \<Longrightarrow> j < unat (sa_size a)"
  unfolding area_ok_def by blast

lemma area_marked_finite: "area_ok a \<Longrightarrow> finite (marked (sa_bitmap a))"
  by (auto simp: area_ok_def intro: finite_subset)

lemma area_full_iff:
  assumes "area_ok a"
  shows "sa_used a \<ge> sa_size a \<longleftrightarrow> marked (sa_bitmap a) = {..<unat (sa_size a)}"
proof -
  have sub: "marked (sa_bitmap a) \<subseteq> {..<unat (sa_size a)}" and used: "unat (sa_used a) = card (marked (sa_bitmap a))"
    using assms by (simp_all add: area_ok_def)
  show ?thesis
  proof
    assume "sa_used a \<ge> sa_size a"
    then have "card {..<unat (sa_size a)} \<le> card (marked (sa_bitmap a))" using used by (simp add: word_le_nat_alt)
    then show "marked (sa_bitmap a) = {..<unat (sa_size a)}" using sub by (intro card_seteq) auto
  next
    assume "marked (sa_bitmap a) = {..<unat (sa_size a)}"
    then show "sa_used a \<ge> sa_size a" using used by (simp add: word_le_nat_alt)
  qed
qed

lemma unat_Suc_word: "unat (w :: u32) < 2 ^ 20 \<Longrightarrow> unat (w + 1) = Suc (unat w)"
  by (simp add: unat_word_ariths)

lemma unat_pred_word: "0 < unat (w :: u32) \<Longrightarrow> unat (w - 1) = unat w - 1"
  by (intro unat_minus_one) auto

lemma area_mark:
  assumes "area_ok a" and "j < unat (sa_size a)" and "j \<notin> marked (sa_bitmap a)"
  shows "area_ok (a\<lparr>sa_bitmap := set_page_bit (sa_bitmap a) j, sa_used := sa_used a + 1\<rparr>)"
proof -
  have "card (marked (sa_bitmap a)) \<le> card {..<unat (sa_size a)}"
    using assms(1) by (intro card_mono) (auto simp: area_ok_def)
  then have "unat (sa_used a) < 2 ^ 20" using assms(1) by (simp add: area_ok_def)
  from unat_Suc_word [OF this] show ?thesis
    using assms area_marked_finite [OF assms(1)] by (simp add: area_ok_def marked_set [OF area_word [OF assms(1,2)]])
qed

lemma area_unmark:
  assumes "area_ok a" and "j \<in> marked (sa_bitmap a)"
  shows "area_ok (a\<lparr>sa_bitmap := clear_page_bit (sa_bitmap a) j, sa_used := sa_used a - 1\<rparr>)"
proof -
  have j: "j < unat (sa_size a)" and used: "unat (sa_used a) = card (marked (sa_bitmap a))" using assms by (auto simp: area_ok_def)
  have "0 < unat (sa_used a)" using used assms(2) area_marked_finite [OF assms(1)] by (auto simp: card_gt_0_iff)
  from unat_pred_word [OF this] show ?thesis
    using assms area_marked_finite [OF assms(1)] by (auto simp: area_ok_def marked_clear [OF area_word [OF assms(1) j]])
qed

lemma set_area_inv:
  assumes "swap_inv s" and "area_ok a"
  shows "swap_inv (s\<lparr>swap_areas := (swap_areas s)[i := a]\<rparr>)"
  using assms set_update_subset_insert [of "swap_areas s" i a] by (auto simp: swap_inv_def)

section \<open>Entries\<close>

lemma nat_bit_less: "m < 2 ^ k \<Longrightarrow> bit (m :: nat) n \<Longrightarrow> n < k"
  by (metis bit_take_bit_iff take_bit_nat_eq_self)

lemma masks: "(0xFF :: u32) = Bit_Operations.mask 8" "(0xFFFFFF :: u32) = Bit_Operations.mask 24"
  by (simp_all add: mask_eq_exp_minus_1)

lemma entry_parts:
  assumes "i < 256" and "j < 2 ^ 24"
  shows "entry_area (push_bit 24 (of_nat i) OR of_nat j) = i" and "entry_page (push_bit 24 (of_nat i) OR of_nat j) = j"
proof -
  let ?e = "push_bit 24 (of_nat i) OR of_nat j :: u32"
  have i: "n < 8" if "bit i n" for n using that assms(1) nat_bit_less [of i 8 n] by simp
  have j: "n < 24" if "bit j n" for n using that assms(2) by (rule nat_bit_less [rotated])
  have "drop_bit 24 ?e AND 0xFF = of_nat i"
    unfolding masks by (rule bit_word_eqI)
      (auto simp: bit_and_iff bit_drop_bit_eq bit_or_iff bit_push_bit_iff bit_mask_iff bit_of_nat_iff dest: i j)
  moreover have "?e AND 0xFFFFFF = of_nat j"
    unfolding masks by (rule bit_word_eqI)
      (auto simp: bit_and_iff bit_or_iff bit_push_bit_iff bit_mask_iff bit_of_nat_iff dest: i j)
  ultimately show "entry_area ?e = i" "entry_page ?e = j"
    using assms by (simp_all add: entry_area_def entry_page_def unsigned_of_nat take_bit_nat_eq_self)
qed

lemma entry_zero: "entry_area e = 0 \<and> entry_page e = 0 \<longleftrightarrow> e = 0"
proof
  assume "entry_area e = 0 \<and> entry_page e = 0"
  then have z: "drop_bit 24 e AND 0xFF = 0" "e AND 0xFFFFFF = 0"
    by (simp_all add: entry_area_def entry_page_def unat_eq_0)
  have "\<not> bit e n" if "n < 32" for n
  proof (cases "n < 24")
    case True
    have "bit (e AND 0xFFFFFF) n \<longleftrightarrow> bit e n" unfolding masks using True by (simp add: bit_and_iff bit_mask_iff)
    then show ?thesis using z(2) by simp
  next
    case False
    have "bit (drop_bit 24 e AND 0xFF) (n - 24) \<longleftrightarrow> bit e n"
      unfolding masks using False that by (auto simp: bit_and_iff bit_mask_iff bit_drop_bit_eq)
    then show ?thesis using z(1) by simp
  qed
  then show "e = 0" by (intro bit_word_eqI) simp
qed (simp add: entry_area_def entry_page_def)

section \<open>Allocating and freeing\<close>

lemma slots_set_area:
  assumes "i < length (swap_areas s)"
  shows "slots (s\<lparr>swap_areas := (swap_areas s)[i := a]\<rparr>) = {(k, j) \<in> slots s. k \<noteq> i} \<union> {i} \<times> marked (sa_bitmap a)"
  using assms by (auto simp: slots_def nth_list_update split: if_splits)

lemma slots_row: "i < length (swap_areas s) \<Longrightarrow> (i, j) \<in> slots s \<longleftrightarrow> j \<in> marked (sa_bitmap (swap_areas s ! i))"
  by (simp add: slots_def)

lemma swap_inv_area: "swap_inv s \<Longrightarrow> i < length (swap_areas s) \<Longrightarrow> area_ok (swap_areas s ! i)"
  by (simp add: swap_inv_def)

lemma alloc_in_areas_result:
  assumes "swap_inv s" and "i + n = length (swap_areas s)" and "\<forall>k<i. \<forall>j. (k, j) \<in> all_slots s \<longrightarrow> (k, j) \<in> slots s"
  shows "(all_slots s \<subseteq> slots s \<and> alloc_in_areas s i n = Some (s, 0)) \<or>
    (\<exists>s' k j. alloc_in_areas s i n = Some (s', push_bit 24 (of_nat k) OR of_nat j) \<and> (k, j) \<in> all_slots s - slots s \<and>
      (\<forall>k' j'. (k', j') \<in> all_slots s \<and> (k' < k \<or> k' = k \<and> j' < j) \<longrightarrow> (k', j') \<in> slots s) \<and>
      swap_inv s' \<and> slots s' = insert (k, j) (slots s))"
  using assms(2,3)
proof (induction n arbitrary: i)
  case 0
  then show ?case by (auto simp: all_slots_def)
next
  case (Suc n)
  let ?a = "swap_areas s ! i"
  have i: "i < length (swap_areas s)" and ok: "area_ok ?a" using Suc.prems(1) swap_inv_area [OF assms(1)] by simp_all
  have skip: ?case if "\<forall>j<unat (sa_size ?a). j \<in> marked (sa_bitmap ?a)" and "alloc_in_areas s i (Suc n) = alloc_in_areas s (Suc i) n"
  proof -
    have "\<forall>k<Suc i. \<forall>j. (k, j) \<in> all_slots s \<longrightarrow> (k, j) \<in> slots s"
      using Suc.prems(2) that(1) i by (auto simp: less_Suc_eq all_slots_def slots_def)
    with Suc.IH [of "Suc i"] Suc.prems(1) that(2) show ?thesis by simp
  qed
  show ?case
  proof (cases "sa_used ?a \<ge> sa_size ?a")
    case True
    then show ?thesis using area_full_iff [OF ok] by (intro skip) (auto simp: Let_def)
  next
    case False
    from find_free_page_result [of 0 "unat (sa_size ?a)" "sa_bitmap ?a"] area_word [OF ok] obtain r where
      r: "find_free_page (sa_bitmap ?a) 0 (unat (sa_size ?a)) = Some r"
        "case r of None \<Rightarrow> \<forall>k. k < unat (sa_size ?a) \<longrightarrow> k \<in> marked (sa_bitmap ?a)
         | Some k \<Rightarrow> k < unat (sa_size ?a) \<and> k \<notin> marked (sa_bitmap ?a) \<and> (\<forall>l. l < k \<longrightarrow> l \<in> marked (sa_bitmap ?a))"
      by (auto split: option.splits)
    show ?thesis
    proof (cases r)
      case None
      with r False show ?thesis by (intro skip) (auto simp: Let_def)
    next
      case (Some j)
      with r have j: "j < unat (sa_size ?a)" "j \<notin> marked (sa_bitmap ?a)" "\<forall>l<j. l \<in> marked (sa_bitmap ?a)" by auto
      let ?a' = "?a\<lparr>sa_bitmap := set_page_bit (sa_bitmap ?a) j, sa_used := sa_used ?a + 1\<rparr>"
      let ?s = "s\<lparr>swap_areas := (swap_areas s)[i := ?a']\<rparr>"
      have "alloc_in_areas s i (Suc n) = Some (?s, push_bit 24 (of_nat i) OR of_nat j)"
        using False r(1) Some by (simp add: Let_def)
      moreover have "swap_inv ?s" by (rule set_area_inv [OF assms(1) area_mark [OF ok j(1,2)]])
      moreover have "slots ?s = insert (i, j) (slots s)"
        unfolding slots_set_area [OF i] using i by (auto simp: marked_set [OF area_word [OF ok j(1)]] slots_def)
      moreover have "(i, j) \<in> all_slots s - slots s" using i j by (simp add: all_slots_def slots_def)
      moreover have "(k', j') \<in> slots s" if "(k', j') \<in> all_slots s \<and> (k' < i \<or> k' = i \<and> j' < j)" for k' j'
        using that Suc.prems(2) j(3) i by (auto simp: slots_def)
      ultimately show ?thesis by blast
    qed
  qed
qed

lemma swap_alloc_result:
  assumes "swap_inv s"
  shows "(all_slots s \<subseteq> slots s \<and> swap_alloc s = Some (s, 0)) \<or>
    (\<exists>s' e. swap_alloc s = Some (s', e) \<and> (entry_area e, entry_page e) \<in> all_slots s - slots s \<and>
      (\<forall>k j. (k, j) \<in> all_slots s \<and> (k < entry_area e \<or> k = entry_area e \<and> j < entry_page e) \<longrightarrow> (k, j) \<in> slots s) \<and>
      swap_inv s' \<and> slots s' = insert (entry_area e, entry_page e) (slots s))"
proof -
  have parts: "entry_area (push_bit 24 (of_nat k) OR of_nat j) = k \<and> entry_page (push_bit 24 (of_nat k) OR of_nat j) = j"
    if "(k, j) \<in> all_slots s" for k j
  proof -
    have "k < length (swap_areas s)" "j < unat (sa_size (swap_areas s ! k))" using that by (simp_all add: all_slots_def)
    moreover from this swap_inv_area [OF assms] have "unat (sa_size (swap_areas s ! k)) < 2 ^ 20" by (simp add: area_ok_def)
    ultimately have "k < 256" "j < 2 ^ 24" using assms by (simp_all add: swap_inv_def)
    then show ?thesis using entry_parts by blast
  qed
  from alloc_in_areas_result [OF assms, of 0 "length (swap_areas s)"] consider
    "all_slots s \<subseteq> slots s" "swap_alloc s = Some (s, 0)"
  | s' k j where "swap_alloc s = Some (s', push_bit 24 (of_nat k) OR of_nat j)" "(k, j) \<in> all_slots s - slots s"
      "\<forall>k' j'. (k', j') \<in> all_slots s \<and> (k' < k \<or> k' = k \<and> j' < j) \<longrightarrow> (k', j') \<in> slots s"
      "swap_inv s'" "slots s' = insert (k, j) (slots s)"
    unfolding swap_alloc_def by auto
  then show ?thesis
  proof cases
    case (2 s' k j)
    with parts [of k j] show ?thesis by (intro disjI2 exI [of _ s'] exI [of _ "push_bit 24 (of_nat k) OR of_nat j"]) simp
  qed blast
qed

lemma check_entry_result:
  assumes "swap_inv s"
  shows "check_entry s e = Some ((entry_area e, entry_page e) \<in> slots s)"
proof (cases "(entry_area e, entry_page e) \<in> all_slots s")
  case True
  then have i: "entry_area e < length (swap_areas s)" and j: "entry_page e < unat (sa_size (swap_areas s ! entry_area e))"
    by (simp_all add: all_slots_def)
  from page_bit_marked [OF area_word [OF swap_inv_area [OF assms i] j]] i j show ?thesis
    by (simp add: check_entry_def slots_def Let_def)
next
  case False
  have "(entry_area e, entry_page e) \<notin> slots s"
    using False area_marked_less [OF swap_inv_area [OF assms]] by (auto simp: all_slots_def slots_def)
  then show ?thesis using False by (auto simp: check_entry_def all_slots_def Let_def)
qed

lemma swap_free_result:
  assumes "swap_inv s"
  shows "if e \<noteq> 0 \<and> (entry_area e, entry_page e) \<in> slots s
    then \<exists>s'. swap_free s e = Some (s', 0) \<and> swap_inv s' \<and> slots s' = slots s - {(entry_area e, entry_page e)} \<and>
      length (swap_areas s') = length (swap_areas s)
    else swap_free s e = Some (s, - EINVAL)"
proof (cases "e \<noteq> 0 \<and> (entry_area e, entry_page e) \<in> slots s")
  case True
  let ?i = "entry_area e" and ?j = "entry_page e"
  let ?a = "swap_areas s ! ?i"
  have i: "?i < length (swap_areas s)" and j: "?j \<in> marked (sa_bitmap ?a)" using True by (simp_all add: slots_def)
  have ok: "area_ok ?a" by (rule swap_inv_area [OF assms i])
  then have "?j < unat (sa_size ?a)" using j by (auto simp: area_ok_def)
  note w = area_word [OF ok this]
  let ?s = "s\<lparr>swap_areas := (swap_areas s)[?i := ?a\<lparr>sa_bitmap := clear_page_bit (sa_bitmap ?a) ?j, sa_used := sa_used ?a - 1\<rparr>]\<rparr>"
  have "swap_free s e = Some (?s, 0)" using True by (simp add: swap_free_def check_entry_result [OF assms] Let_def)
  moreover have "swap_inv ?s" by (rule set_area_inv [OF assms area_unmark [OF ok j]])
  moreover have "slots ?s = slots s - {(?i, ?j)}"
    unfolding slots_set_area [OF i] using i by (auto simp: marked_clear [OF w] slots_def)
  ultimately show ?thesis using True by auto
next
  case False
  then show ?thesis by (auto simp: swap_free_def check_entry_result [OF assms])
qed

section \<open>Transfers leave the tables alone\<close>

text \<open>What a transfer keeps of the areas: everything but the state of the drivers.\<close>

definition shape :: "swap_state \<Rightarrow> (string \<times> u32 \<times> u32 \<times> u32 list \<times> file_operations option) list" where
  "shape s = map (\<lambda>a. (sa_path a, sa_size a, sa_used a, sa_bitmap a, fl_ops (sa_file a))) (swap_areas s)"

lemma shape_area:
  assumes "shape s' = shape s"
  shows "length (swap_areas s') = length (swap_areas s)"
    and "i < length (swap_areas s) \<Longrightarrow> sa_path (swap_areas s' ! i) = sa_path (swap_areas s ! i) \<and>
      sa_size (swap_areas s' ! i) = sa_size (swap_areas s ! i) \<and> sa_used (swap_areas s' ! i) = sa_used (swap_areas s ! i) \<and>
      sa_bitmap (swap_areas s' ! i) = sa_bitmap (swap_areas s ! i) \<and>
      fl_ops (sa_file (swap_areas s' ! i)) = fl_ops (sa_file (swap_areas s ! i))"
proof -
  show len: "length (swap_areas s') = length (swap_areas s)" using arg_cong [OF assms, of length] by (simp add: shape_def)
  assume "i < length (swap_areas s)"
  with len arg_cong [OF assms, of "\<lambda>xs. xs ! i"]
  show "sa_path (swap_areas s' ! i) = sa_path (swap_areas s ! i) \<and>
      sa_size (swap_areas s' ! i) = sa_size (swap_areas s ! i) \<and> sa_used (swap_areas s' ! i) = sa_used (swap_areas s ! i) \<and>
      sa_bitmap (swap_areas s' ! i) = sa_bitmap (swap_areas s ! i) \<and>
      fl_ops (sa_file (swap_areas s' ! i)) = fl_ops (sa_file (swap_areas s ! i))"
    by (simp add: shape_def)
qed

lemma shape_slots: "shape s' = shape s \<Longrightarrow> slots s' = slots s"
  using shape_area [of s' s] by (auto simp: slots_def)

lemma shape_inv: "shape s' = shape s \<Longrightarrow> swap_inv s' = swap_inv s"
  using shape_area [of s' s] by (simp add: swap_inv_def area_ok_def all_set_conv_all_nth)

lemma shape_set_file:
  "i < length (swap_areas s) \<Longrightarrow> fl_ops f = fl_ops (sa_file (swap_areas s ! i)) \<Longrightarrow> shape (set_file s i f) = shape s"
  by (simp add: shape_def set_file_def map_update list_update_same_conv)

lemma fs_keeps_ops [simp]:
  "fl_ops (fst (fs_seek f off w)) = fl_ops f" "fl_ops (fst (fs_write f bs)) = fl_ops f" "fl_ops (fst (fs_read f n)) = fl_ops f"
  by (auto simp: fs_seek_def fs_write_def fs_read_def split: option.splits prod.splits)

lemma run_monitor_areas [simp]: "swap_areas (run_monitor t i out s) = swap_areas s"
  by (simp add: run_monitor_def split: prod.splits)

lemma shape_simps [simp]:
  "shape (run_monitor t i out s) = shape s" "shape (s\<lparr>sw_comp := c\<rparr>) = shape s" "shape (s\<lparr>sw_monitor := m\<rparr>) = shape s"
  "shape (s\<lparr>swap_out_count := n, swap_out_bytes := b\<rparr>) = shape s" "shape (count_read t s) = shape s"
  by (simp_all add: shape_def count_read_def)

lemma write_out_shape:
  assumes "entry_area e < length (swap_areas s)"
  shows "shape (fst (write_out t s e bs n)) = shape s"
proof -
  let ?f = "fst (fs_seek (sa_file (swap_areas s ! entry_area e)) (page_offset e) SEEK_SET)"
  obtain f2 r2 where f2: "fs_write ?f (size_bytes n) = (f2, r2)" by fastforce
  obtain f3 r3 where f3: "fs_write f2 bs = (f3, r3)" by fastforce
  have "fl_ops f2 = fl_ops (sa_file (swap_areas s ! entry_area e))" using fs_keeps_ops(2) [of ?f "size_bytes n"] f2 by simp
  moreover have "fl_ops f3 = fl_ops f2" using fs_keeps_ops(2) [of f2 bs] f3 by simp
  ultimately show ?thesis using assms f2 f3 by (simp add: write_out_def Let_def shape_set_file)
qed

lemma swap_write_shape:
  assumes "swap_inv s" and "swap_write t alloc s e d = Some (s', r)"
  shows "shape s' = shape s"
proof -
  have i: "entry_area e < length (swap_areas s)" if "(entry_area e, entry_page e) \<in> slots s" using that by (simp add: slots_def)
  have w: "shape s' = shape s" if "(entry_area e, entry_page e) \<in> slots s" "write_out t (s\<lparr>sw_comp := c\<rparr>) e bs n = (s', r)" for c bs n
    using write_out_shape [of e "s\<lparr>sw_comp := c\<rparr>" t bs n] i that by simp
  show ?thesis
    using assms(2) by (auto simp: swap_write_def check_entry_result [OF assms(1)] bind_Some_iff Let_def dest: w
      split: option.splits if_splits prod.splits)
qed

lemma read_shape:
  assumes "i < length (swap_areas s)" and "fl_ops f = fl_ops (sa_file (swap_areas s ! i))"
  shows "read_raw t s i f d = Some (s', d', r) \<Longrightarrow> shape s' = shape s"
    and "read_packed t alloc s i f d n = Some (s', d', r) \<Longrightarrow> shape s' = shape s"
proof -
  have f: "fl_ops f1 = fl_ops (sa_file (swap_areas s ! i))" if "fs_read f k = (f1, bs, x)" for f1 bs x k
    using fs_keeps_ops(3) [of f k] that assms(2) by simp
  show "read_raw t s i f d = Some (s', d', r) \<Longrightarrow> shape s' = shape s"
    by (auto simp: read_raw_def bind_Some_iff shape_set_file [OF assms(1)] dest!: f split: prod.splits if_splits)
  show "read_packed t alloc s i f d n = Some (s', d', r) \<Longrightarrow> shape s' = shape s"
    using assms by (auto simp: read_packed_def bind_Some_iff shape_set_file [OF assms(1)] Let_def dest!: f
      split: prod.splits if_splits option.splits)
qed

lemma swap_read_shape:
  assumes "swap_inv s" and "swap_read t alloc s e d = Some (s', d', r)"
  shows "shape s' = shape s"
proof (cases "d \<noteq> None \<and> e \<noteq> 0 \<and> (entry_area e, entry_page e) \<in> slots s")
  case True
  then obtain d0 where d: "d = Some d0" and i: "entry_area e < length (swap_areas s)" by (auto simp: slots_def)
  let ?f = "fst (fs_seek (sa_file (swap_areas s ! entry_area e)) (page_offset e) SEEK_SET)"
  obtain f2 bs ret where f2: "fs_read ?f 4 = (f2, bs, ret)" by (metis prod_cases3)
  have ops: "fl_ops f2 = fl_ops (sa_file (swap_areas s ! entry_area e))" using fs_keeps_ops(3) [of ?f 4] f2 by simp
  note sh = read_shape [OF i ops]
  show ?thesis
    using assms(2) True d f2 shape_set_file [OF i ops]
    by (auto simp: swap_read_def check_entry_result [OF assms(1)] Let_def dest: sh split: if_splits)
next
  case False
  then show ?thesis using assms(2) by (auto simp: swap_read_def check_entry_result [OF assms(1)] split: option.splits if_splits)
qed

section \<open>Runs\<close>

inductive swap_run :: "swap_state \<Rightarrow> swap_state \<Rightarrow> bool" for s0 where
  start: "swap_run s0 s0"
| add: "swap_run s0 s \<Longrightarrow> swap_run s0 (fst (swap_add fa alloc s path sz))"
| remove: "swap_run s0 s \<Longrightarrow> swap_run s0 (fst (swap_remove s path))"
| alloc: "swap_run s0 s \<Longrightarrow> swap_alloc s = Some (s', e) \<Longrightarrow> swap_run s0 s'"
| free: "swap_run s0 s \<Longrightarrow> swap_free s e = Some (s', r) \<Longrightarrow> swap_run s0 s'"
| swap_out: "swap_run s0 s \<Longrightarrow> swap_write t cb s e d = Some (s', r) \<Longrightarrow> swap_run s0 s'"
| swap_in: "swap_run s0 s \<Longrightarrow> swap_read t al s e d = Some (s', d', r) \<Longrightarrow> swap_run s0 s'"
| algo: "swap_run s0 s \<Longrightarrow> swap_run s0 (s\<lparr>sw_comp := fst (swap_compress_set_algo (sw_comp s) al)\<rparr>)"
| monitor_start: "swap_run s0 s \<Longrightarrow> swap_run s0 (s\<lparr>sw_monitor := fst (swap_monitor_start t (sw_monitor s))\<rparr>)"
| monitor_stop: "swap_run s0 s \<Longrightarrow> swap_run s0 (s\<lparr>sw_monitor := fst (swap_monitor_stop (sw_monitor s))\<rparr>)"
| monitor_interval: "swap_run s0 s \<Longrightarrow> swap_run s0 (s\<lparr>sw_monitor := fst (swap_monitor_set_interval (sw_monitor s) n)\<rparr>)"
| monitor_threshold: "swap_run s0 s \<Longrightarrow> swap_run s0 (s\<lparr>sw_monitor := fst (swap_monitor_set_threshold (sw_monitor s) n)\<rparr>)"
| monitor_adjust: "swap_run s0 s \<Longrightarrow> swap_run s0 (s\<lparr>sw_monitor := fst (swap_monitor_set_auto_adjust (sw_monitor s) en)\<rparr>)"

lemma marked_zero [simp]: "marked (replicate n 0) = {}"
  by (simp add: marked_def)

lemma new_area_ok: "area_ok \<lparr>sa_path = p, sa_file = f, sa_size = sz div of_nat swap_page_size, sa_used = 0,
    sa_bitmap = replicate (unat ((sz div of_nat swap_page_size + 31) div 32)) 0\<rparr>"
proof -
  let ?n = "sz div (4096 :: u32)"
  have "unat ?n = unat sz div 4096" by (simp add: unat_div)
  moreover have "unat sz < 2 ^ 32" using unsigned_less [where 'a = nat and w = sz] by simp
  ultimately have n: "unat ?n < 2 ^ 20" by simp
  then have "unat (?n + 31) = unat ?n + 31" by (simp add: unat_word_ariths)
  then have "unat ((?n + 31) div 32) = (unat ?n + 31) div 32" by (simp add: unat_div)
  with n show ?thesis by (simp add: area_ok_def swap_page_size_def)
qed

definition new_area :: "string \<Rightarrow> u32 \<Rightarrow> swap_area" where
  "new_area p sz = \<lparr>sa_path = take 255 p, sa_file = zeroed_file p, sa_size = sz div of_nat swap_page_size, sa_used = 0,
     sa_bitmap = replicate (unat ((sz div of_nat swap_page_size + 31) div 32)) 0\<rparr>"

lemma swap_add_cases: "fst (swap_add fa alloc s path sz) = s \<or>
    length (swap_areas s) < 8 \<and> (\<exists>p. fst (swap_add fa alloc s path sz) = s\<lparr>swap_areas := swap_areas s @ [new_area p sz]\<rparr>)"
  by (auto simp: swap_add_def fs_open_def zeroed_file_def MAX_SWAP_AREAS_def Let_def new_area_def split: option.splits)

lemma find_area_hit: "find_area as p \<noteq> length as \<Longrightarrow> find_area as p < length as"
  by (induction as) auto

lemma swap_remove_cases: "fst (swap_remove s path) = s \<or>
    (\<exists>i<length (swap_areas s). sa_used (swap_areas s ! i) = 0 \<and>
      fst (swap_remove s path) = s\<lparr>swap_areas := take i (swap_areas s) @ drop (Suc i) (swap_areas s)\<rparr>)"
proof (cases path)
  case (Some p)
  let ?i = "find_area (swap_areas s) p"
  have "sa_used (swap_areas s ! ?i) = 0 \<longleftrightarrow> \<not> 0 < sa_used (swap_areas s ! ?i)" by (simp add: word_gt_0)
  then show ?thesis using Some find_area_hit [of "swap_areas s" p]
    by (cases "?i \<noteq> length (swap_areas s) \<and> sa_used (swap_areas s ! ?i) = 0") (auto simp: swap_remove_def Let_def)
qed (simp add: swap_remove_def)

lemma removed_subset: "set (take i xs @ drop (Suc i) xs) \<subseteq> set xs"
  using set_take_subset [of i xs] set_drop_subset [of "Suc i" xs] by auto

text \<open>The two states of affairs that last: the invariant, and that no file has a driver.\<close>

lemma swap_run_inv: "swap_run s0 s \<Longrightarrow> swap_inv s0 \<Longrightarrow> swap_inv s"
proof (induction rule: swap_run.induct)
  case (add s fa alloc path sz)
  then show ?case using swap_add_cases [of fa alloc s path sz] by (auto simp: swap_inv_def new_area_ok new_area_def)
next
  case (remove s path)
  show ?case using swap_remove_cases [of s path]
  proof (elim disjE exE conjE)
    fix i
    assume i: "i < length (swap_areas s)"
      "fst (swap_remove s path) = s\<lparr>swap_areas := take i (swap_areas s) @ drop (Suc i) (swap_areas s)\<rparr>"
    show ?thesis using remove i removed_subset [of i "swap_areas s"] by (auto simp: swap_inv_def)
  qed (use remove in simp)
next
  case (alloc s s' e)
  then show ?case using swap_alloc_result [of s] by auto
next
  case (free s e s' r)
  then show ?case using swap_free_result [of s e] by (auto split: if_splits)
next
  case (swap_out s t cb e d s' r)
  then show ?case using shape_inv [OF swap_write_shape] by blast
next
  case (swap_in s t al e d s' d' r)
  then show ?case using shape_inv [OF swap_read_shape] by blast
qed (simp_all add: shape_inv [OF shape_simps(2)] shape_inv [OF shape_simps(3)])

definition driverless :: "swap_state \<Rightarrow> bool" where
  "driverless s \<longleftrightarrow> (\<forall>a\<in>set (swap_areas s). fl_ops (sa_file a) = None)"

lemma shape_driverless: "shape s' = shape s \<Longrightarrow> driverless s' = driverless s"
  using shape_area [of s' s] by (simp add: driverless_def all_set_conv_all_nth)

lemma driverless_update:
  assumes "driverless s" and "i < length (swap_areas s)"
  shows "driverless (s\<lparr>swap_areas := (swap_areas s)[i := (swap_areas s ! i)\<lparr>sa_bitmap := bm, sa_used := u\<rparr>]\<rparr>)"
proof -
  have "swap_areas s ! i \<in> set (swap_areas s)" using assms(2) by simp
  then have "fl_ops (sa_file (swap_areas s ! i)) = None" using assms(1) unfolding driverless_def by blast
  then show ?thesis using assms(1) set_update_subset_insert [of "swap_areas s" i "(swap_areas s ! i)\<lparr>sa_bitmap := bm, sa_used := u\<rparr>"]
    unfolding driverless_def by fastforce
qed

lemma alloc_driverless:
  "alloc_in_areas s i n = Some (s', e) \<Longrightarrow> i + n = length (swap_areas s) \<Longrightarrow> driverless s \<Longrightarrow> driverless s'"
proof (induction n arbitrary: i)
  case (Suc n)
  have "driverless (s\<lparr>swap_areas := (swap_areas s)[i := (swap_areas s ! i)\<lparr>sa_bitmap := bm, sa_used := u\<rparr>]\<rparr>)" for bm u
    using Suc.prems(2,3) by (intro driverless_update) simp_all
  with Suc.IH [of "Suc i"] Suc.prems show ?case by (auto simp: Let_def bind_Some_iff split: if_splits option.splits)
qed simp

lemma free_driverless:
  assumes "swap_inv s" and "driverless s" and "swap_free s e = Some (s', r)"
  shows "driverless s'"
proof (cases "e \<noteq> 0 \<and> (entry_area e, entry_page e) \<in> slots s")
  case True
  then have "entry_area e < length (swap_areas s)" by (simp add: slots_def)
  from driverless_update [OF assms(2) this] True assms(3) show ?thesis
    by (auto simp: swap_free_def check_entry_result [OF assms(1)] Let_def)
qed (use assms in \<open>auto simp: swap_free_def check_entry_result split: if_splits\<close>)

lemma swap_run_driverless: "swap_run s0 s \<Longrightarrow> swap_inv s0 \<Longrightarrow> driverless s0 \<Longrightarrow> driverless s"
proof (induction rule: swap_run.induct)
  case (add s fa alloc path sz)
  then show ?case using swap_add_cases [of fa alloc s path sz] by (auto simp: driverless_def new_area_def zeroed_file_def)
next
  case (remove s path)
  show ?case using swap_remove_cases [of s path]
  proof (elim disjE exE conjE)
    fix i
    assume i: "i < length (swap_areas s)"
      "fst (swap_remove s path) = s\<lparr>swap_areas := take i (swap_areas s) @ drop (Suc i) (swap_areas s)\<rparr>"
    show ?thesis using remove i removed_subset [of i "swap_areas s"] by (auto simp: driverless_def)
  qed (use remove in simp)
next
  case (alloc s s' e)
  then show ?case using alloc_driverless [of s 0 "length (swap_areas s)" s' e] by (simp add: swap_alloc_def)
next
  case (free s e s' r)
  then show ?case using free_driverless swap_run_inv by blast
next
  case (swap_out s t cb e d s' r)
  then show ?case using shape_driverless [OF swap_write_shape] swap_run_inv by blast
next
  case (swap_in s t al e d s' d' r)
  then show ?case using shape_driverless [OF swap_read_shape] swap_run_inv by blast
qed (simp_all add: shape_driverless [OF shape_simps(2)] shape_driverless [OF shape_simps(3)])

section \<open>Claims\<close>

text \<open>
  C8. Allocation hands out the first free slot, in the order of areas and pages, and marks exactly it;
  when every slot is in use it changes nothing and returns zero. Freeing the entry of a used slot
  succeeds and frees exactly that slot, unless the entry is zero: the first slot of the first area has the
  entry zero, which also means that no slot was free, and \<^verbatim>\<open>swap_free\<close> refuses it. Both keep the invariant: the count of
  an area is the number of its marked pages, all inside the area.
\<close>

theorem swap_alloc_free_correct:
  assumes "swap_inv s"
  shows "(all_slots s \<subseteq> slots s \<and> swap_alloc s = Some (s, 0)) \<or>
    (\<exists>s' e. swap_alloc s = Some (s', e) \<and> (entry_area e, entry_page e) \<in> all_slots s - slots s \<and>
      (\<forall>k j. (k, j) \<in> all_slots s \<and> (k < entry_area e \<or> k = entry_area e \<and> j < entry_page e) \<longrightarrow> (k, j) \<in> slots s) \<and>
      swap_inv s' \<and> slots s' = insert (entry_area e, entry_page e) (slots s) \<and>
      (if e = 0 then swap_free s' e = Some (s', - EINVAL)
       else \<exists>s''. swap_free s' e = Some (s'', 0) \<and> swap_inv s'' \<and> slots s'' = slots s))"
  using swap_alloc_result [OF assms]
proof (elim disjE exE conjE)
  fix s' e
  assume a: "swap_alloc s = Some (s', e)" "(entry_area e, entry_page e) \<in> all_slots s - slots s"
    "\<forall>k j. (k, j) \<in> all_slots s \<and> (k < entry_area e \<or> k = entry_area e \<and> j < entry_page e) \<longrightarrow> (k, j) \<in> slots s"
    "swap_inv s'" "slots s' = insert (entry_area e, entry_page e) (slots s)"
  have "if e = 0 then swap_free s' e = Some (s', - EINVAL)
    else \<exists>s''. swap_free s' e = Some (s'', 0) \<and> swap_inv s'' \<and> slots s'' = slots s"
    using swap_free_result [OF a(4), of e] a(2,5) by (auto split: if_splits)
  with a show ?thesis by blast
qed blast

definition boot_swap :: swap_state where
  "boot_swap = \<lparr>swap_areas = [], swap_in_count = 0, swap_out_count = 0, swap_in_bytes = 0, swap_out_bytes = 0,
     sw_monitor = swap_monitor_init, sw_priority = SWAP_PRIORITY_ACCESS, sw_comp = swap_compress_init None None\<rparr>"

definition sample_swap :: swap_state where
  "sample_swap = fst (swap_add True True boot_swap (Some ''swapfile'') 8192)"

lemma sample_swap_areas: "swap_areas sample_swap = [new_area ''swapfile'' 8192]"
  by (simp add: sample_swap_def boot_swap_def swap_add_def fs_open_def zeroed_file_def MAX_SWAP_AREAS_def new_area_def Let_def)

lemma sample_swap_inv: "swap_inv sample_swap"
  by (simp add: swap_inv_def sample_swap_areas new_area_def new_area_ok)

lemma sample_swap_slots: "(0, 0) \<in> all_slots sample_swap" "slots sample_swap = {}"
  by (auto simp: all_slots_def slots_def sample_swap_areas new_area_def swap_page_size_def marked_def)

text \<open>The same area after the first slot was handed out.\<close>

definition first_used :: swap_state where
  "first_used = fst (the (swap_alloc sample_swap))"

lemma sample_area: "sa_size (new_area p 8192) = 2" "sa_bitmap (new_area p 8192) = [0]" "sa_used (new_area p 8192) = 0"
  by (simp_all add: new_area_def swap_page_size_def)

lemma first_used_areas:
  "swap_areas first_used = [(new_area ''swapfile'' 8192)\<lparr>sa_bitmap := [1], sa_used := 1\<rparr>]"
proof -
  have "find_free_page [0] 0 2 = Some (Some 0)" by (simp add: numeral_2_eq_2 page_bit_def)
  then show ?thesis by (simp add: first_used_def swap_alloc_def sample_swap_areas sample_area set_page_bit_def)
qed

lemma first_used_inv: "swap_inv first_used"
proof -
  have "\<not> all_slots sample_swap \<subseteq> slots sample_swap" using sample_swap_slots by blast
  with swap_alloc_result [OF sample_swap_inv] obtain s' e where "swap_alloc sample_swap = Some (s', e)" "swap_inv s'" by blast
  then show ?thesis by (simp add: first_used_def)
qed

lemma first_used_slots: "slots first_used = {(0, 0)}" "(i, j) \<in> all_slots first_used \<longleftrightarrow> i = 0 \<and> j < 2"
proof -
  have "j \<in> marked [1] \<longleftrightarrow> j = 0" for j
    by (cases "j < 32") (simp_all add: marked_def bit_1_iff div_greater_zero_iff)
  then have m: "marked [1] = {0}" by blast
  have one: "length (swap_areas first_used) = 1" "sa_bitmap (swap_areas first_used ! 0) = [1]"
      "unat (sa_size (swap_areas first_used ! 0)) = 2"
    by (simp_all add: first_used_areas sample_area)
  have "(i, j) \<in> slots first_used \<longleftrightarrow> i = 0 \<and> j = 0" for i j
    by (cases "i = 0") (simp_all add: slots_def one m)
  then show "slots first_used = {(0, 0)}" by auto
  show "(i, j) \<in> all_slots first_used \<longleftrightarrow> i = 0 \<and> j < 2"
    by (cases "i = 0") (simp_all add: all_slots_def one)
qed

text \<open>The second slot is handed out and released again.\<close>

theorem swap_alloc_free_correct_witness:
  "\<exists>s' e s''. swap_alloc first_used = Some (s', e) \<and> (entry_area e, entry_page e) = (0, 1) \<and> e \<noteq> 0 \<and>
     slots s' = {(0, 0), (0, 1)} \<and> swap_free s' e = Some (s'', 0) \<and> slots s'' = {(0, 0)}"
proof -
  have "(0, 1) \<in> all_slots first_used - slots first_used" by (simp add: first_used_slots)
  then have "\<not> all_slots first_used \<subseteq> slots first_used" by blast
  with swap_alloc_free_correct [OF first_used_inv] obtain s' e where
    a: "swap_alloc first_used = Some (s', e)" "(entry_area e, entry_page e) \<in> all_slots first_used - slots first_used"
      "slots s' = insert (entry_area e, entry_page e) (slots first_used)"
      "if e = 0 then swap_free s' e = Some (s', - EINVAL)
       else \<exists>s''. swap_free s' e = Some (s'', 0) \<and> swap_inv s'' \<and> slots s'' = slots first_used" by blast
  have e: "entry_area e = 0" "entry_page e = 1" using a(2) by (simp_all add: first_used_slots, linarith)
  then have "e \<noteq> 0" by (auto simp: entry_page_def)
  with a(4) obtain s'' where "swap_free s' e = Some (s'', 0)" "slots s'' = {(0, 0)}"
    unfolding first_used_slots(1) by (simp only: if_False) blast
  moreover have "slots s' = {(0, 0), (0, 1)}" using a(3) e by (simp add: first_used_slots insert_commute)
  ultimately show ?thesis using a(1) e \<open>e \<noteq> 0\<close> by blast
qed

lemma alloc_slots:
  assumes "swap_inv s" and "swap_alloc s = Some (s', e)"
  shows "slots s \<subseteq> slots s'"
  using swap_alloc_result [OF assms(1)] assms(2) by (elim disjE exE conjE) auto

lemma free_first_slot:
  assumes "swap_inv s" and "swap_free s e = Some (s', r)" and "(0, 0) \<in> slots s"
  shows "(0, 0) \<in> slots s'"
proof (cases "e \<noteq> 0 \<and> (entry_area e, entry_page e) \<in> slots s")
  case True
  then have "(0, 0) \<noteq> (entry_area e, entry_page e)" using entry_zero [of e] by auto
  with swap_free_result [OF assms(1), of e] True assms(2,3) show ?thesis by auto
next
  case False
  then have "swap_free s e = Some (s, - EINVAL)" using swap_free_result [OF assms(1), of e] by argo
  then show ?thesis using assms(2,3) by simp
qed

lemma used_nonzero: "area_ok a \<Longrightarrow> j \<in> marked (sa_bitmap a) \<Longrightarrow> sa_used a \<noteq> 0"
  using area_marked_finite [of a] by (auto simp: area_ok_def)

lemma first_slot_kept:
  assumes "swap_run s0 s" and "swap_inv s0" and "(0, 0) \<in> slots s0"
  shows "(0, 0) \<in> slots s"
  using assms
proof (induction rule: swap_run.induct)
  case (add s fa alloc path sz)
  then show ?case using swap_add_cases [of fa alloc s path sz] by (auto simp: slots_def nth_append)
next
  case (remove s path)
  have z: "0 < length (swap_areas s)" "0 \<in> marked (sa_bitmap (swap_areas s ! 0))" using remove by (simp_all add: slots_def)
  have used: "sa_used (swap_areas s ! 0) \<noteq> 0"
    by (rule used_nonzero [OF swap_inv_area [OF swap_run_inv [OF remove(1,3)] z(1)] z(2)])
  show ?case using swap_remove_cases [of s path]
  proof (elim disjE exE conjE)
    fix i
    assume i: "i < length (swap_areas s)" "sa_used (swap_areas s ! i) = 0"
      "fst (swap_remove s path) = s\<lparr>swap_areas := take i (swap_areas s) @ drop (Suc i) (swap_areas s)\<rparr>"
    then have "0 < i" using used by (cases i) simp_all
    then have "(take i (swap_areas s) @ drop (Suc i) (swap_areas s)) ! 0 = swap_areas s ! 0"
      and "0 < length (take i (swap_areas s))" using z(1) by (simp_all add: nth_append)
    then show ?thesis unfolding i(3) slots_def using z(2) by simp
  qed (use remove in simp)
next
  case (alloc s s' e)
  then show ?case using alloc_slots [OF swap_run_inv [OF alloc(1,4)] alloc(2)] by blast
next
  case (free s e s' r)
  then show ?case using free_first_slot [OF swap_run_inv [OF free(1,4)] free(2)] by blast
next
  case (swap_out s t cb e d s' r)
  then show ?case using shape_slots [OF swap_write_shape [OF swap_run_inv [OF swap_out(1,4)] swap_out(2)]] by simp
next
  case (swap_in s t al e d s' d' r)
  then show ?case using shape_slots [OF swap_read_shape [OF swap_run_inv [OF swap_in(1,4)] swap_in(2)]] by simp
qed (simp_all add: shape_slots [OF shape_simps(2)] shape_slots [OF shape_simps(3)])

text \<open>
  The first page of swap is lost. When the first slot of the first area is free, allocation marks it
  and returns its entry, which is zero and means failure. Whatever happens afterwards, the slot stays in
  use, and the first area can never be removed.
\<close>

theorem swap_first_slot_lost:
  assumes "swap_inv s" and "(0, 0) \<in> all_slots s" and "(0, 0) \<notin> slots s"
  shows "\<exists>s1. swap_alloc s = Some (s1, 0) \<and>
    (\<forall>s2. swap_run s1 s2 \<longrightarrow> (0, 0) \<in> slots s2 \<and> swap_remove s2 (Some (sa_path (swap_areas s2 ! 0))) = (s2, - EBUSY))"
proof -
  from swap_alloc_result [OF assms(1)] assms(2,3) obtain s1 e where
    s1: "swap_alloc s = Some (s1, e)" "swap_inv s1" "slots s1 = insert (entry_area e, entry_page e) (slots s)"
      "\<forall>k j. (k, j) \<in> all_slots s \<and> (k < entry_area e \<or> k = entry_area e \<and> j < entry_page e) \<longrightarrow> (k, j) \<in> slots s" by blast
  have "\<not> (0 < entry_area e \<or> 0 = entry_area e \<and> 0 < entry_page e)" using s1(4) assms(2,3) by blast
  then have "entry_area e = 0 \<and> entry_page e = 0" by auto
  then have e: "e = 0" "(0, 0) \<in> slots s1" using entry_zero s1(3) by auto
  have "(0, 0) \<in> slots s2 \<and> swap_remove s2 (Some (sa_path (swap_areas s2 ! 0))) = (s2, - EBUSY)" if "swap_run s1 s2" for s2
  proof -
    have z: "(0, 0) \<in> slots s2" by (rule first_slot_kept [OF that s1(2) e(2)])
    then obtain a as where a: "swap_areas s2 = a # as" "0 \<in> marked (sa_bitmap a)" by (cases "swap_areas s2") (auto simp: slots_def)
    have "area_ok a" using swap_run_inv [OF that s1(2)] a(1) by (simp add: swap_inv_def)
    then have "0 < unat (sa_used a)" using a(2) area_marked_finite [of a] by (auto simp: area_ok_def card_gt_0_iff)
    then have "sa_used a > 0" by (simp add: word_less_nat_alt)
    then show ?thesis using z a(1) by (simp add: swap_remove_def)
  qed
  then show ?thesis using s1(1) e(1) by blast
qed

theorem swap_first_slot_lost_witness:
  "\<exists>s1. swap_alloc sample_swap = Some (s1, 0) \<and> swap_remove s1 (Some (sa_path (swap_areas s1 ! 0))) = (s1, - EBUSY)"
  using swap_first_slot_lost [OF sample_swap_inv] sample_swap_slots swap_run.start by blast

lemma transfers_driverless:
  assumes "swap_inv s" and "driverless s"
  shows "swap_write t cb s e d = Some (s', r) \<Longrightarrow> r \<in> {- EINVAL, - ENOMEM, - EIO}"
    and "swap_read t al s e d = Some (s', d', r) \<Longrightarrow> r \<in> {- EINVAL, - ENOMEM, - EIO}"
proof -
  have ops: "fl_ops (sa_file (swap_areas s ! entry_area e)) = None" if "(entry_area e, entry_page e) \<in> slots s"
    using assms(2) that by (simp add: driverless_def slots_def)
  have w: "snd (write_out t (s\<lparr>sw_comp := c\<rparr>) e bs n) = - EIO" if "(entry_area e, entry_page e) \<in> slots s" for c bs n
    using ops [OF that] by (simp add: write_out_def fs_seek_def fs_write_def ENOSYS_def Let_def)
  show "r \<in> {- EINVAL, - ENOMEM, - EIO}" if wr: "swap_write t cb s e d = Some (s', r)"
  proof (cases "d = None \<or> e = 0 \<or> (entry_area e, entry_page e) \<notin> slots s \<or> cb = None")
    case True
    then show ?thesis using wr by (auto simp: swap_write_def check_entry_result [OF assms(1)] split: option.splits if_splits)
  next
    case False
    then obtain d0 b where "d = Some d0" "cb = Some b" by auto
    with wr False obtain c bs n where "write_out t (s\<lparr>sw_comp := c\<rparr>) e bs n = (s', r)"
      by (auto simp: swap_write_def check_entry_result [OF assms(1)] bind_Some_iff Let_def split: if_splits)
    with w [of c bs n] False show ?thesis by simp
  qed
  show "r \<in> {- EINVAL, - ENOMEM, - EIO}" if rd: "swap_read t al s e d = Some (s', d', r)"
    using rd ops by (cases d; cases "e \<noteq> 0 \<and> (entry_area e, entry_page e) \<in> slots s")
      (auto simp: swap_read_def check_entry_result [OF assms(1)] fs_seek_def fs_read_def ENOSYS_def Let_def split: if_splits)
qed

lemma compress_page_returns:
  assumes "length p = 4096" and "8192 \<le> length b"
  shows "\<exists>c b' n. swap_compress_page s (Some p) (Some b) swap_page_size (2 * swap_page_size) = Some (c, Some b', n)"
proof (cases "current_algo s \<le> SWAP_COMPRESS_ZSTD")
  case True
  moreover have "p \<noteq> []" using assms(1) by auto
  ultimately show ?thesis using swap_compress_page_result [of s p 8192 b] assms by (simp add: swap_page_size_def)
next
  case False
  then have "compress_switch (current_algo s) p b 4096 8192 = Some (True, b, - EINVAL)"
    by (auto simp: compress_switch_def algo_defs)
  then show ?thesis by (simp add: swap_compress_page_def swap_page_size_def)
qed

lemma transfers_return:
  assumes "swap_inv s" and "driverless s"
  shows "\<forall>p. d = Some p \<longrightarrow> length p = 4096 \<Longrightarrow> \<forall>b. cb = Some b \<longrightarrow> 8192 \<le> length b \<Longrightarrow> \<exists>s' r. swap_write t cb s e d = Some (s', r)"
    and "\<exists>s' d' r. swap_read t al s e d = Some (s', d', r)"
proof -
  have ops: "fl_ops (sa_file (swap_areas s ! entry_area e)) = None" if "(entry_area e, entry_page e) \<in> slots s"
    using assms(2) that by (simp add: driverless_def slots_def)
  show "\<exists>s' d' r. swap_read t al s e d = Some (s', d', r)"
    using ops by (cases d; cases "e \<noteq> 0 \<and> (entry_area e, entry_page e) \<in> slots s")
      (auto simp: swap_read_def check_entry_result [OF assms(1)] fs_seek_def fs_read_def ENOSYS_def Let_def)
  assume sz: "\<forall>p. d = Some p \<longrightarrow> length p = 4096" "\<forall>b. cb = Some b \<longrightarrow> 8192 \<le> length b"
  have "swap_write t cb s e d \<noteq> None"
  proof (cases "d = None \<or> e = 0 \<or> (entry_area e, entry_page e) \<notin> slots s \<or> cb = None")
    case True
    then show ?thesis by (auto simp: swap_write_def check_entry_result [OF assms(1)] split: option.splits)
  next
    case False
    then obtain p b where pb: "d = Some p" "cb = Some b" by auto
    with sz compress_page_returns [of p b "sw_comp s"] obtain c b' n where
      "swap_compress_page (sw_comp s) (Some p) (Some b) swap_page_size (2 * swap_page_size) = Some (c, Some b', n)" by auto
    then show ?thesis using False pb by (simp add: swap_write_def check_entry_result [OF assms(1)] Let_def)
  qed
  then show "\<exists>s' r. swap_write t cb s e d = Some (s', r)" by (cases "swap_write t cb s e d") auto
qed

text \<open>
  Nothing is ever swapped through the file layer of the repository: \<^verbatim>\<open>fs_open\<close> leaves the table of
  operations of the file null, so in every state reached from the start each attempt to write or read a
  page returns, with an error. The buffers of a page and of the compressor have their sizes.
\<close>

theorem swap_transfers_always_fail:
  assumes "swap_run (swap_init s0) s" and "\<forall>p. d = Some p \<longrightarrow> length p = 4096" and "\<forall>b. cb = Some b \<longrightarrow> 8192 \<le> length b"
  shows "(\<exists>s' r. swap_write t cb s e d = Some (s', r) \<and> r < 0) \<and> (\<exists>s' d' r. swap_read t al s e d = Some (s', d', r) \<and> r < 0)"
proof -
  have "swap_inv (swap_init s0)" "driverless (swap_init s0)" by (simp_all add: swap_init_def swap_inv_def driverless_def)
  then have s: "swap_inv s" "driverless s" using swap_run_inv [OF assms(1)] swap_run_driverless [OF assms(1)] by blast+
  have neg: "x < 0" if "x \<in> {- EINVAL, - ENOMEM, - EIO}" for x using that by (auto simp: errno_defs EIO_def)
  obtain s1 r1 where w: "swap_write t cb s e d = Some (s1, r1)" using transfers_return(1) [OF s assms(2,3)] by blast
  obtain s2 d2 r2 where r: "swap_read t al s e d = Some (s2, d2, r2)" using transfers_return(2) [OF s] by blast
  show ?thesis
    using w r neg [OF transfers_driverless(1) [OF s w]] neg [OF transfers_driverless(2) [OF s r]] by blast
qed

theorem swap_transfers_always_fail_witness:
  "\<exists>s' r. swap_write 0 (Some (replicate 8192 0)) sample_swap 1 (Some (replicate 4096 7)) = Some (s', r) \<and> r < 0"
proof -
  have "swap_init boot_swap = boot_swap" by (simp add: swap_init_def boot_swap_def)
  then have "swap_run (swap_init boot_swap) sample_swap"
    unfolding sample_swap_def using swap_run.add [OF swap_run.start, of boot_swap] by simp
  from swap_transfers_always_fail [OF this, of "Some (replicate 4096 7)" "Some (replicate 8192 0)" 0 1] show ?thesis by simp
qed

end
