(* ===== verification/Swap_Transfer_Props.thy ===== *)
theory Swap_Transfer_Props
  imports Swap_Props
begin

text \<open>
  The transfer of pages to and from swap through a driver that behaves like a file: what is stored where,
  the round trip of a page, and the overlap of neighbouring slots.
\<close>

section \<open>Transfers through a driver that works\<close>

definition store_bytes :: "(nat \<Rightarrow> u8) \<Rightarrow> nat \<Rightarrow> u8 list \<Rightarrow> nat \<Rightarrow> u8" where
  "store_bytes m p bs = (\<lambda>a. if p \<le> a \<and> a < p + length bs then bs ! (a - p) else m a)"

text \<open>A driver whose position and contents behave like those of a file.\<close>

definition regular :: "file_operations \<Rightarrow> bool" where
  "regular ops \<longleftrightarrow> (\<exists>sk wr rd. op_seek ops = Some sk \<and> op_write ops = Some wr \<and> op_read ops = Some rd \<and>
     (\<forall>d off. sk d off SEEK_SET = (d\<lparr>dv_pos := unat off\<rparr>, 0)) \<and>
     (\<forall>d bs. wr d bs = (d\<lparr>dv_data := store_bytes (dv_data d) (dv_pos d) bs, dv_pos := dv_pos d + length bs\<rparr>, int (length bs))) \<and>
     (\<forall>d n. rd d n = (d\<lparr>dv_pos := dv_pos d + n\<rparr>, map (dv_data d) [dv_pos d..<dv_pos d + n], int n)))"

lemma regular_fs:
  assumes "fl_ops f = Some ops" and "regular ops"
  shows "fst (fs_seek f off SEEK_SET) = f\<lparr>fl_dev := (fl_dev f)\<lparr>dv_pos := unat off\<rparr>\<rparr>"
    and "fs_write f bs = (f\<lparr>fl_dev := (fl_dev f)\<lparr>dv_data := store_bytes (dv_data (fl_dev f)) (dv_pos (fl_dev f)) bs,
      dv_pos := dv_pos (fl_dev f) + length bs\<rparr>\<rparr>, int (length bs))"
    and "fs_read f n = (f\<lparr>fl_dev := (fl_dev f)\<lparr>dv_pos := dv_pos (fl_dev f) + n\<rparr>\<rparr>,
      map (dv_data (fl_dev f)) [dv_pos (fl_dev f)..<dv_pos (fl_dev f) + n], int n)"
  using assms by (auto simp: regular_def fs_seek_def fs_write_def fs_read_def)

lemma store_bytes_append: "store_bytes (store_bytes m p xs) (p + length xs) ys = store_bytes m p (xs @ ys)"
  by (auto simp: store_bytes_def nth_append fun_eq_iff)

lemma store_bytes_read:
  assumes "p \<le> q" and "q + n \<le> p + length bs"
  shows "map (store_bytes m p bs) [q..<q + n] = take n (drop (q - p) bs)"
  using assms by (intro nth_equalityI) (auto simp: store_bytes_def)

lemma store_bytes_other: "q + n \<le> p \<or> p + length bs \<le> q \<Longrightarrow> map (store_bytes m p bs) [q..<q + n] = map m [q..<q + n]"
  by (auto simp: store_bytes_def)

lemma size_word: "foldr (\<lambda>b w. push_bit 8 w OR ucast b) (map (\<lambda>k. ucast (drop_bit (8 * k) v) :: u8) [0, 1, 2, 3]) 0 = (v :: u32)"
proof (rule bit_word_eqI)
  fix n :: nat
  assume "n < LENGTH(32)"
  then consider "n < 8" | "8 \<le> n" "n < 16" | "16 \<le> n" "n < 24" | "24 \<le> n" "n < 32" by fastforce
  then show "bit (foldr (\<lambda>b w. push_bit 8 w OR ucast b) (map (\<lambda>k. ucast (drop_bit (8 * k) v) :: u8) [0, 1, 2, 3]) 0 :: u32) n = bit v n"
    by cases (auto simp: bit_or_iff bit_push_bit_iff bit_ucast_iff bit_drop_bit_eq)
qed

lemma size_bytes_roundtrip:
  assumes "0 \<le> n" and "n < 2 ^ 31"
  shows "length (size_bytes n) = 4" and "bytes_size (size_bytes n) = n"
proof -
  show "length (size_bytes n) = 4" by (simp add: size_bytes_def)
  have "bytes_size (size_bytes n) = sint (of_int n :: u32)" unfolding bytes_size_def size_bytes_def size_word ..
  also have "\<dots> = n" using assms by (simp add: signed_of_int signed_take_bit_int_eq_self)
  finally show "bytes_size (size_bytes n) = n" .
qed

lemma page_offset_value:
  assumes "swap_inv s" and "(entry_area e, entry_page e) \<in> slots s"
  shows "unat (page_offset e) = entry_page e * 4096"
proof -
  let ?a = "swap_areas s ! entry_area e"
  have ok: "area_ok ?a" and m: "entry_page e \<in> marked (sa_bitmap ?a)" using assms swap_inv_area by (auto simp: slots_def)
  have "entry_page e < unat (sa_size ?a)" by (rule area_marked_less [OF ok m])
  then have "entry_page e < 2 ^ 20" using ok by (simp add: area_ok_def)
  then have "unat (of_nat (entry_page e) * 4096 :: u32) = entry_page e * 4096"
    by (simp add: unat_word_ariths unsigned_of_nat take_bit_nat_eq_self)
  moreover have "unat (ucast w :: u64) = unat w" for w :: u32
  proof -
    have "unat w < 2 ^ 32" using unsigned_less [where 'a = nat and w = w] by simp
    then have "take_bit 64 (unat w) = unat w" by (intro take_bit_nat_eq_self) simp
    then show ?thesis by (simp add: unsigned_ucast_eq)
  qed
  ultimately show ?thesis by (simp add: page_offset_def swap_page_size_def)
qed

text \<open>The contents of the device behind the area of an entry.\<close>

definition contents :: "swap_state \<Rightarrow> u32 \<Rightarrow> nat \<Rightarrow> u8" where
  "contents s e = dv_data (fl_dev (sa_file (swap_areas s ! entry_area e)))"

text \<open>
  The monitor may set another algorithm after a transfer, but never the plain copy; while it is not
  enabled it changes nothing.
\<close>

definition algo_kept :: "swap_state \<Rightarrow> u32 \<Rightarrow> bool" where
  "algo_kept s algo \<longleftrightarrow> current_algo (sw_comp s) \<le> SWAP_COMPRESS_ZSTD \<and>
     (algo \<noteq> SWAP_COMPRESS_NONE \<longrightarrow> current_algo (sw_comp s) \<noteq> SWAP_COMPRESS_NONE)"

lemma adjust_algo: "current_algo (snd (swap_monitor_adjust m pc)) \<in> {SWAP_COMPRESS_LZ4, SWAP_COMPRESS_ZLIB, SWAP_COMPRESS_ZSTD}"
  by (cases pc) (auto simp: swap_monitor_adjust_def swap_compress_set_algo_def algo_defs)

lemma run_monitor_algo:
  assumes "current_algo (sw_comp s) = algo" and "algo \<le> SWAP_COMPRESS_ZSTD"
  shows "algo_kept (run_monitor t i out s) algo"
    and "\<not> monitor_enabled (sw_monitor s) \<Longrightarrow> run_monitor t i out s = s"
proof -
  have "sw_comp (run_monitor t i out s) = sw_comp s \<or> (\<exists>m. sw_comp (run_monitor t i out s) = snd (swap_monitor_adjust m (sw_priority s, sw_comp s)))"
    by (auto simp: run_monitor_def swap_monitor_update_def Let_def split_beta)
  then show "algo_kept (run_monitor t i out s) algo"
  proof (elim disjE exE)
    fix m
    assume "sw_comp (run_monitor t i out s) = snd (swap_monitor_adjust m (sw_priority s, sw_comp s))"
    then show ?thesis using adjust_algo [of m "(sw_priority s, sw_comp s)"] by (auto simp: algo_kept_def algo_defs)
  qed (use assms in \<open>simp add: algo_kept_def\<close>)
  show "\<not> monitor_enabled (sw_monitor s) \<Longrightarrow> run_monitor t i out s = s"
    by (simp add: run_monitor_def swap_monitor_update_def)
qed

lemma write_out_result:
  assumes "entry_area e < length (swap_areas s)" and "fl_ops (sa_file (swap_areas s ! entry_area e)) = Some ops" and "regular ops"
    and "unat (page_offset e) = entry_page e * 4096" and "length bs < 2 ^ 31"
    and "current_algo (sw_comp s) = algo" and "algo \<le> SWAP_COMPRESS_ZSTD"
  shows "\<exists>s1. write_out t s e bs (int (length bs)) = (s1, 0) \<and> algo_kept s1 algo \<and>
    contents s1 e = store_bytes (contents s e) (entry_page e * 4096) (size_bytes (int (length bs)) @ bs) \<and>
    (\<not> monitor_enabled (sw_monitor s) \<longrightarrow> \<not> monitor_enabled (sw_monitor s1) \<and> sw_comp s1 = sw_comp s)"
proof -
  let ?i = "entry_area e"
  let ?f = "sa_file (swap_areas s ! ?i)"
  let ?q = "entry_page e * 4096" and ?z = "size_bytes (int (length bs))"
  let ?f1 = "?f\<lparr>fl_dev := (fl_dev ?f)\<lparr>dv_pos := ?q\<rparr>\<rparr>"
  let ?f2 = "?f\<lparr>fl_dev := (fl_dev ?f)\<lparr>dv_data := store_bytes (dv_data (fl_dev ?f)) ?q ?z, dv_pos := ?q + 4\<rparr>\<rparr>"
  let ?f3 = "?f\<lparr>fl_dev := (fl_dev ?f)\<lparr>dv_data := store_bytes (dv_data (fl_dev ?f)) ?q (?z @ bs), dv_pos := ?q + 4 + length bs\<rparr>\<rparr>"
  have z: "length ?z = 4" using assms(5) by (intro size_bytes_roundtrip) simp_all
  have sk: "fst (fs_seek ?f (page_offset e) SEEK_SET) = ?f1" using regular_fs(1) [OF assms(2,3)] assms(4) by simp
  have w1: "fs_write ?f1 ?z = (?f2, 4)" using regular_fs(2) [of ?f1 ops ?z] assms(2,3) z by simp
  have w2: "fs_write ?f2 bs = (?f3, int (length bs))"
    using regular_fs(2) [of ?f2 ops bs] assms(2,3) store_bytes_append [of "dv_data (fl_dev ?f)" ?q ?z bs] z by simp
  let ?s0 = "set_file s ?i ?f3"
  let ?s = "?s0\<lparr>swap_out_count := swap_out_count ?s0 + 1, swap_out_bytes := swap_out_bytes ?s0 + of_nat swap_page_size\<rparr>"
  have "write_out t s e bs (int (length bs)) = (run_monitor t 0 1 ?s, 0)"
    using sk w1 w2 by (simp add: write_out_def Let_def)
  moreover have "contents (run_monitor t 0 1 ?s) e = store_bytes (contents s e) ?q (?z @ bs)"
    using assms(1) by (simp add: contents_def set_file_def)
  moreover have "algo_kept (run_monitor t 0 1 ?s) algo" using assms(6,7) by (intro run_monitor_algo) (simp_all add: set_file_def)
  moreover have "run_monitor t 0 1 ?s = ?s" if "\<not> monitor_enabled (sw_monitor s)"
    using that assms(6,7) by (intro run_monitor_algo) (simp_all add: set_file_def)
  ultimately show ?thesis by (intro exI [of _ "run_monitor t 0 1 ?s"]) (auto simp: set_file_def)
qed

text \<open>What a transfer needs: a used slot of an area with a working driver, an algorithm, and room.\<close>

definition can_transfer :: "swap_state \<Rightarrow> u32 \<Rightarrow> bool" where
  "can_transfer s e \<longleftrightarrow> swap_inv s \<and> e \<noteq> 0 \<and> (entry_area e, entry_page e) \<in> slots s \<and>
     (\<exists>ops. fl_ops (sa_file (swap_areas s ! entry_area e)) = Some ops \<and> regular ops) \<and> current_algo (sw_comp s) \<le> SWAP_COMPRESS_ZSTD"

lemma swap_write_result:
  assumes "can_transfer s e" and "length page = 4096" and "8192 \<le> length cb"
  defines "p \<equiv> packed (current_algo (sw_comp s)) page"
  shows "\<exists>s1. swap_write t (Some cb) s e (Some page) = Some (s1, 0) \<and> algo_kept s1 (current_algo (sw_comp s)) \<and> shape s1 = shape s \<and>
    contents s1 e = store_bytes (contents s e) (entry_page e * 4096) (size_bytes (int (length p)) @ p) \<and>
    (\<not> monitor_enabled (sw_monitor s) \<longrightarrow> \<not> monitor_enabled (sw_monitor s1) \<and> current_algo (sw_comp s1) = current_algo (sw_comp s))"
proof -
  from assms(1) obtain ops where inv: "swap_inv s" and e: "e \<noteq> 0" "(entry_area e, entry_page e) \<in> slots s"
    and ops: "fl_ops (sa_file (swap_areas s ! entry_area e)) = Some ops" "regular ops"
    and algo: "current_algo (sw_comp s) \<le> SWAP_COMPRESS_ZSTD" by (auto simp: can_transfer_def)
  have ne: "page \<noteq> []" using assms(2) by auto
  let ?c = "count_compressed (sw_comp s) 4096 (int (length p))"
  have comp: "swap_compress_page (sw_comp s) (Some page) (Some cb) 4096 8192 = Some (?c, Some (p @ drop (length p) cb), int (length p))"
    using swap_compress_page_result [OF algo ne, of 8192 cb] assms(2,3) by (simp add: p_def)
  have len: "length p < 2 ^ 31" using packed_length(2) [OF ne, of "current_algo (sw_comp s)"] assms(2) by (simp add: p_def)
  let ?s = "s\<lparr>sw_comp := ?c\<rparr>"
  have "entry_area e < length (swap_areas ?s)" using e(2) by (simp add: slots_def)
  from write_out_result [OF this _ ops(2) page_offset_value [OF inv e(2)] len, of "current_algo (sw_comp s)" t] ops(1) algo obtain s1 where
    s1: "write_out t ?s e p (int (length p)) = (s1, 0)" "algo_kept s1 (current_algo (sw_comp s))"
      "contents s1 e = store_bytes (contents ?s e) (entry_page e * 4096) (size_bytes (int (length p)) @ p)"
      "\<not> monitor_enabled (sw_monitor s) \<longrightarrow> \<not> monitor_enabled (sw_monitor s1) \<and> sw_comp s1 = ?c"
    by (auto simp: count_compressed_def)
  have w: "swap_write t (Some cb) s e (Some page) = Some (s1, 0)"
    using e s1(1) comp by (simp add: swap_write_def check_entry_result [OF inv] swap_page_size_def Let_def)
  moreover have "contents ?s e = contents s e" by (simp add: contents_def)
  ultimately show ?thesis using s1(2-4) swap_write_shape [OF inv w] by (auto simp: count_compressed_def)
qed

lemma map_upt_append:
  assumes "map f [a..<a + (m + n)] = xs @ ys" and "length xs = m" and "length ys = n"
  shows "map f [a..<a + m] = xs \<and> map f [a + m..<a + m + n] = ys"
proof -
  have "[a..<a + m + n] = [a..<a + m] @ [a + m..<a + m + n]" by (rule upt_add_eq_append) simp
  then have "map f [a..<a + m] @ map f [a + m..<a + m + n] = xs @ ys"
    using assms(1) by (metis add.assoc map_append)
  then show ?thesis using assms(2) by (simp add: append_eq_append_conv)
qed

text \<open>Reading back what lies at the place of an entry: a size and that many bytes.\<close>

lemma swap_read_result:
  assumes "can_transfer s e" and "length bs < 2 ^ 31" and "length buf = 4096"
    and stored: "map (contents s e) [entry_page e * 4096..<entry_page e * 4096 + (4 + length bs)] = size_bytes (int (length bs)) @ bs"
    and alloc: "al (length bs) = Some cb" "length cb = length bs"
  shows "length bs = 4096 \<Longrightarrow> \<exists>s2. swap_read t al s e (Some buf) = Some (s2, Some bs, 0)"
    and "bs = packed (current_algo (sw_comp s)) page \<Longrightarrow> length page = 4096 \<Longrightarrow> length bs \<noteq> 4096 \<Longrightarrow>
      \<exists>s2. swap_read t al s e (Some buf) = Some (s2, Some page, 0)"
    and "bs = [] \<Longrightarrow> \<exists>s2. swap_read t al s e (Some buf) = Some (s2, Some buf, - EIO)"
proof -
  from assms(1) obtain ops where inv: "swap_inv s" and e: "e \<noteq> 0" "(entry_area e, entry_page e) \<in> slots s"
    and ops: "fl_ops (sa_file (swap_areas s ! entry_area e)) = Some ops" "regular ops"
    and algo: "current_algo (sw_comp s) \<le> SWAP_COMPRESS_ZSTD" by (auto simp: can_transfer_def)
  let ?i = "entry_area e"
  let ?f = "sa_file (swap_areas s ! ?i)" and ?q = "entry_page e * 4096"
  let ?f1 = "?f\<lparr>fl_dev := (fl_dev ?f)\<lparr>dv_pos := ?q\<rparr>\<rparr>" and ?f2 = "?f\<lparr>fl_dev := (fl_dev ?f)\<lparr>dv_pos := ?q + 4\<rparr>\<rparr>"
  let ?f3 = "?f\<lparr>fl_dev := (fl_dev ?f)\<lparr>dv_pos := ?q + 4 + length bs\<rparr>\<rparr>"
  have z: "length (size_bytes (int (length bs))) = 4" "bytes_size (size_bytes (int (length bs))) = int (length bs)"
    using assms(2) by (intro size_bytes_roundtrip; simp)+
  from map_upt_append [OF stored z(1) refl]
  have parts: "map (dv_data (fl_dev ?f)) [?q..<?q + 4] = size_bytes (int (length bs))"
    "map (dv_data (fl_dev ?f)) [?q + 4..<?q + 4 + length bs] = bs" by (simp_all add: contents_def)
  have sk: "fst (fs_seek ?f (page_offset e) SEEK_SET) = ?f1"
    using regular_fs(1) [OF ops] page_offset_value [OF inv e(2)] by simp
  have r1: "fs_read ?f1 4 = (?f2, size_bytes (int (length bs)), 4)" using regular_fs(3) [of ?f1 ops 4] ops parts(1) by simp
  have r2: "fs_read ?f2 (length bs) = (?f3, bs, int (length bs))" using regular_fs(3) [of ?f2 ops "length bs"] ops parts(2) by simp
  have rd: "swap_read t al s e (Some buf) = map_option (\<lambda>(s', d', r). (s', Some d', r))
      (if length bs = 4096 then read_raw t s ?i ?f2 buf else read_packed t al s ?i ?f2 buf (int (length bs)))"
    using e sk r1 z by (simp add: swap_read_def check_entry_result [OF inv] Let_def swap_page_size_def)
  show "\<exists>s2. swap_read t al s e (Some buf) = Some (s2, Some bs, 0)" if "length bs = 4096"
    unfolding rd using that r2 assms(3) by (simp add: read_raw_def fill_buffer_def swap_page_size_def)
  have n: "unat (of_int (int (length bs)) :: u32) = length bs"
    using assms(2) by (simp add: unsigned_of_nat take_bit_nat_eq_self)
  have pk: "read_packed t al s ?i ?f2 buf (int (length bs)) =
      Option.bind (swap_decompress_page (sw_comp s) (Some bs) (Some buf) (length bs) swap_page_size) (\<lambda>(c, data1, ret1).
      Option.bind data1 (\<lambda>d1.
        let s1 = (set_file s ?i ?f3)\<lparr>sw_comp := c\<rparr>
        in if ret1 \<noteq> int swap_page_size then Some (s1, d1, - EIO) else Some (count_read t s1, d1, 0)))"
    using alloc r2 n by (simp add: read_packed_def fill_buffer_def Let_def)
  show "\<exists>s2. swap_read t al s e (Some buf) = Some (s2, Some page, 0)"
    if p: "bs = packed (current_algo (sw_comp s)) page" "length page = 4096" "length bs \<noteq> 4096"
  proof -
    have "page \<noteq> []" using p(2) by auto
    from swap_decompress_page_result [OF algo this, of buf "[]"] p(1,2) assms(3) obtain c where
      "swap_decompress_page (sw_comp s) (Some bs) (Some buf) (length bs) 4096 = Some (c, Some page, 4096)" by auto
    then show ?thesis unfolding rd pk using p(3) by (simp add: swap_page_size_def Let_def)
  qed
  show "\<exists>s2. swap_read t al s e (Some buf) = Some (s2, Some buf, - EIO)" if "bs = []"
    unfolding rd pk using that by (simp add: swap_decompress_page_def swap_page_size_def errno_defs Let_def)
qed

lemma can_transfer_shape:
  assumes "can_transfer s e" and "shape s' = shape s" and "current_algo (sw_comp s') \<le> SWAP_COMPRESS_ZSTD"
  shows "can_transfer s' e"
proof -
  have "entry_area e < length (swap_areas s)" using assms(1) by (simp add: can_transfer_def slots_def)
  with shape_area(2) [OF assms(2)] have "fl_ops (sa_file (swap_areas s' ! entry_area e)) = fl_ops (sa_file (swap_areas s ! entry_area e))" by blast
  then show ?thesis using assms shape_inv [OF assms(2)] shape_slots [OF assms(2)] by (simp add: can_transfer_def)
qed

text \<open>
  C9. A page written to swap and read back. Through a driver that works, the write succeeds and so does the
  read, for every algorithm, even if the monitor changes it in between. The page read is the one written,
  unless its encoded form happens to have exactly the size of a page: then the encoded bytes are taken for
  the page.
\<close>

theorem swap_write_read:
  assumes "can_transfer s e" and "length page = 4096" and "8192 \<le> length cb" and "length buf = 4096"
    and "\<forall>n. \<exists>b. al n = Some b \<and> length b = n"
  shows "\<exists>s1 s2. swap_write t (Some cb) s e (Some page) = Some (s1, 0) \<and>
    swap_read t' al s1 e (Some buf) =
      Some (s2, Some (if length (packed (current_algo (sw_comp s)) page) = 4096 then packed (current_algo (sw_comp s)) page else page), 0)"
proof -
  let ?p = "packed (current_algo (sw_comp s)) page"
  from swap_write_result [OF assms(1-3), of t] obtain s1 where
    s1: "swap_write t (Some cb) s e (Some page) = Some (s1, 0)" "algo_kept s1 (current_algo (sw_comp s))" "shape s1 = shape s"
      "contents s1 e = store_bytes (contents s e) (entry_page e * 4096) (size_bytes (int (length ?p)) @ ?p)" by blast
  have ct: "can_transfer s1 e" using can_transfer_shape [OF assms(1) s1(3)] s1(2) by (simp add: algo_kept_def)
  have len: "length ?p < 2 ^ 31" using packed_length(2) [of page "current_algo (sw_comp s)"] assms(2) by (cases page) simp_all
  have z: "length (size_bytes (int (length ?p))) = 4" using len by (intro size_bytes_roundtrip) simp_all
  have st: "map (contents s1 e) [entry_page e * 4096..<entry_page e * 4096 + (4 + length ?p)] = size_bytes (int (length ?p)) @ ?p"
    unfolding s1(4) using z by (subst store_bytes_read) simp_all
  obtain b where b: "al (length ?p) = Some b" "length b = length ?p" using assms(5) by blast
  note rd = swap_read_result [where t = t' and al = al and cb = b, OF ct len assms(4) st b]
  show ?thesis
  proof (cases "length ?p = 4096")
    case True
    then show ?thesis using s1(1) rd(1) by auto
  next
    case False
    then have "current_algo (sw_comp s) \<noteq> SWAP_COMPRESS_NONE" using assms(2) by (auto simp: packed_def)
    then have "?p = packed (current_algo (sw_comp s1)) page" using s1(2) by (simp add: packed_def algo_kept_def)
    from rd(2) [OF this assms(2) False] False s1(1) show ?thesis by auto
  qed
qed

definition plain_ops :: file_operations where
  "plain_ops = \<lparr>op_open = None, op_close = None, op_read = Some (\<lambda>d n. (d\<lparr>dv_pos := dv_pos d + n\<rparr>, map (dv_data d) [dv_pos d..<dv_pos d + n], int n)),
     op_write = Some (\<lambda>d bs. (d\<lparr>dv_data := store_bytes (dv_data d) (dv_pos d) bs, dv_pos := dv_pos d + length bs\<rparr>, int (length bs))),
     op_seek = Some (\<lambda>d off w. (d\<lparr>dv_pos := unat off\<rparr>, 0))\<rparr>"

definition mark_page :: "nat \<Rightarrow> swap_area \<Rightarrow> swap_area" where
  "mark_page j a = a\<lparr>sa_bitmap := set_page_bit (sa_bitmap a) j, sa_used := sa_used a + 1\<rparr>"

definition plain_swap :: swap_state where
  "plain_swap = boot_swap\<lparr>swap_areas := [mark_page 2 (mark_page 1 ((new_area ''swapfile'' 12288)\<lparr>sa_file := (zeroed_file ''swapfile'')\<lparr>fl_ops := Some plain_ops\<rparr>\<rparr>))],
     sw_comp := (swap_compress_init None None)\<lparr>current_algo := SWAP_COMPRESS_NONE\<rparr>\<rparr>"

lemma plain_swap_can_transfer: "can_transfer plain_swap 1" "can_transfer plain_swap 2"
proof -
  let ?a = "(new_area ''swapfile'' 12288)\<lparr>sa_file := (zeroed_file ''swapfile'')\<lparr>fl_ops := Some plain_ops\<rparr>\<rparr>"
  have sz: "unat (sa_size ?a) = 3" and bm: "sa_bitmap ?a = [0]" by (simp_all add: new_area_def swap_page_size_def)
  have a0: "area_ok ?a" using new_area_ok [of "''swapfile''" "(zeroed_file ''swapfile'')\<lparr>fl_ops := Some plain_ops\<rparr>" 12288] by (simp add: new_area_def)
  have m0: "marked (sa_bitmap ?a) = {}" using bm marked_zero [of 1] by simp
  have m1: "marked (sa_bitmap (mark_page 1 ?a)) = {1}" using m0 bm by (simp add: mark_page_def marked_set)
  have "area_ok (mark_page 1 ?a)" unfolding mark_page_def using sz m0 by (intro area_mark [OF a0]) simp_all
  moreover have "unat (sa_size (mark_page 1 ?a)) = 3" using sz by (simp add: mark_page_def)
  ultimately have a2: "area_ok (mark_page 2 (mark_page 1 ?a))"
    unfolding mark_page_def [of 2] using m1 by (intro area_mark) simp_all
  have m2: "marked (sa_bitmap (mark_page 2 (mark_page 1 ?a))) = {1, 2}"
    unfolding mark_page_def [of 2] using m0 bm by (simp add: marked_set mark_page_def insert_commute)
  have as: "swap_areas plain_swap = [mark_page 2 (mark_page 1 ?a)]" by (simp add: plain_swap_def)
  have reg: "regular plain_ops" by (simp add: regular_def plain_ops_def)
  have e: "entry_area 1 = 0" "entry_page 1 = 1" "entry_area 2 = 0" "entry_page 2 = 2" by (simp_all add: entry_area_def entry_page_def)
  show "can_transfer plain_swap 1" "can_transfer plain_swap 2"
    using a2 m2 reg e by (simp_all add: can_transfer_def swap_inv_def slots_def as) (simp_all add: mark_page_def plain_swap_def algo_defs)
qed

theorem swap_write_read_witness:
  "\<exists>s1 s2. swap_write 0 (Some (replicate 8192 0)) plain_swap 1 (Some (replicate 4096 7)) = Some (s1, 0) \<and>
     swap_read 0 (\<lambda>n. Some (replicate n 0)) s1 1 (Some (replicate 4096 0)) = Some (s2, Some (replicate 4096 7), 0)"
proof -
  have "packed (current_algo (sw_comp plain_swap)) (replicate 4096 7) = replicate 4096 7"
    by (simp add: packed_def plain_swap_def)
  then show ?thesis
    using swap_write_read [OF plain_swap_can_transfer(1), of "replicate 4096 7" "replicate 8192 0" "replicate 4096 0" "\<lambda>n. Some (replicate n 0)" 0 0]
    by simp
qed

text \<open>
  Slots overlap. The size stored in front of a page makes it longer than its slot. With the plain copy
  set and no monitor, writing any page to a slot and then a page of zeros to the slot before it leaves the
  first page unreadable.
\<close>

theorem swap_slots_overlap:
  assumes "can_transfer s e" and "can_transfer s e'" and "entry_area e' = entry_area e" and "entry_page e' = Suc (entry_page e)"
    and "current_algo (sw_comp s) = SWAP_COMPRESS_NONE" and "\<not> monitor_enabled (sw_monitor s)"
    and "length page = 4096" and "8192 \<le> length cb" and "length buf = 4096" and "al 0 = Some []"
  shows "\<exists>s1 s2 s3. swap_write t (Some cb) s e' (Some page) = Some (s1, 0) \<and>
    swap_write t' (Some cb) s1 e (Some (replicate 4096 0)) = Some (s2, 0) \<and> swap_read t'' al s2 e' (Some buf) = Some (s3, Some buf, - EIO)"
proof -
  let ?z = "replicate 4096 0 :: u8 list"
  from swap_write_result [OF assms(2,7,8), of t] assms(5,6) obtain s1 where
    s1: "swap_write t (Some cb) s e' (Some page) = Some (s1, 0)" "shape s1 = shape s" "\<not> monitor_enabled (sw_monitor s1)"
      "current_algo (sw_comp s1) = SWAP_COMPRESS_NONE" by auto
  have ct: "can_transfer s1 e" using can_transfer_shape [OF assms(1) s1(2)] s1(4) by (simp add: algo_defs)
  have p: "packed (current_algo (sw_comp s1)) ?z = ?z" using s1(4) by (simp add: packed_def)
  from swap_write_result [OF ct _ assms(8), of ?z t'] s1(3,4) p obtain s2 where
    s2: "swap_write t' (Some cb) s1 e (Some ?z) = Some (s2, 0)" "shape s2 = shape s1" "current_algo (sw_comp s2) = SWAP_COMPRESS_NONE"
      "contents s2 e = store_bytes (contents s1 e) (entry_page e * 4096) (size_bytes 4096 @ ?z)" by auto
  have "shape s2 = shape s" using s1(2) s2(2) by simp
  from can_transfer_shape [OF assms(2) this] s2(3) have ct': "can_transfer s2 e'" by (simp add: algo_defs)
  have z: "length (size_bytes 4096) = 4" by (rule size_bytes_roundtrip) simp_all
  have "contents s2 e' = contents s2 e" using assms(3) by (simp add: contents_def)
  then have c: "contents s2 e' = store_bytes (contents s1 e) (entry_page e * 4096) (size_bytes 4096 @ ?z)" using s2(4) by simp
  have "map (contents s2 e') [entry_page e' * 4096..<entry_page e' * 4096 + 4] = take 4 (drop 4096 (size_bytes 4096 @ ?z))"
    unfolding c using assms(4) z by (subst store_bytes_read) simp_all
  also have "\<dots> = replicate 4 0" using z by simp
  also have "\<dots> = size_bytes 0" by (simp add: size_bytes_def numeral_eq_Suc)
  finally have st: "map (contents s2 e') [entry_page e' * 4096..<entry_page e' * 4096 + (4 + length [])] = size_bytes (int (length [])) @ []" by simp
  from swap_read_result(3) [OF ct' _ assms(9) st, of al "[]" t''] assms(10) s1(1) s2(1) show ?thesis by auto
qed

theorem swap_slots_overlap_witness:
  "\<exists>s1 s2 s3. swap_write 0 (Some (replicate 8192 0)) plain_swap 2 (Some (replicate 4096 7)) = Some (s1, 0) \<and>
     swap_write 0 (Some (replicate 8192 0)) s1 1 (Some (replicate 4096 0)) = Some (s2, 0) \<and>
     swap_read 0 (\<lambda>n. Some (replicate n 0)) s2 2 (Some (replicate 4096 0)) = Some (s3, Some (replicate 4096 0), - EIO)"
proof (rule swap_slots_overlap [OF plain_swap_can_transfer])
  show "current_algo (sw_comp plain_swap) = SWAP_COMPRESS_NONE" "\<not> monitor_enabled (sw_monitor plain_swap)"
    by (simp_all add: plain_swap_def boot_swap_def swap_monitor_init_def)
qed (simp_all add: entry_area_def entry_page_def)

end
