(* ===== verification/Btree.thy ===== *)
theory Btree
  imports Horizon_Prelude
begin

text \<open>
  The B-tree of the btrfs driver, \<^verbatim>\<open>kernel/fs/btrfs/btree.c\<close>. A node in memory has a level, the number of items
  its header claims, and the items that are there (for an inner node only their keys matter, for a leaf
  also the place of their data in the node's bytes). Reading an item that is not there has no result, and
  neither has the use of a null pointer. Indices are integers: a node holds far fewer than \<open>2 ^ 30\<close> items.
  \<^verbatim>\<open>BTRFS_MAX_LEVEL\<close>, the length of the arrays of a path, is defined nowhere in the repository and is an argument.

  The claims are that a search in a leaf finds the key or the place where it belongs, and that a search in
  any tree with more than one level uses a null pointer.
\<close>

section \<open>Nodes and keys\<close>

record btrfs_key =
  k_objectid :: u64
  k_type :: u8
  k_offset :: u64

record btrfs_item =
  it_key :: btrfs_key
  it_offset :: u32
  it_size :: u32

record btrfs_node =
  bn_level :: u8
  bn_nritems :: u32
  bn_items :: "btrfs_item list"
  bn_bytes :: "u8 list"

record btrfs_root =
  br_fs_info :: bool
  br_node :: "btrfs_node option"

text \<open>The order of keys, as the cascade of comparisons decides it.\<close>

definition key_less :: "btrfs_key \<Rightarrow> btrfs_key \<Rightarrow> bool" where
  "key_less a b \<longleftrightarrow> k_objectid a < k_objectid b \<or> k_objectid a = k_objectid b \<and>
     (k_type a < k_type b \<or> k_type a = k_type b \<and> k_offset a < k_offset b)"

section \<open>Searching\<close>

text \<open>
  The loop of the binary search, the same in a leaf and in an inner node: the item where the key was
  found, or the lower bound at the end.
\<close>

function search_loop :: "btrfs_item list \<Rightarrow> btrfs_key \<Rightarrow> int \<Rightarrow> int \<Rightarrow> (bool \<times> int) option" where
  "search_loop items key low high =
     (if low \<le> high then
        let mid = (low + high) div 2
        in if \<not> (0 \<le> mid \<and> nat mid < length items) then None
           else let k = it_key (items ! nat mid)
                in if k_objectid k < k_objectid key then search_loop items key (mid + 1) high
                   else if k_objectid k > k_objectid key then search_loop items key low (mid - 1)
                   else if k_type k < k_type key then search_loop items key (mid + 1) high
                   else if k_type k > k_type key then search_loop items key low (mid - 1)
                   else if k_offset k < k_offset key then search_loop items key (mid + 1) high
                   else if k_offset k > k_offset key then search_loop items key low (mid - 1)
                   else Some (True, mid)
      else Some (False, low))"
  by pat_completeness auto
termination by (relation "measure (\<lambda>(_, _, low, high). nat (high - low + 1))") auto

declare search_loop.simps [simp del]

definition btrfs_find_key :: "btrfs_node option \<Rightarrow> btrfs_key option \<Rightarrow> int option" where
  "btrfs_find_key node key =
     (case (node, key) of
        (Some n, Some k) \<Rightarrow>
          let high = sint (bn_nritems n - 1)
          in if bn_level n = 0 then map_option snd (search_loop (bn_items n) k 0 high)
             else Option.bind (search_loop (bn_items n) k 0 high) (\<lambda>(found, r).
               if found then Some r
               else if of_int r \<ge> bn_nritems n then Some (sint (bn_nritems n - 1)) else Some r)
      | _ \<Rightarrow> Some 0)"

text \<open>
  The descent from a level: the child is never read, its pointer is null from then on. The slots are
  stored in the path by level. The result is the node at the bottom and the path.
\<close>

fun descend :: "nat \<Rightarrow> btrfs_node option \<Rightarrow> btrfs_key \<Rightarrow> nat \<Rightarrow> (nat \<Rightarrow> btrfs_node option) \<times> (nat \<Rightarrow> u32) \<Rightarrow>
    (btrfs_node option \<times> (nat \<Rightarrow> btrfs_node option) \<times> (nat \<Rightarrow> u32)) option" where
  "descend max_level node key 0 path = Some (node, path)"
| "descend max_level node key (Suc level) (nodes, slots) =
     Option.bind (btrfs_find_key node (Some key)) (\<lambda>slot.
       descend max_level None key level (nodes(level := None), slots(Suc level := of_int slot)))"

text \<open>The value returned and the path. \<open>ins_len\<close> and \<open>cow\<close> are not used.\<close>

definition btrfs_search_slot :: "nat \<Rightarrow> btrfs_root option \<Rightarrow> btrfs_key option \<Rightarrow>
    (int \<times> (nat \<Rightarrow> btrfs_node option) \<times> (nat \<Rightarrow> u32)) option" where
  "btrfs_search_slot max_level root key =
     (let path0 = (\<lambda>_. None, \<lambda>_. 0)
      in case (root, key) of
           (Some r, Some k) \<Rightarrow>
             if \<not> br_fs_info r then Some (-1, path0)
             else (case br_node r of
                None \<Rightarrow> Some (-1, path0)
              | Some node \<Rightarrow>
                  let level = unat (bn_level node)
                  in if level \<ge> max_level then None
                     else Option.bind (descend max_level (Some node) k level ((\<lambda>_. None)(level := Some node), \<lambda>_. 0))
                       (\<lambda>(bottom, nodes, slots).
                       Option.bind (btrfs_find_key bottom key) (\<lambda>slot.
                       Option.bind bottom (\<lambda>n.
                         let path = (nodes, slots(0 := of_int slot))
                         in if of_int slot < bn_nritems n then
                              (if \<not> (0 \<le> slot \<and> nat slot < length (bn_items n)) then None
                               else if it_key (bn_items n ! nat slot) = k then Some (0, path) else Some (1, path))
                            else Some (1, path)))))
         | _ \<Rightarrow> Some (-1, path0))"

section \<open>Items\<close>

text \<open>\<open>has_data\<close>: the data pointer is not null. The three operations only search; nothing is changed.\<close>

definition btrfs_insert_item :: "nat \<Rightarrow> btrfs_root option \<Rightarrow> btrfs_key option \<Rightarrow> bool \<Rightarrow> u32 \<Rightarrow> int option" where
  "btrfs_insert_item max_level root key has_data data_size =
     (if root = None \<or> key = None \<or> \<not> has_data \<and> data_size > 0 then Some (-1)
      else Option.bind (btrfs_search_slot max_level root key) (\<lambda>(ret, _).
        if ret < 0 then Some ret else if ret = 0 then Some (-1) else Some 0))"

definition btrfs_delete_item :: "nat \<Rightarrow> btrfs_root option \<Rightarrow> btrfs_key option \<Rightarrow> int option" where
  "btrfs_delete_item max_level root key =
     (if root = None \<or> key = None then Some (-1)
      else Option.bind (btrfs_search_slot max_level root key) (\<lambda>(ret, _).
        if ret < 0 then Some ret else if ret > 0 then Some (-1) else Some 0))"

definition btrfs_update_item :: "nat \<Rightarrow> btrfs_root option \<Rightarrow> btrfs_key option \<Rightarrow> bool \<Rightarrow> u32 \<Rightarrow> int option" where
  "btrfs_update_item max_level root key has_data data_size =
     (if root = None \<or> key = None \<or> \<not> has_data \<and> data_size > 0 then Some (-1)
      else Option.bind (btrfs_search_slot max_level root key) (\<lambda>(ret, _).
        if ret < 0 then Some ret else if ret > 0 then Some (-1) else Some 0))"

text \<open>The buffer and the size variable after the call, and the value returned; the size pointer may be null.\<close>

definition btrfs_lookup_item :: "nat \<Rightarrow> btrfs_root option \<Rightarrow> btrfs_key option \<Rightarrow> u8 list option \<Rightarrow> u32 option \<Rightarrow>
    (u8 list option \<times> u32 option \<times> int) option" where
  "btrfs_lookup_item max_level root key data data_size =
     (case data_size of
        None \<Rightarrow> Some (data, data_size, -1)
      | Some n \<Rightarrow>
          if root = None \<or> key = None then Some (data, data_size, -1)
          else Option.bind (btrfs_search_slot max_level root key) (\<lambda>(ret, nodes, slots).
            if ret < 0 then Some (data, data_size, ret)
            else if ret > 0 then Some (data, data_size, -1)
            else Option.bind (nodes 0) (\<lambda>leaf.
              if \<not> unat (slots 0) < length (bn_items leaf) then None
              else let item = bn_items leaf ! unat (slots 0); off = unat (it_offset item); sz = unat (it_size item)
                   in case data of
                        None \<Rightarrow> Some (data, Some (it_size item), 0)
                      | Some d \<Rightarrow>
                          if n < it_size item then Some (data, Some (it_size item), -1)
                          else if off + sz \<le> length (bn_bytes leaf) \<and> sz \<le> length d
                          then Some (Some (take sz (drop off (bn_bytes leaf)) @ drop sz d), Some (it_size item), 0)
                          else None)))"

section \<open>The order of keys\<close>

lemma key_trichotomy: "key_less a b \<or> key_less b a \<or> a = b"
  by (cases a; cases b) (auto simp: key_less_def)

lemma key_less_irrefl: "\<not> key_less a a"
  by (simp add: key_less_def)

lemma key_less_trans: "key_less a b \<Longrightarrow> key_less b c \<Longrightarrow> key_less a c"
  by (auto simp: key_less_def)

lemma key_cascade:
  "(if k_objectid k < k_objectid q then a else if k_objectid k > k_objectid q then b
    else if k_type k < k_type q then a else if k_type k > k_type q then b
    else if k_offset k < k_offset q then a else if k_offset k > k_offset q then b else c) =
   (if key_less k q then a else if key_less q k then b else c)"
  by (cases "k_objectid k" "k_objectid q" rule: linorder_cases;
      cases "k_type k" "k_type q" rule: linorder_cases;
      cases "k_offset k" "k_offset q" rule: linorder_cases) (simp_all add: key_less_def)

text \<open>One round of the loop, in terms of the order.\<close>

lemma search_loop_step:
  assumes "0 \<le> low" and "low \<le> high" and "nat high < length items"
  defines "mid \<equiv> (low + high) div 2"
  shows "search_loop items key low high =
    (if key_less (it_key (items ! nat mid)) key then search_loop items key (mid + 1) high
     else if key_less key (it_key (items ! nat mid)) then search_loop items key low (mid - 1)
     else Some (True, mid))"
proof -
  have "low \<le> mid" "mid \<le> high" unfolding mid_def using assms(2) by linarith+
  then have "(0 \<le> mid \<and> nat mid < length items) = True" using assms(1,3) by simp
  then show ?thesis using assms(2) unfolding mid_def
    by (subst search_loop.simps) (simp only: Let_def key_cascade if_True not_True_eq_False if_False)
qed

definition sorted_items :: "btrfs_item list \<Rightarrow> bool" where
  "sorted_items items \<longleftrightarrow> (\<forall>i j. i < j \<longrightarrow> j < length items \<longrightarrow> key_less (it_key (items ! i)) (it_key (items ! j)))"

text \<open>What a search finds: the key, or the place where it belongs.\<close>

definition search_result :: "btrfs_item list \<Rightarrow> btrfs_key \<Rightarrow> bool \<times> int \<Rightarrow> bool" where
  "search_result items key r \<longleftrightarrow> 0 \<le> snd r \<and>
     (if fst r then nat (snd r) < length items \<and> it_key (items ! nat (snd r)) = key
      else nat (snd r) \<le> length items \<and> (\<forall>i<nat (snd r). key_less (it_key (items ! i)) key) \<and>
        (\<forall>i<length items. nat (snd r) \<le> i \<longrightarrow> key_less key (it_key (items ! i))))"

text \<open>Below the lower bound all keys are smaller, above the upper bound all are greater.\<close>

lemma search_loop_correct:
  assumes "sorted_items items" and "0 \<le> low" and "low \<le> high + 1" and "high < int (length items)"
    and "\<forall>i. int i < low \<longrightarrow> key_less (it_key (items ! i)) key"
    and "\<forall>i<length items. high < int i \<longrightarrow> key_less key (it_key (items ! i))"
  shows "\<exists>r. search_loop items key low high = Some r \<and> search_result items key r"
  using assms(2-6)
proof (induction "nat (high - low + 1)" arbitrary: low high rule: less_induct)
  case less
  show ?case
  proof (cases "low \<le> high")
    case False
    then have "low = high + 1" using less.prems(2) by simp
    then have "search_result items key (False, low)" using less.prems by (auto simp: search_result_def)
    then show ?thesis using False by (subst search_loop.simps) simp
  next
    case True
    let ?mid = "(low + high) div 2"
    have mid: "low \<le> ?mid" "?mid \<le> high" "0 \<le> ?mid" "nat ?mid < length items" 
      using True less.prems(1,3) by linarith+
    have step: "search_loop items key low high =
      (if key_less (it_key (items ! nat ?mid)) key then search_loop items key (?mid + 1) high
       else if key_less key (it_key (items ! nat ?mid)) then search_loop items key low (?mid - 1) else Some (True, ?mid))"
      using True less.prems(1,3) by (intro search_loop_step) simp_all
    have below: "key_less (it_key (items ! i)) (it_key (items ! nat ?mid))" if "int i < ?mid" for i
      using assms(1) that mid by (auto simp: sorted_items_def)
    have above: "key_less (it_key (items ! nat ?mid)) (it_key (items ! i))" if "?mid < int i" "i < length items" for i
      using assms(1) that mid by (auto simp: sorted_items_def)
    consider "key_less (it_key (items ! nat ?mid)) key" | "key_less key (it_key (items ! nat ?mid))" "\<not> key_less (it_key (items ! nat ?mid)) key"
      | "it_key (items ! nat ?mid) = key" using key_trichotomy by blast
    then show ?thesis
    proof cases
      case 1
      have lo: "key_less (it_key (items ! i)) key" if "int i < ?mid + 1" for i
      proof (cases "int i < ?mid")
        case True
        then show ?thesis using below 1 key_less_trans by blast
      next
        case False
        then have "i = nat ?mid" using that by simp
        then show ?thesis using 1 by simp
      qed
      have "nat (high - (?mid + 1) + 1) < nat (high - low + 1)" using mid by simp
      from less.hyps [OF this _ _ less.prems(3) _ less.prems(5)] lo mid 1 show ?thesis unfolding step by simp
    next
      case 2
      have hi: "key_less key (it_key (items ! i))" if "i < length items" "?mid - 1 < int i" for i
      proof (cases "?mid < int i")
        case True
        then show ?thesis using above that(1) 2(1) key_less_trans by blast
      next
        case False
        then have "i = nat ?mid" using that by simp
        then show ?thesis using 2 by simp
      qed
      have "nat (?mid - 1 - low + 1) < nat (high - low + 1)" using mid by simp
      from less.hyps [OF this less.prems(1) _ _ less.prems(4)] hi mid 2 less.prems(3) show ?thesis unfolding step by simp
    next
      case 3
      then show ?thesis unfolding step using mid by (simp add: key_less_irrefl search_result_def)
    qed
  qed
qed

section \<open>Leaves\<close>

text \<open>A tree of one leaf with its items in order.\<close>

definition leaf_root :: "btrfs_root \<Rightarrow> btrfs_node \<Rightarrow> bool" where
  "leaf_root r n \<longleftrightarrow> br_fs_info r \<and> br_node r = Some n \<and> bn_level n = 0 \<and> length (bn_items n) < 2 ^ 30 \<and>
     unat (bn_nritems n) = length (bn_items n) \<and> sorted_items (bn_items n)"

lemma items_high:
  assumes "unat (w :: u32) = m" and "m < 2 ^ 31"
  shows "sint (w - 1) = int m - 1"
proof -
  have u: "uint w = int m" using assms(1) by (metis uint_nat)
  have "sint (word_of_int (uint w - 1) :: u32) = uint w - 1"
    using assms(2) unfolding u signed_of_int of_int_eq_id id_apply by (intro signed_take_bit_int_eq_self) simp_all
  moreover have "word_of_int (uint w - 1) = w - 1" by simp
  ultimately have "sint (w - 1) = uint w - 1" by (simp only:)
  then show ?thesis using u by simp
qed

lemma find_key_leaf:
  assumes "leaf_root r n"
  shows "\<exists>res. btrfs_find_key (Some n) (Some k) = Some (snd res) \<and> search_result (bn_items n) k res"
proof -
  have "sint (bn_nritems n - 1) = int (length (bn_items n)) - 1"
    using assms by (intro items_high) (simp_all add: leaf_root_def)
  with search_loop_correct [of "bn_items n" 0 "int (length (bn_items n)) - 1" k] assms show ?thesis
    by (auto simp: btrfs_find_key_def leaf_root_def)
qed

lemma search_slot_leaf:
  assumes "leaf_root r n" and "0 < max_level"
  shows "\<exists>ret nodes slots. btrfs_search_slot max_level (Some r) (Some k) = Some (ret, nodes, slots) \<and> nodes 0 = Some n \<and>
    (ret = 0 \<and> unat (slots 0) < length (bn_items n) \<and> it_key (bn_items n ! unat (slots 0)) = k \<or>
     ret = 1 \<and> unat (slots 0) \<le> length (bn_items n) \<and> (\<forall>i<unat (slots 0). key_less (it_key (bn_items n ! i)) k) \<and>
     (\<forall>i<length (bn_items n). unat (slots 0) \<le> i \<longrightarrow> key_less k (it_key (bn_items n ! i))))"
proof -
  from find_key_leaf [OF assms(1), of k] obtain res where
    res: "btrfs_find_key (Some n) (Some k) = Some (snd res)" "search_result (bn_items n) k res" by blast
  have le: "0 \<le> snd res" "nat (snd res) \<le> length (bn_items n)"
    using res(2) by (auto simp: search_result_def split: if_splits)
  have n: "bn_level n = 0" "br_fs_info r" "br_node r = Some n" "unat (bn_nritems n) = length (bn_items n)" "length (bn_items n) < 2 ^ 30"
    using assms(1) by (simp_all add: leaf_root_def)
  have w: "unat (of_int (snd res) :: u32) = nat (snd res)" using le n(5) by (simp add: unsigned_of_int take_bit_int_eq_self)
  let ?i = "nat (snd res)"
  let ?path = "((\<lambda>_. None)(0 := Some n), (\<lambda>_. 0)(0 := of_int (snd res)))"
  have s: "btrfs_search_slot max_level (Some r) (Some k) =
      Some (if ?i < length (bn_items n) \<and> it_key (bn_items n ! ?i) = k then 0 else 1, ?path)"
    using res(1) n le w assms(2) by (simp add: btrfs_search_slot_def word_less_nat_alt Let_def)
  have "fst res \<longleftrightarrow> ?i < length (bn_items n) \<and> it_key (bn_items n ! ?i) = k"
    using res(2) key_less_irrefl by (auto simp: search_result_def split: if_splits)
  then show ?thesis using s w res(2) by (auto simp: search_result_def)
qed

definition sample_key :: "u64 \<Rightarrow> btrfs_key" where
  "sample_key i = \<lparr>k_objectid = i, k_type = 1, k_offset = 0\<rparr>"

definition sample_leaf :: btrfs_node where
  "sample_leaf = \<lparr>bn_level = 0, bn_nritems = 2, bn_items = [\<lparr>it_key = sample_key 5, it_offset = 0, it_size = 1\<rparr>,
     \<lparr>it_key = sample_key 9, it_offset = 1, it_size = 2\<rparr>], bn_bytes = [3, 4, 5]\<rparr>"

definition sample_root :: btrfs_root where
  "sample_root = \<lparr>br_fs_info = True, br_node = Some sample_leaf\<rparr>"

lemma sample_root_leaf: "leaf_root sample_root sample_leaf"
  by (auto simp: leaf_root_def sample_root_def sample_leaf_def sorted_items_def sample_key_def key_less_def less_Suc_eq)

section \<open>Claims\<close>

text \<open>
  C10. Searching a leaf. In a tree that is one leaf with sorted items a search always ends; it returns zero
  and the item with the key, or one and the slot where the key belongs: all items before it have smaller
  keys, all from it on greater ones.
\<close>

theorem btrfs_search_leaf:
  assumes "leaf_root r n" and "0 < max_level"
  shows "\<exists>ret nodes slots. btrfs_search_slot max_level (Some r) (Some k) = Some (ret, nodes, slots) \<and> nodes 0 = Some n \<and>
    (ret = 0 \<and> unat (slots 0) < length (bn_items n) \<and> it_key (bn_items n ! unat (slots 0)) = k \<or>
     ret = 1 \<and> unat (slots 0) \<le> length (bn_items n) \<and> (\<forall>i<unat (slots 0). key_less (it_key (bn_items n ! i)) k) \<and>
     (\<forall>i<length (bn_items n). unat (slots 0) \<le> i \<longrightarrow> key_less k (it_key (bn_items n ! i))))"
  by (rule search_slot_leaf [OF assms])

theorem btrfs_search_leaf_witness:
  "\<exists>ret nodes slots. btrfs_search_slot 8 (Some sample_root) (Some (sample_key 9)) = Some (ret, nodes, slots) \<and> nodes 0 = Some sample_leaf"
  using btrfs_search_leaf [OF sample_root_leaf, of 8 "sample_key 9"] by auto

lemma lookup_found:
  assumes "btrfs_search_slot max_level (Some r) (Some k) = Some (0, nodes, slots)" and "nodes 0 = Some n"
    and "unat (slots 0) < length (bn_items n)"
  shows "btrfs_lookup_item max_level (Some r) (Some k) (Some d) (Some sz) =
    (let item = bn_items n ! unat (slots 0); off = unat (it_offset item); m = unat (it_size item)
     in if sz < it_size item then Some (Some d, Some (it_size item), -1)
        else if off + m \<le> length (bn_bytes n) \<and> m \<le> length d
        then Some (Some (take m (drop off (bn_bytes n)) @ drop m d), Some (it_size item), 0) else None)"
  using assms by (simp add: btrfs_lookup_item_def Let_def)

text \<open>
  Looking up an item of a leaf. For the key of any item whose data lies inside the node and fits the
  buffer, the lookup copies exactly that data and reports its size; with too small a buffer it copies nothing
  and reports the size needed. For a key that no item has it returns an error and changes nothing.
\<close>

theorem btrfs_lookup_leaf:
  assumes "leaf_root r n" and "0 < max_level" and "unat sz \<le> length d"
  shows "(\<forall>item\<in>set (bn_items n). it_key item = k \<and> unat (it_offset item) + unat (it_size item) \<le> length (bn_bytes n) \<longrightarrow>
      btrfs_lookup_item max_level (Some r) (Some k) (Some d) (Some sz) =
        (if sz < it_size item then Some (Some d, Some (it_size item), -1)
         else Some (Some (take (unat (it_size item)) (drop (unat (it_offset item)) (bn_bytes n)) @ drop (unat (it_size item)) d),
           Some (it_size item), 0))) \<and>
    ((\<forall>item\<in>set (bn_items n). it_key item \<noteq> k) \<longrightarrow>
      btrfs_lookup_item max_level (Some r) (Some k) (Some d) (Some sz) = Some (Some d, Some sz, -1))"
proof -
  let ?xs = "bn_items n"
  from search_slot_leaf [OF assms(1,2), of k] obtain ret nodes slots where
    s: "btrfs_search_slot max_level (Some r) (Some k) = Some (ret, nodes, slots)" "nodes 0 = Some n"
      "ret = 0 \<and> unat (slots 0) < length ?xs \<and> it_key (?xs ! unat (slots 0)) = k \<or>
       ret = 1 \<and> unat (slots 0) \<le> length ?xs \<and> (\<forall>i<unat (slots 0). key_less (it_key (?xs ! i)) k) \<and>
       (\<forall>i<length ?xs. unat (slots 0) \<le> i \<longrightarrow> key_less k (it_key (?xs ! i)))" by blast
  have uniq: "i = j" if "i < length ?xs" "j < length ?xs" "it_key (?xs ! i) = k" "it_key (?xs ! j) = k" for i j
  proof (rule ccontr)
    assume "i \<noteq> j"
    then have "key_less k k" using that assms(1) by (cases "i < j") (metis leaf_root_def sorted_items_def linorder_neqE_nat)+
    then show False by (simp add: key_less_irrefl)
  qed
  show ?thesis
  proof (cases "ret = 0")
    case True
    then have i: "unat (slots 0) < length ?xs" "it_key (?xs ! unat (slots 0)) = k" using s(3) by auto
    have "item = ?xs ! unat (slots 0)" if "item \<in> set ?xs" "it_key item = k" for item
      using that uniq [OF _ i(1) _ i(2)] by (metis in_set_conv_nth)
    moreover have "?xs ! unat (slots 0) \<in> set ?xs" using i(1) by simp
    moreover have "unat (it_size x) \<le> length d" if "\<not> sz < it_size x" for x
      using that assms(3) by (simp add: word_less_nat_alt)
    ultimately show ?thesis using lookup_found [of max_level r k nodes slots n d sz] s(1,2) True i by (auto simp: Let_def)
  next
    case False
    have "it_key (?xs ! j) \<noteq> k" if "j < length ?xs" for j
      using s(3) False that key_less_irrefl by (cases "j < unat (slots 0)") (auto simp: not_less)
    then have "\<forall>item\<in>set ?xs. it_key item \<noteq> k" by (metis in_set_conv_nth)
    moreover have "ret = 1" using s(3) False by blast
    ultimately show ?thesis using s(1) by (simp add: btrfs_lookup_item_def)
  qed
qed

theorem btrfs_lookup_leaf_witness:
  "btrfs_lookup_item 8 (Some sample_root) (Some (sample_key 9)) (Some [0, 0]) (Some 2) = Some (Some [4, 5], Some 2, 0)"
  using btrfs_lookup_leaf [OF sample_root_leaf, of 8 2 "[0, 0]" "sample_key 9"]
  by (simp add: sample_leaf_def sample_key_def)

lemma descend_null: "\<exists>path'. descend max_level None key level path = Some (None, path')"
proof (induction level arbitrary: path)
  case (Suc level)
  then show ?case by (cases path) (simp add: btrfs_find_key_def)
qed simp

text \<open>
  Deeper trees cannot be used. When the root of a tree is not a leaf, every search uses a null pointer,
  whatever the key and the nodes, because no child is ever read; and so do insertion, deletion, update and
  lookup.
\<close>

theorem btrfs_deep_tree_faults:
  assumes "br_fs_info r" and "br_node r = Some n" and "bn_level n \<noteq> 0"
  shows "btrfs_search_slot max_level (Some r) (Some k) = None \<and> btrfs_insert_item max_level (Some r) (Some k) True sz = None \<and>
    btrfs_delete_item max_level (Some r) (Some k) = None \<and> btrfs_update_item max_level (Some r) (Some k) True sz = None \<and>
    btrfs_lookup_item max_level (Some r) (Some k) d (Some sz) = None"
proof -
  from assms(3) obtain l where l: "unat (bn_level n) = Suc l" by (metis not0_implies_Suc unat_eq_0)
  have "btrfs_search_slot max_level (Some r) (Some k) = None"
  proof (cases "btrfs_find_key (Some n) (Some k)")
    case None
    then show ?thesis using assms(1,2) l by (simp add: btrfs_search_slot_def Let_def)
  next
    case (Some slot)
    obtain path where
      "descend max_level None k l ([Suc l \<mapsto> n], (\<lambda>_. 0)(Suc l := of_int slot)) = Some (None, path)"
      using descend_null by blast
    then show ?thesis using Some assms(1,2) l
      by (cases path) (simp add: btrfs_search_slot_def btrfs_find_key_def)
  qed
  then show ?thesis
    by (simp add: btrfs_insert_item_def btrfs_delete_item_def btrfs_update_item_def btrfs_lookup_item_def)
qed

theorem btrfs_deep_tree_faults_witness:
  "btrfs_search_slot 8 (Some (sample_root\<lparr>br_node := Some (sample_leaf\<lparr>bn_level := 1\<rparr>)\<rparr>)) (Some (sample_key 5)) = None"
  using btrfs_deep_tree_faults [of "sample_root\<lparr>br_node := Some (sample_leaf\<lparr>bn_level := 1\<rparr>)\<rparr>" "sample_leaf\<lparr>bn_level := 1\<rparr>" 8 "sample_key 5" 0 None]
  by (simp add: sample_root_def)

end
