(* ===== verification/Ipv4.thy ===== *)
theory Ipv4
  imports Horizon_Prelude
begin

text \<open>
  The IPv4 input path, \<^verbatim>\<open>net/ipv4/ipv4.c\<close>. A packet is the list of bytes that can be read at its address; the
  length the caller passes is a separate argument, and reading a byte that is not there has no result.
  Words are read in the order of the machine, least significant byte first.

  The claims are that the checksum routine computes the complement of the one's complement sum of the
  16-bit words, that a packet is accepted exactly under the conditions of the code and a change of one word
  of an accepted header is refused, and that a packet shorter than its header is not recognised as such.
\<close>

section \<open>Checksum\<close>

definition get8 :: "u8 list \<Rightarrow> nat \<Rightarrow> u8 option" where
  "get8 buf i = (if i < length buf then Some (buf ! i) else None)"

definition get16 :: "u8 list \<Rightarrow> nat \<Rightarrow> u16 option" where
  "get16 buf i = Option.bind (get8 buf i) (\<lambda>lo. Option.bind (get8 buf (i + 1)) (\<lambda>hi. Some (ucast lo OR push_bit 8 (ucast hi))))"

definition put16 :: "u8 list \<Rightarrow> nat \<Rightarrow> u16 \<Rightarrow> u8 list option" where
  "put16 buf i w = (if i + 1 < length buf then Some (buf[i := ucast w, i + 1 := ucast (drop_bit 8 w)]) else None)"

text \<open>The loop over the words, from byte \<open>p\<close> on with \<open>len\<close> bytes left, and the byte left over.\<close>

function sum_words :: "u8 list \<Rightarrow> nat \<Rightarrow> nat \<Rightarrow> u32 \<Rightarrow> u32 option" where
  "sum_words buf p len csum =
     (if len > 1 then Option.bind (get16 buf p) (\<lambda>w. sum_words buf (p + 2) (len - 2) (csum + ucast w))
      else if len > 0 then Option.bind (get8 buf p) (\<lambda>b. Some (csum + ucast b))
      else Some csum)"
  by pat_completeness auto
termination by (relation "measure (\<lambda>(_, _, len, _). len)") auto

declare sum_words.simps [simp del]

lemma fold_smaller: "drop_bit 16 s \<noteq> 0 \<Longrightarrow> unat ((s AND 0xFFFF) + drop_bit 16 s :: u32) = unat s mod 65536 + unat s div 65536"
  and fold_less: "drop_bit 16 s \<noteq> 0 \<Longrightarrow> unat s mod 65536 + unat s div 65536 < unat (s :: u32)"
proof -
  have m: "(0xFFFF :: u32) = mask 16" by (simp add: mask_eq_exp_minus_1)
  have l: "unat (s AND 0xFFFF) = unat s mod 65536" unfolding m
    by (simp add: take_bit_eq_mod unat_mod flip: take_bit_eq_mask)
  have h: "unat (drop_bit 16 s) = unat s div 65536" by (simp add: drop_bit_eq_div unat_div)
  have b: "unat s < 2 ^ 32" using unsigned_less [where 'a = nat and w = s] by simp
  show "unat ((s AND 0xFFFF) + drop_bit 16 s) = unat s mod 65536 + unat s div 65536"
    using b unfolding unat_word_ariths l h by simp
  assume "drop_bit 16 s \<noteq> 0"
  then have "0 < unat s div 65536" using h by (metis unat_gt_0)
  moreover have "unat s = 65536 * (unat s div 65536) + unat s mod 65536" by simp
  ultimately show "unat s mod 65536 + unat s div 65536 < unat s" by linarith
qed

function fold_sum :: "u32 \<Rightarrow> u32" where
  "fold_sum csum = (if drop_bit 16 csum \<noteq> 0 then fold_sum ((csum AND 0xFFFF) + drop_bit 16 csum) else csum)"
  by pat_completeness auto
termination by (relation "measure unat") (auto simp: fold_smaller fold_less)

declare fold_sum.simps [simp del]

definition ipv4_checksum :: "u8 list \<Rightarrow> nat \<Rightarrow> u16 option" where
  "ipv4_checksum data len = Option.bind (sum_words data 0 len 0) (\<lambda>csum. Some (ucast (NOT (fold_sum csum))))"

section \<open>Handlers\<close>

definition IPPROTO_ICMP :: u8 where "IPPROTO_ICMP = 1"
definition IPPROTO_TCP :: u8 where "IPPROTO_TCP = 6"
definition IPPROTO_UDP :: u8 where "IPPROTO_UDP = 17"

text \<open>The sizes of the packed headers.\<close>

definition sizeof_tcp_header :: u32 where "sizeof_tcp_header = 20"
definition sizeof_udp_header :: u32 where "sizeof_udp_header = 8"
definition sizeof_icmp_header :: u32 where "sizeof_icmp_header = 8"

definition ipv4_tcp_handler :: "u32 \<Rightarrow> int" where
  "ipv4_tcp_handler len = (if len < sizeof_tcp_header then -1 else 0)"

definition ipv4_udp_handler :: "u32 \<Rightarrow> int" where
  "ipv4_udp_handler len = (if len < sizeof_udp_header then -1 else 0)"

definition ipv4_icmp_handler :: "u32 \<Rightarrow> int" where
  "ipv4_icmp_handler len = (if len < sizeof_icmp_header then -1 else 0)"

definition protocol_switch :: "u8 \<Rightarrow> u32 \<Rightarrow> int" where
  "protocol_switch protocol len =
     (if protocol = IPPROTO_TCP then ipv4_tcp_handler len
      else if protocol = IPPROTO_UDP then ipv4_udp_handler len
      else if protocol = IPPROTO_ICMP then ipv4_icmp_handler len
      else -1)"

text \<open>The packet is returned too: the check clears its checksum and puts it back only when it is right.\<close>

definition ipv4_handler :: "u8 list \<Rightarrow> u32 \<Rightarrow> (u8 list \<times> int) option" where
  "ipv4_handler data len =
     Option.bind (get8 data 0) (\<lambda>version_ihl.
       let ihl = version_ihl AND 0x0F;
           version = drop_bit 4 version_ihl AND 0x0F
       in if ihl < 5 then Some (data, -1)
          else if version \<noteq> 4 then Some (data, -1)
          else
            Option.bind (get16 data 10) (\<lambda>checksum.
            Option.bind (put16 data 10 0) (\<lambda>data1.
            Option.bind (ipv4_checksum data1 (unat ihl * 4)) (\<lambda>computed.
              if computed \<noteq> checksum then Some (data1, -1)
              else
                Option.bind (put16 data1 10 checksum) (\<lambda>data2.
                Option.bind (get8 data2 9) (\<lambda>protocol.
                  Some (data2, protocol_switch protocol (len - ucast ihl * 4))))))))"

section \<open>One's complement sums\<close>

text \<open>The sum of the 16-bit words of a list of bytes; a last single byte counts as a word.\<close>

fun word_sum :: "u8 list \<Rightarrow> nat" where
  "word_sum (lo # hi # bs) = unat lo + 256 * unat hi + word_sum bs"
| "word_sum [b] = unat b"
| "word_sum [] = 0"

text \<open>The one's complement sum of RFC 1071: addition with the carry brought back.\<close>

definition ones_sum :: "nat \<Rightarrow> nat" where
  "ones_sum n = (if n = 0 then 0 else (n - 1) mod 65535 + 1)"

lemma byte_less: "unat (b :: u8) < 256"
  using unsigned_less [where 'a = nat and w = b] by simp

lemma join_bytes: "unat (ucast lo OR push_bit 8 (ucast hi) :: u16) = unat (lo :: u8) + 256 * unat (hi :: u8)"
proof -
  let ?l = "ucast lo :: u16" and ?h = "push_bit 8 (ucast hi) :: u16"
  have "?l AND ?h = 0"
    by (rule bit_word_eqI) (auto simp: bit_and_iff bit_push_bit_iff bit_unsigned_iff dest: bit_imp_le_length)
  then have "?l OR ?h = ?l + ?h" by (rule disjunctive_add_eq_or [symmetric])
  moreover have u: "unat ?l = unat lo" "unat (ucast hi :: u16) = unat hi"
    using byte_less [of lo] byte_less [of hi] by (simp_all add: unsigned_ucast_eq take_bit_nat_eq_self)
  moreover have "unat ?h = 256 * unat hi"
    using byte_less [of hi] by (simp add: push_bit_eq_mult unat_word_ariths u(2) mult.commute)
  ultimately show ?thesis using byte_less [of lo] byte_less [of hi] by (simp add: unat_word_ariths)
qed

lemma get16_some:
  assumes "p + 1 < length buf"
  obtains w where "get16 buf p = Some w" "unat w = unat (buf ! p) + 256 * unat (buf ! (p + 1))"
  using assms join_bytes [of "buf ! p" "buf ! (p + 1)"] by (simp add: get16_def get8_def)

lemma drop_two: "p + 1 < length buf \<Longrightarrow> drop p buf = buf ! p # buf ! (p + 1) # drop (p + 2) buf"
  by (metis Suc_eq_plus1 Cons_nth_drop_Suc Suc_lessD add_2_eq_Suc')

lemma sum_words_result:
  assumes "p + len \<le> length buf" and "unat csum + word_sum (take len (drop p buf)) < 2 ^ 32"
  shows "\<exists>r. sum_words buf p len csum = Some r \<and> unat r = unat csum + word_sum (take len (drop p buf))"
  using assms
proof (induction len arbitrary: p csum rule: less_induct)
  case (less len)
  consider (two) n where "len = n + 2" | (one) "len = 1" | (zero) "len = 0"
    by (metis One_nat_def add_2_eq_Suc' not0_implies_Suc)
  then show ?case
  proof cases
    case two
    have d: "take len (drop p buf) = buf ! p # buf ! (p + 1) # take n (drop (p + 2) buf)"
      using less.prems(1) two by (subst drop_two) simp_all
    obtain w where w: "get16 buf p = Some w" "unat w = unat (buf ! p) + 256 * unat (buf ! (p + 1))"
      using less.prems(1) two get16_some [of p buf] by auto
    have u: "unat (ucast w :: u32) = unat w"
      using unsigned_less [where 'a = nat and w = w] by (simp add: unsigned_ucast_eq take_bit_nat_eq_self)
    have lt: "unat csum + unat w + word_sum (take n (drop (p + 2) buf)) < 2 ^ 32" using less.prems(2) unfolding d by (simp add: w(2))
    then have c: "unat (csum + ucast w) = unat csum + unat w" by (simp add: unat_word_ariths u)
    have "\<exists>r. sum_words buf (p + 2) n (csum + ucast w) = Some r \<and> unat r = unat (csum + ucast w) + word_sum (take n (drop (p + 2) buf))"
      by (rule less.IH) (use less.prems(1) two lt c in simp_all)
    then show ?thesis unfolding d using two w c by (subst sum_words.simps) (simp add: add.assoc)
  next
    case one
    have d: "take len (drop p buf) = [buf ! p]" using less.prems(1) one by (simp add: take_Suc_conv_app_nth)
    have g: "get8 buf p = Some (buf ! p)" using less.prems(1) one by (simp add: get8_def)
    have u: "unat (ucast (buf ! p) :: u32) = unat (buf ! p)"
      using byte_less [of "buf ! p"] by (simp add: unsigned_ucast_eq take_bit_nat_eq_self)
    show ?thesis using one less.prems(2) g unfolding d by (subst sum_words.simps) (simp add: unat_word_ariths u)
  next
    case zero
    then show ?thesis by (subst sum_words.simps) simp
  qed
qed

lemma ones_sum_less: "n < 65536 \<Longrightarrow> ones_sum n = n"
  by (cases n) (simp_all add: ones_sum_def)

lemma ones_sum_fold: "ones_sum (b + a) = ones_sum (65536 * a + b)"
proof (cases "b + a")
  case (Suc k)
  then have "65536 * a + b = Suc (k + a * 65535)" by simp
  then show ?thesis unfolding Suc by (simp only: ones_sum_def) simp
qed (simp add: ones_sum_def)

lemma fold_sum_result: "unat (fold_sum s) = ones_sum (unat s)"
proof (induction s rule: fold_sum.induct)
  case (1 s)
  show ?case
  proof (cases "drop_bit 16 s = 0")
    case True
    then have "unat (s div 65536) = 0" by (simp add: drop_bit_eq_div)
    then have "unat s < 65536" by (simp add: unat_div div_eq_0_iff)
    then show ?thesis using True by (subst fold_sum.simps) (simp add: ones_sum_less)
  next
    case False
    have "ones_sum (unat s mod 65536 + unat s div 65536) = ones_sum (unat s)" by (simp add: ones_sum_fold)
    then show ?thesis using False 1 [OF False] by (subst fold_sum.simps) (simp add: fold_smaller)
  qed
qed

lemma ones_sum_le: "ones_sum n \<le> 65535"
  using mod_less_divisor [of 65535 "n - 1"] by (auto simp: ones_sum_def simp del: mod_less_divisor)

lemma byte_sum_bound: "word_sum bs \<le> 65535 * length bs"
proof (induction bs rule: word_sum.induct)
  case (1 lo hi bs)
  then show ?case using byte_less [of lo] byte_less [of hi] by simp
next
  case (2 b)
  then show ?case using byte_less [of b] by simp
qed simp

lemma complement_low: "unat s < 65536 \<Longrightarrow> unat (ucast (NOT s :: u32) :: u16) = 65535 - unat s"
proof -
  assume s: "unat s < 65536"
  have "ucast (NOT s) = NOT (ucast s :: u16)" by (rule bit_word_eqI) (simp add: bit_simps)
  also have "\<dots> = - ucast s - 1" by (simp add: not_eq_complement)
  also have "\<dots> = 65535 - ucast s" by simp
  also have "\<dots> = of_nat (65535 - unat s)" using s by (simp add: of_nat_diff)
  finally show ?thesis by (simp add: unsigned_of_nat take_bit_nat_eq_self)
qed

lemma ipv4_checksum_result:
  assumes "len \<le> length data" and "len \<le> 65537"
  shows "\<exists>c. ipv4_checksum data len = Some c \<and> unat c = 65535 - ones_sum (word_sum (take len data))"
proof -
  have "word_sum (take len data) < 2 ^ 32" using byte_sum_bound [of "take len data"] assms by simp
  then obtain r where "sum_words data 0 len 0 = Some r" "unat r = word_sum (take len data)"
    using sum_words_result [of 0 len data 0] assms(1) by auto
  moreover have "unat (fold_sum r) < 65536" using ones_sum_le [of "unat r"] by (simp add: fold_sum_result)
  ultimately show ?thesis using complement_low [of "fold_sum r"] by (simp add: ipv4_checksum_def fold_sum_result)
qed

section \<open>Headers\<close>

text \<open>The header length in bytes, the version, and the stored checksum of a packet.\<close>

definition header_len :: "u8 list \<Rightarrow> nat" where
  "header_len data = unat (data ! 0 AND 0x0F) * 4"

definition header_version :: "u8 list \<Rightarrow> u8" where
  "header_version data = drop_bit 4 (data ! 0) AND 0x0F"

definition stored_checksum :: "u8 list \<Rightarrow> nat" where
  "stored_checksum data = unat (data ! 10) + 256 * unat (data ! 11)"

text \<open>The condition of the standard: the sum over the whole header, checksum included, is all ones.\<close>

definition header_sum_ok :: "u8 list \<Rightarrow> bool" where
  "header_sum_ok data \<longleftrightarrow> ones_sum (word_sum (take (header_len data) data)) = 65535"

definition clear_checksum :: "u8 list \<Rightarrow> u8 list" where
  "clear_checksum data = data[10 := 0, 11 := 0]"

lemma word_sum_append: "even (length xs) \<Longrightarrow> word_sum (xs @ ys) = word_sum xs + word_sum ys"
  by (induction xs rule: word_sum.induct) simp_all

lemma split_checksum: "12 \<le> length xs \<Longrightarrow> xs = take 10 xs @ xs ! 10 # xs ! 11 # drop 12 xs"
  using drop_two [of 10 xs] append_take_drop_id [of 10 xs] by simp

lemma word_sum_checksum:
  assumes "12 \<le> n" and "n \<le> length data"
  shows "word_sum (take n data) = word_sum (take n (clear_checksum data)) + stored_checksum data"
proof -
  have e: "take n xs = take 10 xs @ xs ! 10 # xs ! 11 # take (n - 12) (drop 12 xs)" if "n \<le> length xs" for xs :: "u8 list"
    using split_checksum [of "take n xs"] assms(1) that by (simp add: min_def drop_take)
  have "take 10 (clear_checksum data) = take 10 data" "drop 12 (clear_checksum data) = drop 12 data"
    by (simp_all add: clear_checksum_def)
  then have "take n (clear_checksum data) = take 10 data @ 0 # 0 # take (n - 12) (drop 12 data)"
    using assms e [of "clear_checksum data"] by (simp add: clear_checksum_def)
  then show ?thesis using assms e [of data] by (simp add: word_sum_append stored_checksum_def)
qed

lemma clear_keeps_first: "12 \<le> length data \<Longrightarrow> clear_checksum data ! 0 = data ! 0"
  by (simp add: clear_checksum_def)

lemma get16_checksum:
  assumes "12 \<le> length data"
  obtains c where "get16 data 10 = Some c" "unat c = stored_checksum data" "put16 (clear_checksum data) 10 c = Some data"
proof -
  let ?c = "ucast (data ! 10) OR push_bit 8 (ucast (data ! 11)) :: u16"
  have "get16 data 10 = Some ?c" using assms by (simp add: get16_def get8_def)
  moreover have "unat ?c = stored_checksum data" by (simp add: join_bytes stored_checksum_def)
  moreover have "ucast ?c = data ! 10" "ucast (drop_bit 8 ?c) = data ! 11"
    by (rule bit_word_eqI, auto simp: bit_simps dest: bit_imp_le_length)+
  then have "put16 (clear_checksum data) 10 ?c = Some (data[10 := data ! 10, 11 := data ! 11])"
    using assms by (simp add: put16_def clear_checksum_def list_update_swap [of 10 11])
  ultimately show thesis using that [of ?c] by simp
qed

lemma ones_sum_all: "0 < a \<Longrightarrow> ones_sum (a + c) = 65535 \<longleftrightarrow> (a + c) mod 65535 = 0"
  by (cases a) (simp_all add: ones_sum_def mod_Suc)

text \<open>The test of the code, on the sum \<open>a\<close> without the checksum \<open>c\<close>, against the condition of the standard.\<close>

lemma checksum_test:
  assumes "0 < a" and "c \<le> 65535"
  shows "65535 - ones_sum a = c \<longleftrightarrow> ones_sum (a + c) = 65535 \<and> c \<noteq> 65535"
proof -
  define k where "k = ones_sum a"
  have k: "1 \<le> k" "k \<le> 65535" using assms(1) ones_sum_le [of a] by (simp_all add: k_def ones_sum_def)
  have "k mod 65535 = a mod 65535"
    using assms(1) unfolding k_def ones_sum_def by (cases a) (simp_all add: mod_Suc)
  then have "(a + c) mod 65535 = (k + c) mod 65535" by (metis mod_add_left_eq)
  moreover have "(k + c) mod 65535 = 0 \<longleftrightarrow> k + c = 65535 \<or> k + c = 131070"
    using k assms(2) by (auto simp: dvd_def simp flip: dvd_eq_mod_eq_0)
  ultimately show ?thesis using k assms ones_sum_all [OF assms(1), of c] unfolding k_def by auto
qed

lemma header_len_small: "header_len data \<le> 60"
proof -
  have "data ! 0 AND 0x0F = take_bit 4 (data ! 0)" by (simp add: take_bit_eq_mask mask_eq_exp_minus_1)
  then have "unat (data ! 0 AND 0x0F) < 16" by (simp add: unsigned_take_bit_eq take_bit_nat_less_exp [where n = 4, simplified])
  then show ?thesis by (simp add: header_len_def)
qed

lemma handler_result:
  assumes "20 \<le> header_len data" and "header_len data \<le> length data" and "header_version data = 4"
  shows "ipv4_handler data len =
    (if header_sum_ok data \<and> stored_checksum data \<noteq> 65535 then Some (data, protocol_switch (data ! 9) (len - of_nat (header_len data)))
     else Some (clear_checksum data, -1))"
proof -
  let ?n = "header_len data"
  have l: "12 \<le> length data" "12 \<le> ?n" using assms(1,2) by simp_all
  obtain c where c: "get16 data 10 = Some c" "unat c = stored_checksum data" "put16 (clear_checksum data) 10 c = Some data"
    using get16_checksum [OF l(1)] .
  let ?a = "word_sum (take ?n (clear_checksum data))"
  obtain k where k: "ipv4_checksum (clear_checksum data) ?n = Some k" "unat k = 65535 - ones_sum ?a"
    using ipv4_checksum_result [of ?n "clear_checksum data"] assms(2) header_len_small [of data] by (auto simp: clear_checksum_def)
  have "data ! 0 \<noteq> 0" using assms(1) by (auto simp: header_len_def)
  moreover have "take ?n (clear_checksum data) = data ! 0 # clear_checksum data ! 1 # take (?n - 2) (drop 2 (clear_checksum data))"
    using drop_two [of 0 "take ?n (clear_checksum data)"] l clear_keeps_first [OF l(1)] by (simp add: clear_checksum_def drop_take numeral_2_eq_2)
  ultimately have a: "0 < ?a" by (simp add: unat_gt_0)
  have "k = c \<longleftrightarrow> header_sum_ok data \<and> stored_checksum data \<noteq> 65535"
    using checksum_test [OF a, of "stored_checksum data"] word_sum_checksum [OF l(2) assms(2)] unsigned_less [where 'a = nat and w = c]
    unfolding header_sum_ok_def word_unat_eq_iff k(2) c(2) by simp
  moreover have "get8 data 0 = Some (data ! 0)" "get8 data 9 = Some (data ! 9)" "put16 data 10 0 = Some (clear_checksum data)"
    using l(1) by (auto simp: get8_def put16_def clear_checksum_def)
  moreover have "\<not> data ! 0 AND 0x0F < 5" using assms(1) by (simp add: header_len_def word_less_nat_alt)
  moreover have "ucast (data ! 0 AND 0x0F) * 4 = (of_nat ?n :: u32)" by (simp add: header_len_def)
  ultimately show ?thesis
    using assms(3) c k(1) unfolding header_version_def ipv4_handler_def header_len_def by (simp add: Let_def)
qed

section \<open>Claims\<close>

text \<open>
  C13. The checksum routine computes the Internet checksum: for any buffer of up to 65537 bytes it returns the
  complement of the one's complement sum of its 16-bit words, the last odd byte counting as a word. Both
  loops end, and the 32-bit accumulator does not overflow.
\<close>

theorem ipv4_checksum_correct:
  assumes "len \<le> length data" and "len \<le> 65537"
  shows "\<exists>c. ipv4_checksum data len = Some c \<and> unat c = 65535 - ones_sum (word_sum (take len data))"
  by (rule ipv4_checksum_result [OF assms])

theorem ipv4_checksum_correct_witness:
  "\<exists>c. ipv4_checksum [0xFF, 0xFF, 2, 0, 7] 5 = Some c \<and> unat c = 65526"
  using ipv4_checksum_correct [of 5 "[0xFF, 0xFF, 2, 0, 7]"] by (simp add: ones_sum_def)

text \<open>
  C14. Which packets are accepted. A packet with a header length below 20 or another version is refused as it
  is. Otherwise, when the header is there, it is passed on unchanged exactly if the one's complement sum over
  the whole header is all ones, as the standard asks, and the stored checksum is not \<^verbatim>\<open>0xFFFF\<close> (which the
  standard allows as another form of zero); a refused packet keeps a cleared checksum.
\<close>

theorem ipv4_handler_decides:
  assumes "data \<noteq> []" and "20 \<le> header_len data \<Longrightarrow> header_len data \<le> length data"
  shows "ipv4_handler data len =
    (if header_len data < 20 \<or> header_version data \<noteq> 4 then Some (data, -1)
     else if header_sum_ok data \<and> stored_checksum data \<noteq> 65535 then Some (data, protocol_switch (data ! 9) (len - of_nat (header_len data)))
     else Some (clear_checksum data, -1))"
proof (cases "header_len data < 20 \<or> header_version data \<noteq> 4")
  case True
  have "get8 data 0 = Some (data ! 0)" using assms(1) by (simp add: get8_def)
  moreover have "data ! 0 AND 0x0F < 5 \<longleftrightarrow> header_len data < 20" by (simp add: header_len_def word_less_nat_alt)
  ultimately show ?thesis using True by (auto simp: ipv4_handler_def Let_def header_version_def)
next
  case False
  then show ?thesis using handler_result [of data len] assms(2) by simp
qed

text \<open>A header of 20 bytes, for protocol UDP, with the right checksum.\<close>

definition sample_header :: "u8 list" where
  "sample_header = [0x45, 0, 0, 0x1C, 0, 0, 0, 0, 64, 17, 0x66, 0xCF, 10, 0, 0, 1, 10, 0, 0, 2]"

lemma sample_header_ok: "header_len sample_header = 20" "header_version sample_header = 4" "length sample_header = 20"
    "stored_checksum sample_header \<noteq> 65535"
  by (simp_all add: sample_header_def header_len_def header_version_def stored_checksum_def)

lemma sample_sum_ok: "header_sum_ok sample_header"
  by (simp add: header_sum_ok_def sample_header_ok) (simp add: sample_header_def ones_sum_def)

theorem ipv4_handler_decides_witness:
  "ipv4_handler sample_header 28 = Some (sample_header, 0)"
proof -
  have "protocol_switch (sample_header ! 9) (28 - of_nat 20) = 0"
    by (simp add: sample_header_def protocol_switch_def IPPROTO_TCP_def IPPROTO_UDP_def ipv4_udp_handler_def sizeof_udp_header_def)
  then show ?thesis
    using ipv4_handler_decides [of sample_header 28] sample_header_ok sample_sum_ok by (auto simp: sample_header_def)
qed

lemma word_sum_replace:
  assumes "even k" and "k + 1 < length xs"
  shows "word_sum (xs[k := lo, k + 1 := hi]) + unat (xs ! k) + 256 * unat (xs ! (k + 1)) = word_sum xs + unat lo + 256 * unat hi"
proof -
  have "xs = take k xs @ xs ! k # xs ! (k + 1) # drop (k + 2) xs"
    using drop_two [OF assms(2)] append_take_drop_id [of k xs] by simp
  moreover have "xs[k := lo, k + 1 := hi] = take k xs @ lo # hi # drop (k + 2) xs"
    using assms(2) by (simp add: list_update_append upd_conv_take_nth_drop Cons_nth_drop_Suc drop_update_swap)
  ultimately have "word_sum xs = word_sum (take k xs) + (unat (xs ! k) + 256 * unat (xs ! (k + 1)) + word_sum (drop (k + 2) xs))"
    "word_sum (xs[k := lo, k + 1 := hi]) = word_sum (take k xs) + (unat lo + 256 * unat hi + word_sum (drop (k + 2) xs))"
    using assms word_sum_append [of "take k xs"] by (metis length_take min.absorb4 add_lessD1 word_sum.simps(1))+
  then show ?thesis by simp
qed

lemma sum_ok_mod: "0 < word_sum (take (header_len data) data) \<Longrightarrow> header_sum_ok data \<longleftrightarrow> word_sum (take (header_len data) data) mod 65535 = 0"
  using ones_sum_all [of "word_sum (take (header_len data) data)" 0] by (simp add: header_sum_ok_def)

lemma header_sum_pos:
  assumes "20 \<le> header_len data" and "header_len data \<le> length data"
  shows "0 < word_sum (take (header_len data) data)"
proof -
  have "data ! 0 \<noteq> 0" using assms(1) by (auto simp: header_len_def)
  moreover have "take (header_len data) data = data ! 0 # data ! 1 # drop 2 (take (header_len data) data)"
    using drop_two [of 0 "take (header_len data) data"] assms by (simp add: numeral_2_eq_2)
  ultimately show ?thesis by (metis add_gr_0 unat_gt_0 word_sum.simps(1))
qed

text \<open>
  C15. Damage to one word is detected. If a packet is accepted, then after changing one 16-bit word of its
  header it is refused, unless the change is between \<^verbatim>\<open>0x0000\<close> and \<^verbatim>\<open>0xFFFF\<close> in a word that is not the checksum.
  A change of the first word must leave its first byte alone, which holds the version and the length of the header.
\<close>

theorem ipv4_damage_detected:
  assumes "20 \<le> header_len data" and "header_len data \<le> length data" and "header_version data = 4"
    and "header_sum_ok data" and "stored_checksum data \<noteq> 65535"
    and "even k" and "k = 0 \<longrightarrow> lo = data ! 0" and "k + 1 < header_len data" and "(lo, hi) \<noteq> (data ! k, data ! (k + 1))"
    and "k = 10 \<or> \<not> {unat lo + 256 * unat hi, unat (data ! k) + 256 * unat (data ! (k + 1))} \<subseteq> {0, 65535}"
  shows "ipv4_handler (data[k := lo, k + 1 := hi]) len = Some (clear_checksum (data[k := lo, k + 1 := hi]), -1)"
proof -
  let ?d = "data[k := lo, k + 1 := hi]" and ?n = "header_len data"
  let ?v = "unat lo + 256 * unat hi" and ?w = "unat (data ! k) + 256 * unat (data ! (k + 1))"
  have first: "?d ! 0 = data ! 0" using assms(2,7,8) by (cases "k = 0") simp_all
  then have h: "header_len ?d = ?n" "header_version ?d = 4" using assms(3) by (simp_all add: header_len_def header_version_def)
  have "take ?n ?d = (take ?n data)[k := lo, k + 1 := hi]" by (simp add: take_update_swap)
  then have s: "word_sum (take ?n ?d) + ?w = word_sum (take ?n data) + ?v"
    using word_sum_replace [OF assms(6), of "take ?n data" lo hi] assms(2,8) by simp
  have ne: "?v \<noteq> ?w"
  proof
    assume e: "?v = ?w"
    have "unat lo = ?v mod 256" "unat hi = ?v div 256" using byte_less [of lo] byte_less [of hi] by simp_all
    moreover have "unat (data ! k) = ?w mod 256" "unat (data ! (k + 1)) = ?w div 256"
      using byte_less [of "data ! k"] byte_less [of "data ! (k + 1)"] by simp_all
    ultimately show False using e assms(9) by (simp add: word_unat_eq_iff)
  qed
  have le: "?v \<le> 65535" "?w \<le> 65535"
    using byte_less [of lo] byte_less [of hi] byte_less [of "data ! k"] byte_less [of "data ! (k + 1)"] by simp_all
  have "\<not> (header_sum_ok ?d \<and> stored_checksum ?d \<noteq> 65535)"
  proof (intro notI, elim conjE)
    assume ok: "header_sum_ok ?d" "stored_checksum ?d \<noteq> 65535"
    have "0 < word_sum (take ?n ?d)" using header_sum_pos [of ?d] assms(1,2) h(1) by simp
    then have "word_sum (take ?n ?d) mod 65535 = 0" using sum_ok_mod [of ?d] ok(1) h(1) by simp
    moreover have "word_sum (take ?n data) mod 65535 = 0" using sum_ok_mod [OF header_sum_pos [OF assms(1,2)]] assms(4) by simp
    ultimately have "?w mod 65535 = ?v mod 65535" using s by (metis add.left_neutral mod_add_left_eq)
    then have "?v \<in> {0, 65535}" "?w \<in> {0, 65535}" using le ne by (auto simp: mod_if split: if_splits)
    moreover have "?v \<noteq> 65535" "?w \<noteq> 65535" if "k = 10"
      using ok(2) assms(2,5,8) that by (simp_all add: stored_checksum_def)
    ultimately show False using assms(10) ne by auto
  qed
  moreover have "20 \<le> header_len ?d" "header_len ?d \<le> length ?d" unfolding h(1) using assms(1,2) by simp_all
  ultimately show ?thesis using handler_result [of ?d len] h(2) by (simp only: if_False)
qed

theorem ipv4_damage_detected_witness:
  "ipv4_handler (sample_header[8 := 63, 8 + 1 := 17]) 28 = Some (clear_checksum (sample_header[8 := 63, 8 + 1 := 17]), -1) \<and>
   ipv4_handler (sample_header[0 := sample_header ! 0, 0 + 1 := 16]) 28 =
     Some (clear_checksum (sample_header[0 := sample_header ! 0, 0 + 1 := 16]), -1)"
  by (intro conjI; rule ipv4_damage_detected) (use sample_header_ok sample_sum_ok in \<open>simp_all add: sample_header_def\<close>)

text \<open>
  The length of the packet is not checked against its header. A packet of fewer bytes than its own header
  claims, but with memory behind it in which the checksum is right, is accepted for each of the three
  protocols: the length of the payload wraps around to almost \<open>2 ^ 32\<close>.
\<close>

theorem ipv4_short_packet_accepted:
  assumes "20 \<le> header_len data" and "header_len data \<le> length data" and "header_version data = 4"
    and "header_sum_ok data" and "stored_checksum data \<noteq> 65535"
    and "data ! 9 \<in> {IPPROTO_TCP, IPPROTO_UDP, IPPROTO_ICMP}" and "unat len < header_len data"
  shows "ipv4_handler data len = Some (data, 0)"
proof -
  have b: "header_len data \<le> 60" by (rule header_len_small)
  have "len - of_nat (header_len data) = of_nat (2 ^ 32 + unat len - header_len data)"
    using assms(7) b by (simp add: of_nat_diff)
  moreover have "unat (of_nat (2 ^ 32 + unat len - header_len data) :: u32) = 2 ^ 32 + unat len - header_len data"
    unfolding unsigned_of_nat of_nat_id using assms(7) b by (intro take_bit_nat_eq_self) simp
  ultimately have "unat (len - of_nat (header_len data)) = 2 ^ 32 + unat len - header_len data" by (simp only:)
  then have "20 \<le> unat (len - of_nat (header_len data))" using b by simp
  then have "protocol_switch (data ! 9) (len - of_nat (header_len data)) = 0"
    using assms(6) by (auto simp: protocol_switch_def ipv4_tcp_handler_def ipv4_udp_handler_def ipv4_icmp_handler_def
        sizeof_tcp_header_def sizeof_udp_header_def sizeof_icmp_header_def word_less_nat_alt)
  then show ?thesis using handler_result [OF assms(1-3)] assms(4,5) by simp
qed

theorem ipv4_short_packet_accepted_witness: "ipv4_handler sample_header 1 = Some (sample_header, 0)"
  by (rule ipv4_short_packet_accepted) (use sample_header_ok sample_sum_ok in \<open>simp_all add: sample_header_def IPPROTO_UDP_def\<close>)

end
