(* ===== verification/Single_List.thy ===== *)
theory Single_List
  imports Horizon_Prelude
begin

text \<open>
  Singly linked lists threaded through the objects themselves, the way the kernel keeps its registries
  (security modules, network devices and protocols, block devices): a head pointer and a next pointer per
  object. Registration links an object in front; removal looks for the predecessor. A walk over a cyclic
  list has no result.

  The locale \<open>registry\<close> is what such a registry promises in terms of the list of registered objects; the
  components interpret it on their own operations.
\<close>

section \<open>Operations\<close>

text \<open>The loop \<^verbatim>\<open>while (prev != NULL && prev->next != node) prev = prev->next\<close>.\<close>

partial_function (option) walk_prev :: "(nat \<Rightarrow> nat option) \<Rightarrow> nat option \<Rightarrow> nat \<Rightarrow> nat option option" where
  "walk_prev nx prev node =
     (case prev of None \<Rightarrow> Some None
      | Some q \<Rightarrow> if nx q \<noteq> Some node then walk_prev nx (nx q) node else Some (Some q))"

text \<open>Unlinking a node: the head moves on, or the predecessor skips the node; nothing if it is not there.\<close>

definition unlink_node :: "(nat \<Rightarrow> nat option) \<Rightarrow> nat option \<Rightarrow> nat \<Rightarrow> ((nat \<Rightarrow> nat option) \<times> nat option) option" where
  "unlink_node nx head node =
     (if head = Some node then Some (nx, nx node)
      else Option.bind (walk_prev nx head node) (\<lambda>prev.
        case prev of None \<Rightarrow> Some (nx, head)
        | Some q \<Rightarrow> Some (nx(q := nx node), head)))"

section \<open>Paths\<close>

primrec node_path :: "(nat \<Rightarrow> nat option) \<Rightarrow> nat option \<Rightarrow> nat list \<Rightarrow> bool" where
  "node_path nx h [] \<longleftrightarrow> h = None"
| "node_path nx h (p # ps) \<longleftrightarrow> h = Some p \<and> node_path nx (nx p) ps"

lemma node_path_upd [simp]: "p \<notin> set ps \<Longrightarrow> node_path (nx(p := v)) h ps = node_path nx h ps"
  by (induction ps arbitrary: h) auto

lemma node_path_unique: "node_path nx h ps \<Longrightarrow> node_path nx h qs \<Longrightarrow> ps = qs"
proof (induction ps arbitrary: h qs)
  case Nil
  then show ?case by (cases qs) auto
next
  case (Cons p ps)
  then show ?case by (cases qs) auto
qed

lemma node_path_skip:
  "node_path nx h (us @ q # p # vs) \<Longrightarrow> distinct (us @ q # p # vs) \<Longrightarrow> node_path (nx(q := nx p)) h (us @ q # vs)"
  by (induction us arbitrary: h) auto

lemma walk_prev_path:
  "node_path nx h ps \<Longrightarrow> h \<noteq> Some p \<Longrightarrow>
   (p \<notin> set ps \<and> walk_prev nx h p = Some None) \<or>
   (\<exists>us q vs. ps = us @ q # p # vs \<and> walk_prev nx h p = Some (Some q))"
proof (induction ps arbitrary: h)
  case Nil
  then show ?case by (simp add: walk_prev.simps)
next
  case (Cons q ps)
  show ?case
  proof (cases "nx q = Some p")
    case True
    with Cons.prems have "walk_prev nx h p = Some (Some q)" by (subst walk_prev.simps) simp
    moreover from True Cons.prems obtain vs where "ps = p # vs" by (cases ps) auto
    ultimately show ?thesis by (intro disjI2 exI [of _ "[]"]) auto
  next
    case False
    then have w: "walk_prev nx h p = walk_prev nx (nx q) p" using Cons.prems by (subst walk_prev.simps) simp
    have "node_path nx (nx q) ps" "p \<noteq> q" using Cons.prems by auto
    from Cons.IH [OF this(1) False] show ?thesis unfolding w
    proof (elim disjE exE conjE)
      fix us r vs assume "ps = us @ r # p # vs" "walk_prev nx (nx q) p = Some (Some r)"
      then show "(p \<notin> set (q # ps) \<and> walk_prev nx (nx q) p = Some None) \<or>
          (\<exists>us r vs. q # ps = us @ r # p # vs \<and> walk_prev nx (nx q) p = Some (Some r))"
        by (intro disjI2 exI [of _ "q # us"]) auto
    qed (use \<open>p \<noteq> q\<close> in auto)
  qed
qed

lemma unlink_node_path:
  assumes "node_path nx h ps" and "distinct ps"
  shows "\<exists>nx' h'. unlink_node nx h p = Some (nx', h') \<and> node_path nx' h' (remove1 p ps) \<and>
    (\<forall>q. q \<notin> set ps \<longrightarrow> nx' q = nx q)"
proof (cases "h = Some p")
  case True
  then obtain qs where "ps = p # qs" using assms(1) by (cases ps) auto
  then show ?thesis using True assms by (simp add: unlink_node_def)
next
  case False
  from walk_prev_path [OF assms(1) False] show ?thesis
  proof (elim disjE exE conjE)
    assume "p \<notin> set ps" "walk_prev nx h p = Some None"
    then show ?thesis using False assms(1) by (simp add: unlink_node_def remove1_idem)
  next
    fix us q vs assume ps: "ps = us @ q # p # vs" "walk_prev nx h p = Some (Some q)"
    have "remove1 p ps = us @ q # vs" using assms(2) ps(1) by (auto simp: remove1_append)
    moreover have "node_path (nx(q := nx p)) h (us @ q # vs)" using assms ps(1) by (intro node_path_skip) auto
    ultimately show ?thesis using False ps by (simp add: unlink_node_def)
  qed
qed

text \<open>A walk for a node that is on no list never leaves a cycle.\<close>

lemma walk_prev_cycle:
  assumes "q \<in> C" and "\<forall>x\<in>C. \<exists>y\<in>C. nx x = Some y" and "p \<notin> C"
  shows "walk_prev nx (Some q) p = None"
proof -
  let ?P = "\<lambda>nx h p (r :: nat option). (\<forall>x\<in>C. \<exists>y\<in>C. nx x = Some y) \<longrightarrow> p \<notin> C \<longrightarrow> h \<notin> Some ` C"
  have "?P nx (Some q) p r" if "walk_prev nx (Some q) p = Some r" for r
  proof (rule walk_prev.raw_induct [of ?P, OF _ that], intro impI notI)
    fix walk :: "(nat \<Rightarrow> nat option) \<Rightarrow> nat option \<Rightarrow> nat \<Rightarrow> nat option option" and nx h p r
    assume IH: "\<And>nx h p r. walk nx h p = Some r \<Longrightarrow> ?P nx h p r"
      and body: "(case h of None \<Rightarrow> Some None | Some q \<Rightarrow> if nx q \<noteq> Some p then walk nx (nx q) p else Some (Some q)) = Some r"
      and C: "\<forall>x\<in>C. \<exists>y\<in>C. nx x = Some y" "p \<notin> C" "h \<in> Some ` C"
    from C(3) obtain x where x: "h = Some x" "x \<in> C" by blast
    with C(1) obtain y where y: "nx x = Some y" "y \<in> C" by blast
    then have "walk nx (Some y) p = Some r" using body C(2) x(1) by (auto split: if_splits)
    from IH [OF this] C(1,2) y(2) show False by blast
  qed
  then show ?thesis using assms by (cases "walk_prev nx (Some q) p") auto
qed

section \<open>Registries\<close>

text \<open>Sequences of registrations and removals, on a registry and on a list.\<close>

datatype reg_op = Reg nat | Unreg nat

fun reg_exec :: "('s \<Rightarrow> nat \<Rightarrow> 's) \<Rightarrow> ('s \<Rightarrow> nat \<Rightarrow> 's option) \<Rightarrow> reg_op list \<Rightarrow> 's \<Rightarrow> 's option" where
  "reg_exec register unregister [] s = Some s"
| "reg_exec register unregister (Reg p # ops) s = reg_exec register unregister ops (register s p)"
| "reg_exec register unregister (Unreg p # ops) s = Option.bind (unregister s p) (reg_exec register unregister ops)"

fun list_exec :: "reg_op list \<Rightarrow> nat list \<Rightarrow> nat list" where
  "list_exec [] ps = ps"
| "list_exec (Reg p # ops) ps = list_exec ops (p # ps)"
| "list_exec (Unreg p # ops) ps = list_exec ops (remove1 p ps)"

text \<open>Nothing is registered while it is registered.\<close>

fun ops_fresh :: "reg_op list \<Rightarrow> nat list \<Rightarrow> bool" where
  "ops_fresh [] ps \<longleftrightarrow> True"
| "ops_fresh (Reg p # ops) ps \<longleftrightarrow> p \<notin> set ps \<and> ops_fresh ops (p # ps)"
| "ops_fresh (Unreg p # ops) ps \<longleftrightarrow> ops_fresh ops (remove1 p ps)"

text \<open>
  A registry of objects: what registration and removal do to the list of the registered objects.
  \<open>admit\<close> is the condition under which an object that is not registered is accepted.
\<close>

locale registry =
  fixes rep :: "'s \<Rightarrow> nat list \<Rightarrow> bool"
    and register :: "'s \<Rightarrow> nat \<Rightarrow> 's"
    and unregister :: "'s \<Rightarrow> nat \<Rightarrow> 's option"
    and admit :: "'s \<Rightarrow> nat \<Rightarrow> bool"
  assumes rep_distinct: "rep s ps \<Longrightarrow> distinct ps"
    and rep_unique: "rep s ps \<Longrightarrow> rep s qs \<Longrightarrow> ps = qs"
    and rep_register: "rep s ps \<Longrightarrow> p \<notin> set ps \<Longrightarrow> admit s p \<Longrightarrow> rep (register s p) (p # ps)"
    and rep_unregister: "rep s ps \<Longrightarrow> \<exists>s'. unregister s p = Some s' \<and> rep s' (remove1 p ps)"
begin

lemma register_unregister:
  assumes "rep s ps" and "p \<notin> set ps" and "admit s p"
  shows "\<exists>s'. unregister (register s p) p = Some s' \<and> rep s' ps"
  using rep_unregister [OF rep_register [OF assms], of p] by simp

lemma exec_refines_list:
  assumes "\<forall>s p. admit s p" and "rep s ps" and "ops_fresh ops ps"
  shows "\<exists>s'. reg_exec register unregister ops s = Some s' \<and> rep s' (list_exec ops ps)"
  using assms(2,3)
proof (induction ops arbitrary: s ps)
  case (Cons op ops)
  show ?case
  proof (cases op)
    case (Reg p)
    then show ?thesis using Cons rep_register [of s ps p] assms(1) by simp
  next
    case (Unreg p)
    obtain s1 where "unregister s p = Some s1" "rep s1 (remove1 p ps)" using rep_unregister [OF Cons.prems(1)] by blast
    then show ?thesis using Cons Unreg by simp
  qed
qed simp

lemma unregister_twice:
  assumes "rep s ps" and "unregister s p = Some s1" and "unregister s1 p = Some s2"
  shows "rep s2 (remove1 p ps)" and "p \<notin> set (remove1 p ps)"
proof -
  have 1: "rep s1 (remove1 p ps)" using rep_unregister [OF assms(1), of p] assms(2) by auto
  show "p \<notin> set (remove1 p ps)" using rep_distinct [OF assms(1)] by simp
  then show "rep s2 (remove1 p ps)" using rep_unregister [OF 1, of p] assms(3) by (auto simp: remove1_idem)
qed

end

end
