(* ===== verification/Net.thy ===== *)
theory Net
  imports Single_List
begin

text \<open>
  The core of the network subsystem, \<^verbatim>\<open>net/core/net.c\<close>, with the socket system calls of \<^verbatim>\<open>net/socket/socket.c\<close> and
  the registrations of \<^verbatim>\<open>ipv4_init\<close>. Sockets are objects at addresses; a socket's table of operations is
  optional, and so is each entry; an entry maps the address of the socket and its arguments to the value
  returned (what a protocol does with its private data is not part of the model). Devices and protocols are
  addresses with a next pointer.

  The claims are that the device registry is a list as long as no device is registered twice, that
  registering one twice makes the removal of another hang, and that no socket that can be created can be
  used or closed.
\<close>

section \<open>State\<close>

type_synonym sockaddr_ptr = "nat option"

record socket_ops =
  op_bind :: "(nat \<Rightarrow> sockaddr_ptr \<Rightarrow> int \<Rightarrow> int) option"
  op_connect :: "(nat \<Rightarrow> sockaddr_ptr \<Rightarrow> int \<Rightarrow> int) option"
  op_listen :: "(nat \<Rightarrow> int \<Rightarrow> int) option"
  op_accept :: "(nat \<Rightarrow> sockaddr_ptr \<Rightarrow> nat option \<Rightarrow> int) option"
  op_send :: "(nat \<Rightarrow> nat option \<Rightarrow> u32 \<Rightarrow> int \<Rightarrow> int) option"
  op_recv :: "(nat \<Rightarrow> nat option \<Rightarrow> u32 \<Rightarrow> int \<Rightarrow> int) option"
  op_close :: "(nat \<Rightarrow> int) option"

record socket =
  sk_type :: int
  sk_protocol :: int
  sk_state :: int
  sk_ops :: "socket_ops option"

record net_state =
  sockets :: "nat \<Rightarrow> socket option"
  dev_next :: "nat \<Rightarrow> nat option"
  net_devices :: "nat option"
  proto_next :: "nat \<Rightarrow> nat option"
  net_protocols :: "nat option"

definition AF_LOCAL :: int where "AF_LOCAL = 1"
definition AF_INET :: int where "AF_INET = 2"

definition net_init :: "net_state \<Rightarrow> net_state" where
  "net_init s = s\<lparr>net_devices := None, net_protocols := None\<rparr>"

section \<open>Sockets\<close>

text \<open>\<open>alloc\<close> is the address the allocator returns, if any. The result has the new socket.\<close>

definition socket_create :: "net_state \<Rightarrow> nat option \<Rightarrow> int \<Rightarrow> int \<Rightarrow> int \<Rightarrow> net_state \<times> nat option \<times> int" where
  "socket_create s alloc family type protocol =
     (case alloc of
        None \<Rightarrow> (s, None, -1)
      | Some a \<Rightarrow>
          let s1 = s\<lparr>sockets := (sockets s)(a \<mapsto> \<lparr>sk_type = type, sk_protocol = protocol, sk_state = 0, sk_ops = None\<rparr>)\<rparr>
          in if family = AF_INET \<or> family = AF_LOCAL then (s1, Some a, 0)
             else (s1\<lparr>sockets := (sockets s1)(a := None)\<rparr>, None, -1))"

text \<open>The operation of a socket that a call dispatches to. Using a socket that was freed has no result.\<close>

definition with_op :: "net_state \<Rightarrow> nat \<Rightarrow> (socket_ops \<Rightarrow> 'a option) \<Rightarrow> 'a option option" where
  "with_op s sock get = Option.bind (sockets s sock) (\<lambda>k. Some (Option.bind (sk_ops k) get))"

definition socket_bind :: "net_state \<Rightarrow> nat option \<Rightarrow> sockaddr_ptr \<Rightarrow> int \<Rightarrow> int option" where
  "socket_bind s sock addr addrlen =
     (case (sock, addr) of
        (Some k, Some _) \<Rightarrow> Option.bind (with_op s k op_bind) (\<lambda>f. case f of None \<Rightarrow> Some (-1) | Some g \<Rightarrow> Some (g k addr addrlen))
      | _ \<Rightarrow> Some (-1))"

definition socket_connect :: "net_state \<Rightarrow> nat option \<Rightarrow> sockaddr_ptr \<Rightarrow> int \<Rightarrow> int option" where
  "socket_connect s sock addr addrlen =
     (case (sock, addr) of
        (Some k, Some _) \<Rightarrow> Option.bind (with_op s k op_connect) (\<lambda>f. case f of None \<Rightarrow> Some (-1) | Some g \<Rightarrow> Some (g k addr addrlen))
      | _ \<Rightarrow> Some (-1))"

definition socket_listen :: "net_state \<Rightarrow> nat option \<Rightarrow> int \<Rightarrow> int option" where
  "socket_listen s sock backlog =
     (case sock of
        Some k \<Rightarrow> Option.bind (with_op s k op_listen) (\<lambda>f. case f of None \<Rightarrow> Some (-1) | Some g \<Rightarrow> Some (g k backlog))
      | None \<Rightarrow> Some (-1))"

text \<open>\<open>newsock\<close>: the pointer for the new socket is not null.\<close>

definition socket_accept :: "net_state \<Rightarrow> nat option \<Rightarrow> nat option \<Rightarrow> sockaddr_ptr \<Rightarrow> nat option \<Rightarrow> bool \<Rightarrow> (net_state \<times> nat option \<times> int) option" where
  "socket_accept s alloc sock addr addrlen newsock =
     (case sock of
        None \<Rightarrow> Some (s, None, -1)
      | Some k \<Rightarrow>
          if \<not> newsock then Some (s, None, -1)
          else Option.bind (with_op s k op_accept) (\<lambda>f.
            case f of
              None \<Rightarrow> Some (s, None, -1)
            | Some g \<Rightarrow>
                (case alloc of
                   None \<Rightarrow> Some (s, None, -1)
                 | Some a \<Rightarrow>
                     Option.bind (sockets s k) (\<lambda>old.
                       let s1 = s\<lparr>sockets := (sockets s)(a \<mapsto> \<lparr>sk_type = sk_type old, sk_protocol = sk_protocol old,
                                    sk_state = 0, sk_ops = sk_ops old\<rparr>)\<rparr>;
                           result = g k addr addrlen
                       in if result < 0 then Some (s1\<lparr>sockets := (sockets s1)(a := None)\<rparr>, None, result)
                          else Some (s1, Some a, 0)))))"

definition socket_send :: "net_state \<Rightarrow> nat option \<Rightarrow> nat option \<Rightarrow> u32 \<Rightarrow> int \<Rightarrow> int option" where
  "socket_send s sock buf len flags =
     (case (sock, buf) of
        (Some k, Some _) \<Rightarrow> Option.bind (with_op s k op_send) (\<lambda>f. case f of None \<Rightarrow> Some (-1) | Some g \<Rightarrow> Some (g k buf len flags))
      | _ \<Rightarrow> Some (-1))"

definition socket_recv :: "net_state \<Rightarrow> nat option \<Rightarrow> nat option \<Rightarrow> u32 \<Rightarrow> int \<Rightarrow> int option" where
  "socket_recv s sock buf len flags =
     (case (sock, buf) of
        (Some k, Some _) \<Rightarrow> Option.bind (with_op s k op_recv) (\<lambda>f. case f of None \<Rightarrow> Some (-1) | Some g \<Rightarrow> Some (g k buf len flags))
      | _ \<Rightarrow> Some (-1))"

definition socket_close :: "net_state \<Rightarrow> nat option \<Rightarrow> (net_state \<times> int) option" where
  "socket_close s sock =
     (case sock of
        None \<Rightarrow> Some (s, -1)
      | Some k \<Rightarrow> Option.bind (with_op s k op_close) (\<lambda>f.
          case f of
            None \<Rightarrow> Some (s, -1)
          | Some g \<Rightarrow> Some (s\<lparr>sockets := (sockets s)(k := None)\<rparr>, g k)))"

section \<open>System calls\<close>

text \<open>The calls that would look up a socket by its descriptor use a null pointer instead.\<close>

definition sys_socket :: "net_state \<Rightarrow> nat option \<Rightarrow> int \<Rightarrow> int \<Rightarrow> int \<Rightarrow> net_state \<times> int" where
  "sys_socket s alloc family type protocol =
     (case socket_create s alloc family type protocol of (s1, sock, result) \<Rightarrow> (s1, if result < 0 then result else 3))"

definition sys_bind :: "net_state \<Rightarrow> int \<Rightarrow> sockaddr_ptr \<Rightarrow> int \<Rightarrow> int option" where
  "sys_bind s sockfd addr addrlen = (let sock = None in if sock = None then Some (-1) else socket_bind s sock addr addrlen)"

definition sys_connect :: "net_state \<Rightarrow> int \<Rightarrow> sockaddr_ptr \<Rightarrow> int \<Rightarrow> int option" where
  "sys_connect s sockfd addr addrlen = (let sock = None in if sock = None then Some (-1) else socket_connect s sock addr addrlen)"

definition sys_listen :: "net_state \<Rightarrow> int \<Rightarrow> int \<Rightarrow> int option" where
  "sys_listen s sockfd backlog = (let sock = None in if sock = None then Some (-1) else socket_listen s sock backlog)"

definition sys_accept :: "net_state \<Rightarrow> nat option \<Rightarrow> int \<Rightarrow> sockaddr_ptr \<Rightarrow> nat option \<Rightarrow> (net_state \<times> int) option" where
  "sys_accept s alloc sockfd addr addrlen =
     (let sock = None
      in if sock = None then Some (s, -1)
         else Option.bind (socket_accept s alloc sock addr addrlen True) (\<lambda>(s1, newsock, result).
           Some (s1, if result < 0 then result else 4)))"

definition sys_send :: "net_state \<Rightarrow> int \<Rightarrow> nat option \<Rightarrow> u32 \<Rightarrow> int \<Rightarrow> int option" where
  "sys_send s sockfd buf len flags = (let sock = None in if sock = None then Some (-1) else socket_send s sock buf len flags)"

definition sys_recv :: "net_state \<Rightarrow> int \<Rightarrow> nat option \<Rightarrow> u32 \<Rightarrow> int \<Rightarrow> int option" where
  "sys_recv s sockfd buf len flags = (let sock = None in if sock = None then Some (-1) else socket_recv s sock buf len flags)"

definition sys_close_socket :: "net_state \<Rightarrow> int \<Rightarrow> (net_state \<times> int) option" where
  "sys_close_socket s fd = (let sock = None in if sock = None then Some (s, -1) else socket_close s sock)"

section \<open>Devices and protocols\<close>

definition net_device_register :: "net_state \<Rightarrow> nat option \<Rightarrow> net_state \<times> int" where
  "net_device_register s dev =
     (case dev of
        None \<Rightarrow> (s, -1)
      | Some d \<Rightarrow> (s\<lparr>dev_next := (dev_next s)(d := net_devices s), net_devices := Some d\<rparr>, 0))"

definition net_device_unregister :: "net_state \<Rightarrow> nat option \<Rightarrow> (net_state \<times> int) option" where
  "net_device_unregister s dev =
     (case dev of
        None \<Rightarrow> Some (s, -1)
      | Some d \<Rightarrow> Option.bind (unlink_node (dev_next s) (net_devices s) d) (\<lambda>(nx, h).
          Some (s\<lparr>dev_next := nx, net_devices := h\<rparr>, 0)))"

definition net_protocol_register :: "net_state \<Rightarrow> nat option \<Rightarrow> net_state \<times> int" where
  "net_protocol_register s proto =
     (case proto of
        None \<Rightarrow> (s, -1)
      | Some p \<Rightarrow> (s\<lparr>proto_next := (proto_next s)(p := net_protocols s), net_protocols := Some p\<rparr>, 0))"

definition net_protocol_unregister :: "net_state \<Rightarrow> nat option \<Rightarrow> (net_state \<times> int) option" where
  "net_protocol_unregister s proto =
     (case proto of
        None \<Rightarrow> Some (s, -1)
      | Some p \<Rightarrow> Option.bind (unlink_node (proto_next s) (net_protocols s) p) (\<lambda>(nx, h).
          Some (s\<lparr>proto_next := nx, net_protocols := h\<rparr>, 0)))"

text \<open>The three static protocol objects of \<^verbatim>\<open>ipv4.c\<close>, and their registration.\<close>

definition ipv4_tcp_protocol :: nat where "ipv4_tcp_protocol = 1"
definition ipv4_udp_protocol :: nat where "ipv4_udp_protocol = 2"
definition ipv4_icmp_protocol :: nat where "ipv4_icmp_protocol = 3"

definition ipv4_init :: "net_state \<Rightarrow> net_state" where
  "ipv4_init s =
     fst (net_protocol_register
       (fst (net_protocol_register (fst (net_protocol_register s (Some ipv4_tcp_protocol))) (Some ipv4_udp_protocol)))
       (Some ipv4_icmp_protocol))"

section \<open>Registries\<close>

definition device_rep :: "net_state \<Rightarrow> nat list \<Rightarrow> bool" where
  "device_rep s ds \<longleftrightarrow> node_path (dev_next s) (net_devices s) ds \<and> distinct ds"

definition protocol_rep :: "net_state \<Rightarrow> nat list \<Rightarrow> bool" where
  "protocol_rep s ps \<longleftrightarrow> node_path (proto_next s) (net_protocols s) ps \<and> distinct ps"

definition register_dev :: "net_state \<Rightarrow> nat \<Rightarrow> net_state" where
  "register_dev s d = fst (net_device_register s (Some d))"

definition unregister_dev :: "net_state \<Rightarrow> nat \<Rightarrow> net_state option" where
  "unregister_dev s d = map_option fst (net_device_unregister s (Some d))"

definition register_proto :: "net_state \<Rightarrow> nat \<Rightarrow> net_state" where
  "register_proto s p = fst (net_protocol_register s (Some p))"

definition unregister_proto :: "net_state \<Rightarrow> nat \<Rightarrow> net_state option" where
  "unregister_proto s p = map_option fst (net_protocol_unregister s (Some p))"

interpretation devices: registry device_rep register_dev unregister_dev "\<lambda>s d. True"
proof unfold_locales
  fix s :: net_state and ds p
  assume "device_rep s ds"
  then show "\<exists>s'. unregister_dev s p = Some s' \<and> device_rep s' (remove1 p ds)"
    using unlink_node_path [of "dev_next s" "net_devices s" ds p]
    by (auto simp: device_rep_def unregister_dev_def net_device_unregister_def distinct_remove1)
qed (auto simp: device_rep_def register_dev_def net_device_register_def dest: node_path_unique)

interpretation protocols: registry protocol_rep register_proto unregister_proto "\<lambda>s p. True"
proof unfold_locales
  fix s :: net_state and ps p
  assume "protocol_rep s ps"
  then show "\<exists>s'. unregister_proto s p = Some s' \<and> protocol_rep s' (remove1 p ps)"
    using unlink_node_path [of "proto_next s" "net_protocols s" ps p]
    by (auto simp: protocol_rep_def unregister_proto_def net_protocol_unregister_def distinct_remove1)
qed (auto simp: protocol_rep_def register_proto_def net_protocol_register_def dest: node_path_unique)

section \<open>Claims\<close>

definition empty_net :: net_state where
  "empty_net = \<lparr>sockets = \<lambda>_. None, dev_next = \<lambda>_. None, net_devices = None, proto_next = \<lambda>_. None, net_protocols = None\<rparr>"

text \<open>
  C16. The registry of network devices is a list. After \<^verbatim>\<open>net_init\<close>, any sequence of registrations of
  devices that are not registered at the time and of removals of any devices returns, and the chain of
  devices is the list that inserting in front and removing give.
\<close>

theorem net_devices_refine_list:
  assumes "ops_fresh ops []"
  shows "\<exists>s'. reg_exec register_dev unregister_dev ops (net_init s) = Some s' \<and>
    node_path (dev_next s') (net_devices s') (list_exec ops [])"
  using devices.exec_refines_list [of "net_init s" "[]" ops] assms
  by (auto simp: device_rep_def net_init_def)

theorem net_devices_refine_list_witness:
  "\<exists>s'. reg_exec register_dev unregister_dev [Reg 5, Reg 7, Reg 9, Unreg 7, Reg 7, Unreg 4] (net_init empty_net) = Some s' \<and>
    node_path (dev_next s') (net_devices s') [7, 9, 5]"
  using net_devices_refine_list [of "[Reg 5, Reg 7, Reg 9, Unreg 7, Reg 7, Unreg 4]" empty_net] by simp

text \<open>
  Registering a network device a second time makes the list of devices cyclic: the removal of a device
  that is not registered then never returns.
\<close>

theorem net_double_register_hangs:
  assumes "device_rep s ds" and "d \<in> set ds" and "e \<notin> set ds"
  shows "net_device_unregister (fst (net_device_register s (Some d))) (Some e) = None"
proof -
  from assms(2) obtain us vs where ds: "ds = us @ d # vs" "d \<notin> set us" by (blast dest: split_list_first)
  let ?nx = "(dev_next s)(d := net_devices s)"
  have path: "node_path (dev_next s) h (us @ d # vs) \<Longrightarrow> d \<notin> set us \<Longrightarrow>
      \<exists>y\<in>set (us @ [d]). h = Some y \<and> (\<forall>x\<in>set us. \<exists>y\<in>set (us @ [d]). dev_next s x = Some y)" for h us
  proof (induction us arbitrary: h)
    case (Cons u us)
    from Cons.IH [of "dev_next s u"] Cons.prems show ?case by auto
  qed simp
  have p: "node_path (dev_next s) (net_devices s) (us @ d # vs)" using assms(1) ds(1) by (simp add: device_rep_def)
  have "\<forall>x\<in>set (us @ [d]). \<exists>y\<in>set (us @ [d]). ?nx x = Some y"
    using path [OF p ds(2)] ds(2) by auto
  moreover have "e \<notin> set (us @ [d])" "d \<noteq> e" using assms(2,3) ds(1) by auto
  ultimately have "walk_prev ?nx (Some d) e = None" by (intro walk_prev_cycle [of d "set (us @ [d])"]) auto
  then show ?thesis using \<open>d \<noteq> e\<close> by (simp add: net_device_unregister_def net_device_register_def unlink_node_def)
qed

theorem net_double_register_hangs_witness:
  "net_device_unregister (fst (net_device_register (register_dev (register_dev empty_net 3) 4) (Some 3))) (Some 8) = None"
  by (rule net_double_register_hangs [of _ "[4, 3]"])
    (simp_all add: device_rep_def register_dev_def net_device_register_def empty_net_def)

text \<open>
  No socket can be used. A socket of either supported family that was created has no operations: binding,
  connecting, listening, accepting, sending, receiving and closing all return -1, nothing changes, and the
  socket is never freed. The system calls on descriptors return -1 for every descriptor, also the 3
  that the creating call returns.
\<close>

theorem created_socket_unusable:
  assumes "family = AF_INET \<or> family = AF_LOCAL"
  shows "\<exists>s'. socket_create s (Some a) family type protocol = (s', Some a, 0) \<and> sockets s' a \<noteq> None \<and>
    socket_bind s' (Some a) addr n = Some (-1) \<and> socket_connect s' (Some a) addr n = Some (-1) \<and>
    socket_listen s' (Some a) n = Some (-1) \<and> socket_accept s' alloc (Some a) addr l ns = Some (s', None, -1) \<and>
    socket_send s' (Some a) buf len n = Some (-1) \<and> socket_recv s' (Some a) buf len n = Some (-1) \<and>
    socket_close s' (Some a) = Some (s', -1) \<and>
    sys_socket s (Some a) family type protocol = (s', 3) \<and> sys_bind s' 3 addr n = Some (-1) \<and> sys_close_socket s' 3 = Some (s', -1)"
  using assms
  by (cases addr; cases buf)
    (auto simp: socket_create_def socket_bind_def socket_connect_def socket_listen_def socket_accept_def socket_send_def
      socket_recv_def socket_close_def with_op_def sys_socket_def sys_bind_def sys_close_socket_def Let_def)

theorem created_socket_unusable_witness:
  "\<exists>s'. socket_create empty_net (Some 12) 2 1 6 = (s', Some 12, 0) \<and> socket_close s' (Some 12) = Some (s', -1)"
  using created_socket_unusable [of 2 empty_net 12 1 6 None 0 None None False None 0] by (auto simp: AF_INET_def)

lemma ipv4_init_protocols: "protocol_rep s ps \<Longrightarrow> set ps \<inter> {1, 2, 3} = {} \<Longrightarrow>
    protocol_rep (ipv4_init s) ([ipv4_icmp_protocol, ipv4_udp_protocol, ipv4_tcp_protocol] @ ps)"
  using protocols.rep_register [of s ps ipv4_tcp_protocol]
    protocols.rep_register [of "register_proto s ipv4_tcp_protocol" "ipv4_tcp_protocol # ps" ipv4_udp_protocol]
    protocols.rep_register [of "register_proto (register_proto s ipv4_tcp_protocol) ipv4_udp_protocol"
      "ipv4_udp_protocol # ipv4_tcp_protocol # ps" ipv4_icmp_protocol]
  by (simp add: ipv4_init_def register_proto_def ipv4_tcp_protocol_def ipv4_udp_protocol_def ipv4_icmp_protocol_def)

end
