(* ===== verification/Block.thy ===== *)
theory Block
  imports Single_List
begin

text \<open>
  The block device layer, \<^verbatim>\<open>block/block.c\<close>: the list of block devices, looked up by name, and the transfers that
  check their sectors before they call the driver. A driver operation maps its arguments to the value it
  returns; what it transfers is not part of the model. Devices are at addresses with a next pointer.

  The claims are that the list keeps its devices distinct by name under every sequence of operations and
  that a lookup finds exactly the registered device, and when a transfer reaches its driver.
\<close>

section \<open>State\<close>

record block_device_ops =
  bops_read :: "(nat \<Rightarrow> u64 \<Rightarrow> u32 \<Rightarrow> nat \<Rightarrow> int) option"
  bops_write :: "(nat \<Rightarrow> u64 \<Rightarrow> u32 \<Rightarrow> nat \<Rightarrow> int) option"
  bops_ioctl :: "(nat \<Rightarrow> u32 \<Rightarrow> nat option \<Rightarrow> int) option"
  bops_flush :: "(nat \<Rightarrow> int) option"

record block_device =
  bd_name :: string
  bd_sector_count :: u64
  bd_ops :: "block_device_ops option"

record block_state =
  bd_at :: "nat \<Rightarrow> block_device"
  bd_next :: "nat \<Rightarrow> nat option"
  block_devices :: "nat option"

definition block_init :: "block_state \<Rightarrow> block_state" where
  "block_init s = s\<lparr>block_devices := None\<rparr>"

section \<open>The list of devices\<close>

text \<open>The loop that looks for a name, from a device on.\<close>

partial_function (option) find_name :: "block_state \<Rightarrow> nat option \<Rightarrow> string \<Rightarrow> nat option option" where
  "find_name s dev name =
     (case dev of
        None \<Rightarrow> Some None
      | Some d \<Rightarrow> if bd_name (bd_at s d) = name then Some (Some d) else find_name s (bd_next s d) name)"

definition block_register_device :: "block_state \<Rightarrow> nat option \<Rightarrow> (block_state \<times> int) option" where
  "block_register_device s dev =
     (case dev of
        None \<Rightarrow> Some (s, -1)
      | Some d \<Rightarrow>
          if bd_ops (bd_at s d) = None then Some (s, -1)
          else Option.bind (find_name s (block_devices s) (bd_name (bd_at s d))) (\<lambda>existing.
            if existing \<noteq> None then Some (s, -1)
            else Some (s\<lparr>bd_next := (bd_next s)(d := block_devices s), block_devices := Some d\<rparr>, 0)))"

text \<open>The loop of the removal, with the previous and the current device.\<close>

partial_function (option) remove_walk :: "block_state \<Rightarrow> nat option \<Rightarrow> nat option \<Rightarrow> nat \<Rightarrow> (block_state \<times> int) option" where
  "remove_walk s prev cur dev =
     (case cur of
        None \<Rightarrow> Some (s, -1)
      | Some c \<Rightarrow>
          if c = dev
          then (case prev of
                  None \<Rightarrow> Some (s\<lparr>block_devices := bd_next s c\<rparr>, 0)
                | Some q \<Rightarrow> Some (s\<lparr>bd_next := (bd_next s)(q := bd_next s c)\<rparr>, 0))
          else remove_walk s cur (bd_next s c) dev)"

definition block_unregister_device :: "block_state \<Rightarrow> nat option \<Rightarrow> (block_state \<times> int) option" where
  "block_unregister_device s dev =
     (case dev of None \<Rightarrow> Some (s, -1) | Some d \<Rightarrow> remove_walk s None (block_devices s) d)"

definition block_get_device :: "block_state \<Rightarrow> string option \<Rightarrow> nat option option" where
  "block_get_device s name = (case name of None \<Rightarrow> Some None | Some n \<Rightarrow> find_name s (block_devices s) n)"

section \<open>Transfers\<close>

text \<open>The checks of a transfer on its sectors; the sum is one of 64-bit words.\<close>

definition sectors_ok :: "block_device \<Rightarrow> u64 \<Rightarrow> u32 \<Rightarrow> bool" where
  "sectors_ok b sector count \<longleftrightarrow>
     \<not> sector \<ge> bd_sector_count b \<and> \<not> (count = 0 \<or> sector + ucast count > bd_sector_count b)"

definition block_read :: "block_state \<Rightarrow> nat option \<Rightarrow> u64 \<Rightarrow> u32 \<Rightarrow> nat option \<Rightarrow> int" where
  "block_read s dev sector count buffer =
     (case dev of
        None \<Rightarrow> -1
      | Some d \<Rightarrow>
          (case (Option.bind (bd_ops (bd_at s d)) bops_read, buffer) of
             (Some read, Some buf) \<Rightarrow> if sectors_ok (bd_at s d) sector count then read d sector count buf else -1
           | _ \<Rightarrow> -1))"

definition block_write :: "block_state \<Rightarrow> nat option \<Rightarrow> u64 \<Rightarrow> u32 \<Rightarrow> nat option \<Rightarrow> int" where
  "block_write s dev sector count buffer =
     (case dev of
        None \<Rightarrow> -1
      | Some d \<Rightarrow>
          (case (Option.bind (bd_ops (bd_at s d)) bops_write, buffer) of
             (Some wr, Some buf) \<Rightarrow> if sectors_ok (bd_at s d) sector count then wr d sector count buf else -1
           | _ \<Rightarrow> -1))"

definition block_ioctl :: "block_state \<Rightarrow> nat option \<Rightarrow> u32 \<Rightarrow> nat option \<Rightarrow> int" where
  "block_ioctl s dev request arg =
     (case dev of
        None \<Rightarrow> -1
      | Some d \<Rightarrow> (case Option.bind (bd_ops (bd_at s d)) bops_ioctl of None \<Rightarrow> -1 | Some io \<Rightarrow> io d request arg))"

definition block_flush :: "block_state \<Rightarrow> nat option \<Rightarrow> int" where
  "block_flush s dev =
     (case dev of
        None \<Rightarrow> -1
      | Some d \<Rightarrow> (case Option.bind (bd_ops (bd_at s d)) bops_flush of None \<Rightarrow> -1 | Some fl \<Rightarrow> fl d))"

section \<open>The list as a list\<close>

text \<open>The registered devices, which have different names; the names are not changed while registered.\<close>

definition block_rep :: "block_state \<Rightarrow> nat list \<Rightarrow> bool" where
  "block_rep s ds \<longleftrightarrow> node_path (bd_next s) (block_devices s) ds \<and> distinct (map (\<lambda>d. bd_name (bd_at s d)) ds)"

lemma find_name_path:
  "node_path (bd_next s) h ds \<Longrightarrow> find_name s h name = Some (find (\<lambda>d. bd_name (bd_at s d) = name) ds)"
proof (induction ds arbitrary: h)
  case Nil
  then show ?case by (simp add: find_name.simps)
next
  case (Cons d ds)
  then show ?case by (subst find_name.simps) simp
qed

lemma find_name_None:
  "node_path (bd_next s) h ds \<Longrightarrow> find_name s h name = Some None \<longleftrightarrow> (\<forall>d\<in>set ds. bd_name (bd_at s d) \<noteq> name)"
  by (auto simp: find_name_path find_None_iff)

lemma remove_walk_Some:
  "remove_walk s prev (Some c) d =
     (if c = d then (case prev of None \<Rightarrow> Some (s\<lparr>block_devices := bd_next s c\<rparr>, 0) | Some q \<Rightarrow> Some (s\<lparr>bd_next := (bd_next s)(q := bd_next s c)\<rparr>, 0))
      else remove_walk s (Some c) (bd_next s c) d)"
  by (subst remove_walk.simps) simp

lemma remove_walk_path:
  assumes "node_path (bd_next s) h ds" and "distinct ds" and "h \<noteq> Some d" and "h = bd_next s q" and "d \<noteq> q"
  shows "remove_walk s (Some q) h d =
    (if d \<in> set ds then map_option (\<lambda>(nx, _). (s\<lparr>bd_next := nx\<rparr>, 0)) (unlink_node (bd_next s) h d) else Some (s, -1))"
  using assms
proof (induction ds arbitrary: h q)
  case Nil
  then show ?case by (simp add: remove_walk.simps)
next
  case (Cons c ds)
  have c: "h = Some c" "c \<noteq> d" using Cons.prems by auto
  have w: "remove_walk s (Some q) h d = remove_walk s (Some c) (bd_next s c) d" using c by (simp add: remove_walk_Some)
  show ?case
  proof (cases "bd_next s c = Some d")
    case True
    then have "d \<in> set ds" using Cons.prems(1) by (cases ds) auto
    moreover have "walk_prev (bd_next s) h d = Some (Some c)" using c True by (subst walk_prev.simps) simp
    moreover have "remove_walk s (Some c) (bd_next s c) d = Some (s\<lparr>bd_next := (bd_next s)(c := bd_next s d)\<rparr>, 0)"
      using True by (simp add: remove_walk_Some)
    ultimately show ?thesis using w c by (simp add: unlink_node_def)
  next
    case False
    have "walk_prev (bd_next s) h d = walk_prev (bd_next s) (bd_next s c) d" using c False by (subst walk_prev.simps) simp
    then have "map_option (\<lambda>(nx, _). (s\<lparr>bd_next := nx\<rparr>, 0 :: int)) (unlink_node (bd_next s) h d) =
        map_option (\<lambda>(nx, _). (s\<lparr>bd_next := nx\<rparr>, 0)) (unlink_node (bd_next s) (bd_next s c) d)"
      using False c by (cases "walk_prev (bd_next s) (bd_next s c) d") (auto simp: unlink_node_def split: option.splits)
    then show ?thesis using Cons.IH [of "bd_next s c" c] Cons.prems False c w by auto
  qed
qed

text \<open>Removal is the unlinking of \<^verbatim>\<open>unlink_node\<close>, with a result that says whether the device was there.\<close>

lemma block_unregister_unlink:
  assumes "node_path (bd_next s) (block_devices s) ds" and "distinct ds"
  shows "block_unregister_device s (Some d) =
    (if d \<in> set ds then map_option (\<lambda>(nx, h). (s\<lparr>bd_next := nx, block_devices := h\<rparr>, 0)) (unlink_node (bd_next s) (block_devices s) d)
     else Some (s, -1))"
proof (cases ds)
  case Nil
  then show ?thesis using assms by (simp add: block_unregister_device_def remove_walk.simps)
next
  case (Cons c cs)
  show ?thesis
  proof (cases "c = d")
    case True
    then show ?thesis using Cons assms by (simp add: block_unregister_device_def remove_walk_Some unlink_node_def)
  next
    case False
    have h: "block_devices s = Some c" "node_path (bd_next s) (bd_next s c) cs" using Cons assms(1) by simp_all
    have u: "block_unregister_device s (Some d) = remove_walk s (Some c) (bd_next s c) d"
      using h(1) False by (simp add: block_unregister_device_def remove_walk_Some)
    show ?thesis
    proof (cases "bd_next s c = Some d")
      case True
      moreover have "walk_prev (bd_next s) (Some c) d = Some (Some c)" using True by (subst walk_prev.simps) simp
      moreover have "d \<in> set cs" using True h(2) by (cases cs) auto
      ultimately show ?thesis
        using u False h(1) Cons by (simp add: remove_walk_Some unlink_node_def)
    next
      case False': False
      have "walk_prev (bd_next s) (Some c) d = walk_prev (bd_next s) (bd_next s c) d" using False' by (subst walk_prev.simps) simp
      then have "map_option (\<lambda>(nx, h). (s\<lparr>bd_next := nx, block_devices := h\<rparr>, 0 :: int)) (unlink_node (bd_next s) (block_devices s) d) =
          map_option (\<lambda>(nx, _). (s\<lparr>bd_next := nx\<rparr>, 0)) (unlink_node (bd_next s) (bd_next s c) d)"
        using False False' h(1) by (cases "walk_prev (bd_next s) (bd_next s c) d") (auto simp: unlink_node_def split: option.splits)
      then show ?thesis
        using remove_walk_path [OF h(2) _ False' refl] assms(2) Cons False u by auto
    qed
  qed
qed

section \<open>Claims\<close>

definition register_block :: "block_state \<Rightarrow> nat \<Rightarrow> block_state" where
  "register_block s d = (case block_register_device s (Some d) of None \<Rightarrow> s | Some (s', _) \<Rightarrow> s')"

definition unregister_block :: "block_state \<Rightarrow> nat \<Rightarrow> block_state option" where
  "unregister_block s d = map_option fst (block_unregister_device s (Some d))"

definition block_admit :: "block_state \<Rightarrow> nat \<Rightarrow> bool" where
  "block_admit s d \<longleftrightarrow> bd_ops (bd_at s d) \<noteq> None \<and> block_get_device s (Some (bd_name (bd_at s d))) = Some None"

lemma block_rep_distinct: "block_rep s ds \<Longrightarrow> distinct ds"
  by (simp add: block_rep_def distinct_map)

lemma block_register_result:
  assumes "block_rep s ds"
  shows "block_register_device s (Some d) =
    (if bd_ops (bd_at s d) = None \<or> (\<exists>e\<in>set ds. bd_name (bd_at s e) = bd_name (bd_at s d)) then Some (s, -1)
     else Some (s\<lparr>bd_next := (bd_next s)(d := block_devices s), block_devices := Some d\<rparr>, 0))"
proof -
  have p: "node_path (bd_next s) (block_devices s) ds" using assms by (simp add: block_rep_def)
  obtain r where r: "find_name s (block_devices s) (bd_name (bd_at s d)) = Some r" using find_name_path [OF p] by blast
  with find_name_None [OF p, of "bd_name (bd_at s d)"] show ?thesis by (auto simp: block_register_device_def)
qed

lemma block_unregister_result:
  assumes "block_rep s ds"
  shows "\<exists>s'. block_unregister_device s (Some d) = Some (s', if d \<in> set ds then 0 else -1) \<and> block_rep s' (remove1 d ds) \<and> bd_at s' = bd_at s"
proof -
  have p: "node_path (bd_next s) (block_devices s) ds" "distinct ds" using assms block_rep_distinct by (auto simp: block_rep_def)
  obtain nx h where u: "unlink_node (bd_next s) (block_devices s) d = Some (nx, h)" "node_path nx h (remove1 d ds)"
    using unlink_node_path [OF p] by blast
  have "distinct (map (\<lambda>e. bd_name (bd_at s e)) (remove1 d ds))"
    using assms by (auto simp: block_rep_def distinct_map distinct_remove1 inj_on_def dest: notin_set_remove1)
  then show ?thesis using block_unregister_unlink [OF p, of d] u assms by (auto simp: block_rep_def remove1_idem)
qed

interpretation blocks: registry block_rep register_block unregister_block block_admit
proof unfold_locales
  fix s :: block_state and ds d
  assume r: "block_rep s ds"
  show "distinct ds" by (rule block_rep_distinct [OF r])
  show "ds = es" if "block_rep s es" for es :: "nat list" using r that by (auto simp: block_rep_def dest: node_path_unique)
  show "\<exists>s'. unregister_block s d = Some s' \<and> block_rep s' (remove1 d ds)"
    using block_unregister_result [OF r, of d] by (auto simp: unregister_block_def)
  assume "d \<notin> set ds" "block_admit s d"
  moreover from this(2) have "\<forall>e\<in>set ds. bd_name (bd_at s e) \<noteq> bd_name (bd_at s d)"
    using find_name_None [of s "block_devices s" ds "bd_name (bd_at s d)"] r
    by (simp add: block_admit_def block_get_device_def block_rep_def)
  ultimately show "block_rep (register_block s d) (d # ds)"
    using r block_register_result [OF r, of d] by (auto simp: register_block_def block_admit_def block_rep_def)
qed

text \<open>
  The states reached from \<^verbatim>\<open>block_init\<close> by registering and removing any devices, whether they are registered
  or not; the devices themselves are not changed.
\<close>

inductive block_reach :: "block_state \<Rightarrow> block_state \<Rightarrow> bool" for s0 where
  init: "block_reach s0 (block_init s0)"
| register: "block_reach s0 s \<Longrightarrow> block_register_device s dev = Some (s', r) \<Longrightarrow> block_reach s0 s'"
| unregister: "block_reach s0 s \<Longrightarrow> block_unregister_device s dev = Some (s', r) \<Longrightarrow> block_reach s0 s'"

lemma block_reach_rep: "block_reach s0 s \<Longrightarrow> \<exists>ds. block_rep s ds \<and> bd_at s = bd_at s0"
proof (induction rule: block_reach.induct)
  case init
  then show ?case by (intro exI [of _ "[]"]) (simp add: block_rep_def block_init_def)
next
  case (register s dev s' r)
  then obtain ds where ds: "block_rep s ds" "bd_at s = bd_at s0" by blast
  show ?case
  proof (cases dev)
    case None
    then show ?thesis using register ds by (auto simp: block_register_device_def)
  next
    case (Some d)
    have "d \<notin> set ds" if "\<forall>e\<in>set ds. bd_name (bd_at s e) \<noteq> bd_name (bd_at s d)" using that by auto
    then have "block_rep s' ds \<or> block_rep s' (d # ds)" "bd_at s' = bd_at s"
      using register.hyps(2) ds(1) block_register_result [OF ds(1), of d] Some by (auto simp: block_rep_def split: if_splits)
    then show ?thesis using ds(2) by auto
  qed
next
  case (unregister s dev s' r)
  then obtain ds where ds: "block_rep s ds" "bd_at s = bd_at s0" by blast
  show ?case
  proof (cases dev)
    case None
    then show ?thesis using unregister.hyps(2) ds by (auto simp: block_unregister_device_def)
  next
    case (Some d)
    then show ?thesis using unregister.hyps(2) block_unregister_result [OF ds(1), of d] ds(2) by auto
  qed
qed

text \<open>
  C17. The list of block devices is sound. After any sequence of registrations and removals of any devices,
  repeated ones included, the chain is finite and its devices have different names; a lookup always returns
  and finds exactly the registered device of that name; a registration succeeds exactly if the device has
  operations and its name is free, and removing it again restores the list. Removing any registered device,
  wherever it stands in the chain, succeeds and leaves the others in their order; removing any other device
  fails and changes nothing.
\<close>

theorem block_registry_sound:
  assumes "block_reach s0 s"
  shows "\<exists>ds. node_path (bd_next s) (block_devices s) ds \<and> distinct (map (\<lambda>d. bd_name (bd_at s0 d)) ds) \<and>
    (\<forall>name. block_get_device s (Some name) = Some (find (\<lambda>d. bd_name (bd_at s0 d) = name) ds)) \<and>
    (\<forall>d. if bd_ops (bd_at s0 d) = None \<or> (\<exists>e\<in>set ds. bd_name (bd_at s0 e) = bd_name (bd_at s0 d))
         then block_register_device s (Some d) = Some (s, -1)
         else \<exists>s1 s2. block_register_device s (Some d) = Some (s1, 0) \<and> node_path (bd_next s1) (block_devices s1) (d # ds) \<and>
           block_unregister_device s1 (Some d) = Some (s2, 0) \<and> node_path (bd_next s2) (block_devices s2) ds) \<and>
    (\<forall>d. if d \<in> set ds
         then \<exists>s2. block_unregister_device s (Some d) = Some (s2, 0) \<and> node_path (bd_next s2) (block_devices s2) (remove1 d ds)
         else block_unregister_device s (Some d) = Some (s, -1))"
proof -
  obtain ds where ds: "block_rep s ds" "bd_at s = bd_at s0" using block_reach_rep [OF assms] by blast
  have free: "\<exists>s1 s2. block_register_device s (Some d) = Some (s1, 0) \<and> node_path (bd_next s1) (block_devices s1) (d # ds) \<and>
      block_unregister_device s1 (Some d) = Some (s2, 0) \<and> node_path (bd_next s2) (block_devices s2) ds"
    if d: "bd_ops (bd_at s0 d) \<noteq> None" "\<not> (\<exists>e\<in>set ds. bd_name (bd_at s0 e) = bd_name (bd_at s0 d))" for d
  proof -
    let ?s1 = "s\<lparr>bd_next := (bd_next s)(d := block_devices s), block_devices := Some d\<rparr>"
    have "block_register_device s (Some d) = Some (?s1, 0)" using block_register_result [OF ds(1), of d] d ds(2) by simp
    moreover have r: "block_rep ?s1 (d # ds)" using ds d by (auto simp: block_rep_def)
    ultimately show ?thesis using block_unregister_result [OF r, of d] by (auto simp: block_rep_def)
  qed
  have gone: "if d \<in> set ds
      then \<exists>s2. block_unregister_device s (Some d) = Some (s2, 0) \<and> node_path (bd_next s2) (block_devices s2) (remove1 d ds)
      else block_unregister_device s (Some d) = Some (s, -1)" for d
    using block_unregister_result [OF ds(1), of d] block_unregister_unlink [of s ds d] ds(1) block_rep_distinct [OF ds(1)]
    by (auto simp: block_rep_def)
  show ?thesis
    using ds free gone find_name_path [of s "block_devices s" ds] block_register_result [OF ds(1)]
    by (intro exI [of _ ds]) (auto simp: block_rep_def block_get_device_def)
qed

definition disk_ops :: block_device_ops where
  "disk_ops = \<lparr>bops_read = Some (\<lambda>_ _ _ _. 0), bops_write = Some (\<lambda>_ _ count _. uint count), bops_ioctl = None, bops_flush = None\<rparr>"

definition two_disks :: block_state where
  "two_disks = \<lparr>bd_at = \<lambda>d. \<lparr>bd_name = (if d = 1 then ''hda'' else ''hdb''), bd_sector_count = 100, bd_ops = Some disk_ops\<rparr>,
     bd_next = \<lambda>_. None, block_devices = None\<rparr>"

definition both_disks :: block_state where
  "both_disks = two_disks\<lparr>bd_next := (\<lambda>_. None)(2 := Some 1), block_devices := Some 2\<rparr>"

lemma both_disks_reach: "block_reach two_disks both_disks"
proof -
  let ?s1 = "two_disks\<lparr>bd_next := (\<lambda>_. None)(1 := None), block_devices := Some 1\<rparr>"
  have "block_register_device (block_init two_disks) (Some 1) = Some (?s1, 0)"
    by (simp add: block_register_device_def block_init_def two_disks_def find_name.simps disk_ops_def)
  then have "block_reach two_disks ?s1" by (rule block_reach.register [OF block_reach.init])
  moreover have "block_register_device ?s1 (Some 2) = Some (both_disks, 0)"
    by (simp add: block_register_device_def both_disks_def two_disks_def find_name.simps disk_ops_def)
  ultimately show ?thesis by (rule block_reach.register)
qed

text \<open>With two disks registered, the second of the chain is removed and the first stays.\<close>

theorem block_registry_sound_witness:
  "block_get_device both_disks (Some ''hda'') = Some (Some 1) \<and> block_register_device both_disks (Some 1) = Some (both_disks, -1) \<and>
   (\<exists>s2. block_unregister_device both_disks (Some 1) = Some (s2, 0) \<and> node_path (bd_next s2) (block_devices s2) [2])"
proof -
  from block_registry_sound [OF both_disks_reach] obtain ds where
    ds: "node_path (bd_next both_disks) (block_devices both_disks) ds"
      "\<forall>name. block_get_device both_disks (Some name) = Some (find (\<lambda>d. bd_name (bd_at two_disks d) = name) ds)"
      "\<forall>d. bd_ops (bd_at two_disks d) = None \<or> (\<exists>e\<in>set ds. bd_name (bd_at two_disks e) = bd_name (bd_at two_disks d)) \<longrightarrow>
        block_register_device both_disks (Some d) = Some (both_disks, -1)"
      "\<forall>d\<in>set ds. \<exists>s2. block_unregister_device both_disks (Some d) = Some (s2, 0) \<and>
        node_path (bd_next s2) (block_devices s2) (remove1 d ds)" by metis
  have "node_path (bd_next both_disks) (block_devices both_disks) [2, 1]" by (simp add: both_disks_def two_disks_def)
  with ds(1) have "ds = [2, 1]" by (rule node_path_unique)
  with ds(2-4) show ?thesis by (auto simp: two_disks_def)
qed

text \<open>
  C18. A read and a write reach the driver exactly if their sectors lie inside the device, for every device of
  at most \<open>2 ^ 64 - 2 ^ 32\<close> sectors; anything else returns \<^verbatim>\<open>-1\<close>. On the largest possible device the
  sum of the check wraps around, and a read and a write beyond its end are passed to the driver.
\<close>

theorem block_transfer_range:
  assumes "bd_ops (bd_at s d) = Some ops" and "bops_read ops = Some read" and "bops_write ops = Some wr"
    and "unat (bd_sector_count (bd_at s d)) \<le> 2 ^ 64 - 2 ^ 32"
    and "s' = s\<lparr>bd_at := (bd_at s)(d := (bd_at s d)\<lparr>bd_sector_count := 0xFFFFFFFFFFFFFFFF\<rparr>)\<rparr>"
  shows "block_read s (Some d) sector count (Some buf) =
      (if count \<noteq> 0 \<and> unat sector + unat count \<le> unat (bd_sector_count (bd_at s d)) then read d sector count buf else -1) \<and>
    block_write s (Some d) sector count (Some buf) =
      (if count \<noteq> 0 \<and> unat sector + unat count \<le> unat (bd_sector_count (bd_at s d)) then wr d sector count buf else -1) \<and>
    block_read s' (Some d) 0xFFFFFFFFFFFFFFFE 4 (Some buf) = read d 0xFFFFFFFFFFFFFFFE 4 buf \<and>
    block_write s' (Some d) 0xFFFFFFFFFFFFFFFE 4 (Some buf) = wr d 0xFFFFFFFFFFFFFFFE 4 buf"
proof -
  let ?n = "bd_sector_count (bd_at s d)"
  have c: "unat count < 2 ^ 32" using unsigned_less [where 'a = nat and w = count] by simp
  have u: "unat (ucast count :: u64) = unat count" using c by (simp add: unsigned_ucast_eq take_bit_nat_eq_self)
  have "unat (sector + ucast count) = unat sector + unat count" if "sector < ?n"
    using that assms(4) c by (simp add: unat_word_ariths u word_less_nat_alt)
  moreover have "0 < unat count" if "count \<noteq> 0" using that by (simp add: unat_gt_0)
  ultimately have "sectors_ok (bd_at s d) sector count \<longleftrightarrow> count \<noteq> 0 \<and> unat sector + unat count \<le> unat ?n"
    by (auto simp: sectors_ok_def word_less_nat_alt word_le_nat_alt not_le)
  moreover have "sectors_ok (bd_at s' d) 0xFFFFFFFFFFFFFFFE 4" by (simp add: assms(5) sectors_ok_def)
  moreover have "bd_ops (bd_at s' d) = Some ops" using assms(1,5) by simp
  ultimately show ?thesis using assms(1-3) by (simp add: block_read_def block_write_def)
qed

theorem block_transfer_range_witness:
  "block_read two_disks (Some 1) 99 1 (Some 0) = 0 \<and> block_read two_disks (Some 1) 99 2 (Some 0) = -1 \<and>
   block_write two_disks (Some 1) 90 10 (Some 0) = 10 \<and> block_write two_disks (Some 1) 91 10 (Some 0) = -1"
proof -
  note r = block_transfer_range [of two_disks 1 disk_ops, OF _ _ _ _ refl, of "\<lambda>_ _ _ _. 0" "\<lambda>_ _ count _. uint count"]
  show ?thesis
    using r [of 99 1 0] r [of 99 2 0] r [of 90 10 0] r [of 91 10 0] by (simp add: two_disks_def disk_ops_def)
qed

end
