(* ===== verification/Fs_Mount.thy ===== *)
theory Fs_Mount
  imports Horizon_Prelude
begin

text \<open>
  File system types and mount points, the first part of \<^verbatim>\<open>kernel/fs/fs.c\<close>. The table of mount points is the whole
  array of 32 entries with its count, because entries behind the count keep their old contents and are
  filled only in part when they are used again. The functions of a file system type map their arguments to
  the value returned, if they return; they are called with the lock of this file held, so one that takes the
  lock itself, as those of \<^verbatim>\<open>ext2.c\<close> do on success, does not. A root inode is an object at an address; freeing an address that is not allocated and
  calling through a null pointer have no result. The names are C strings, cut to the length of their field.

  The claims are that the mounted directories stay distinct and are found by the lookup, that unmounting
  undoes mounting, and that an entry used again has the superblock and the freed inode of its old contents.
\<close>

section \<open>State\<close>

record fs_type =
  ft_name :: string
  ft_mount :: "string \<Rightarrow> string \<Rightarrow> u32 \<Rightarrow> int option"
  ft_unmount :: "string \<Rightarrow> int option"

record mount_point =
  mp_dev :: string
  mp_dir :: string
  mp_fs :: "nat option"
  mp_flags :: u32
  mp_super :: "nat option"
  mp_root :: "nat option"

record root_inode =
  ri_inode_num :: u32
  ri_directory :: bool
  ri_permissions :: u32
  ri_size :: u64
  ri_blocks :: u32
  ri_links :: u32

record fs_state =
  fs_types :: "fs_type list"
  mounts :: "mount_point list"
  mount_count :: nat
  inodes :: "nat \<Rightarrow> root_inode option"

definition MAX_FS_TYPES :: nat where "MAX_FS_TYPES = 16"
definition MAX_MOUNTS :: nat where "MAX_MOUNTS = 32"
definition ENODEV :: int where "ENODEV = 19"
definition EBUSY_FS :: int where "EBUSY_FS = 16"

definition empty_mount :: mount_point where
  "empty_mount = \<lparr>mp_dev = '''', mp_dir = '''', mp_fs = None, mp_flags = 0, mp_super = None, mp_root = None\<rparr>"

section \<open>File system types\<close>

fun find_type :: "fs_type list \<Rightarrow> nat \<Rightarrow> string \<Rightarrow> nat option" where
  "find_type [] i name = None"
| "find_type (t # ts) i name = (if ft_name t = name then Some i else find_type ts (Suc i) name)"

definition fs_find_by_name :: "fs_state \<Rightarrow> string option \<Rightarrow> nat option" where
  "fs_find_by_name s name = (case name of None \<Rightarrow> None | Some n \<Rightarrow> find_type (fs_types s) 0 n)"

definition fs_find :: "fs_state \<Rightarrow> string option \<Rightarrow> nat option" where
  "fs_find s name = (case name of None \<Rightarrow> None | Some n \<Rightarrow> find_type (fs_types s) 0 n)"

definition fs_register :: "fs_state \<Rightarrow> string option \<Rightarrow> (string \<Rightarrow> string \<Rightarrow> u32 \<Rightarrow> int option) option \<Rightarrow> (string \<Rightarrow> int option) option \<Rightarrow> fs_state \<times> int" where
  "fs_register s name mount unmount =
     (case (name, mount, unmount) of
        (Some n, Some m, Some u) \<Rightarrow>
          if find_type (fs_types s) 0 n \<noteq> None then (s, - EEXIST)
          else if length (fs_types s) \<ge> MAX_FS_TYPES then (s, - ENOMEM)
          else (s\<lparr>fs_types := fs_types s @ [\<lparr>ft_name = take 31 n, ft_mount = m, ft_unmount = u\<rparr>]\<rparr>, 0)
      | _ \<Rightarrow> (s, - EINVAL))"

text \<open>\<open>ext2_mount\<close> and \<open>ext2_unmount\<close> are the two functions that \<^verbatim>\<open>ext2.c\<close> registers.\<close>

definition ext2_init :: "fs_state \<Rightarrow> (string \<Rightarrow> string \<Rightarrow> u32 \<Rightarrow> int option) \<Rightarrow> (string \<Rightarrow> int option) \<Rightarrow> fs_state \<times> int" where
  "ext2_init s ext2_mount ext2_unmount =
     (case fs_register s (Some ''ext2'') (Some ext2_mount) (Some ext2_unmount) of
        (s1, ret) \<Rightarrow> if ret < 0 then (s1, ret) else (s1, 0))"

definition fs_init :: "fs_state \<Rightarrow> (string \<Rightarrow> string \<Rightarrow> u32 \<Rightarrow> int option) \<Rightarrow> (string \<Rightarrow> int option) \<Rightarrow> fs_state" where
  "fs_init s ext2_mount ext2_unmount =
     fst (ext2_init (s\<lparr>fs_types := [], mounts := replicate MAX_MOUNTS empty_mount, mount_count := 0\<rparr>) ext2_mount ext2_unmount)"

section \<open>Mount points\<close>

text \<open>The index of the first mount point of a directory, from the \<open>i\<close>-th on with \<open>n\<close> left.\<close>

fun find_dir :: "mount_point list \<Rightarrow> nat \<Rightarrow> nat \<Rightarrow> string \<Rightarrow> nat option" where
  "find_dir ms i 0 dir = None"
| "find_dir ms i (Suc n) dir = (if mp_dir (ms ! i) = dir then Some i else find_dir ms (Suc i) n dir)"

definition mount_find_by_dir :: "fs_state \<Rightarrow> string option \<Rightarrow> nat option" where
  "mount_find_by_dir s dir = (case dir of None \<Rightarrow> None | Some d \<Rightarrow> find_dir (mounts s) 0 (mount_count s) d)"

definition fs_mount :: "fs_state \<Rightarrow> string option \<Rightarrow> string option \<Rightarrow> string option \<Rightarrow> u32 \<Rightarrow> (fs_state \<times> int) option" where
  "fs_mount s dev dir fs_name flags =
     (case (dev, dir, fs_name) of
        (Some d, Some p, Some n) \<Rightarrow>
          (case fs_find_by_name s fs_name of
             None \<Rightarrow> Some (s, - ENODEV)
           | Some fs \<Rightarrow>
               if mount_find_by_dir s dir \<noteq> None then Some (s, - EBUSY_FS)
               else if mount_count s \<ge> MAX_MOUNTS then Some (s, - ENOMEM)
               else Option.bind (ft_mount (fs_types s ! fs) d p flags) (\<lambda>ret.
                 if ret < 0 then Some (s, ret)
                 else let c = mount_count s
                      in Some (s\<lparr>mounts := (mounts s)[c := (mounts s ! c)\<lparr>mp_dev := take 63 d, mp_dir := take 255 p, mp_fs := Some fs, mp_flags := flags\<rparr>],
                                 mount_count := c + 1\<rparr>, 0)))
      | _ \<Rightarrow> Some (s, - EINVAL))"

definition new_root :: root_inode where
  "new_root = \<lparr>ri_inode_num = 2, ri_directory = True, ri_permissions = 493, ri_size = 4096, ri_blocks = 8, ri_links = 1\<rparr>"

text \<open>\<open>alloc\<close> is the address of the new inode, if any.\<close>

definition fs_mount_super :: "fs_state \<Rightarrow> nat option \<Rightarrow> string option \<Rightarrow> nat option \<Rightarrow> fs_state \<times> int" where
  "fs_mount_super s alloc dir super =
     (case (dir, super) of
        (Some p, Some sb) \<Rightarrow>
          if mount_find_by_dir s dir \<noteq> None then (s, - EBUSY_FS)
          else if mount_count s \<ge> MAX_MOUNTS then (s, - ENOMEM)
          else (case alloc of
                  None \<Rightarrow> (s, - ENOMEM)
                | Some a \<Rightarrow>
                    let c = mount_count s
                    in (s\<lparr>inodes := (inodes s)(a \<mapsto> new_root),
                          mounts := (mounts s)[c := (mounts s ! c)\<lparr>mp_dir := take 255 p, mp_super := Some sb, mp_root := Some a\<rparr>],
                          mount_count := c + 1\<rparr>, 0))
      | _ \<Rightarrow> (s, - EINVAL))"

text \<open>The loop that moves the entries from \<open>j\<close> on one place down, \<open>n\<close> of them.\<close>

fun shift_mounts :: "mount_point list \<Rightarrow> nat \<Rightarrow> nat \<Rightarrow> mount_point list" where
  "shift_mounts ms j 0 = ms"
| "shift_mounts ms j (Suc n) = shift_mounts (ms[j := ms ! Suc j]) (Suc j) n"

definition remove_mount :: "fs_state \<Rightarrow> nat \<Rightarrow> fs_state" where
  "remove_mount s i = s\<lparr>mounts := shift_mounts (mounts s) i (mount_count s - 1 - i), mount_count := mount_count s - 1\<rparr>"

text \<open>Freeing the root inode of a mount point, if it has one.\<close>

definition free_root :: "fs_state \<Rightarrow> nat option \<Rightarrow> fs_state option" where
  "free_root s root =
     (case root of
        None \<Rightarrow> Some s
      | Some a \<Rightarrow> if inodes s a = None then None else Some (s\<lparr>inodes := (inodes s)(a := None)\<rparr>))"

definition fs_unmount_super :: "fs_state \<Rightarrow> string option \<Rightarrow> (fs_state \<times> int) option" where
  "fs_unmount_super s dir =
     (case dir of
        None \<Rightarrow> Some (s, - EINVAL)
      | Some p \<Rightarrow>
          (case mount_find_by_dir s dir of
             None \<Rightarrow> Some (s, - EINVAL)
           | Some i \<Rightarrow> Option.bind (free_root s (mp_root (mounts s ! i))) (\<lambda>s1. Some (remove_mount s1 i, 0))))"

definition fs_get_super :: "fs_state \<Rightarrow> string option \<Rightarrow> nat option" where
  "fs_get_super s dir =
     (case dir of
        None \<Rightarrow> None
      | Some p \<Rightarrow> (case mount_find_by_dir s dir of None \<Rightarrow> None | Some i \<Rightarrow> mp_super (mounts s ! i)))"

definition fs_lookup :: "string option \<Rightarrow> nat option" where
  "fs_lookup path = (if path = None then None else None)"

definition fs_unmount :: "fs_state \<Rightarrow> string option \<Rightarrow> (fs_state \<times> int) option" where
  "fs_unmount s dir =
     (case dir of
        None \<Rightarrow> Some (s, - EINVAL)
      | Some p \<Rightarrow>
          (case mount_find_by_dir s dir of
             None \<Rightarrow> Some (s, - EINVAL)
           | Some i \<Rightarrow>
               Option.bind (mp_fs (mounts s ! i)) (\<lambda>fs.
                 Option.bind (ft_unmount (fs_types s ! fs) p) (\<lambda>ret.
                   if ret < 0 then Some (s, ret) else Some (remove_mount s i, 0)))))"

section \<open>The mounted directories\<close>

definition active :: "fs_state \<Rightarrow> mount_point list" where
  "active s = take (mount_count s) (mounts s)"

definition mount_inv :: "fs_state \<Rightarrow> bool" where
  "mount_inv s \<longleftrightarrow> length (mounts s) = 32 \<and> mount_count s \<le> 32 \<and> distinct (map mp_dir (active s))"

lemma active_length [simp]: "mount_inv s \<Longrightarrow> length (active s) = mount_count s"
  by (simp add: mount_inv_def active_def)

lemma find_dir_result:
  assumes "i + n \<le> length ms"
  shows "case find_dir ms i n d of
      None \<Rightarrow> \<forall>k. i \<le> k \<and> k < i + n \<longrightarrow> mp_dir (ms ! k) \<noteq> d
    | Some k \<Rightarrow> i \<le> k \<and> k < i + n \<and> mp_dir (ms ! k) = d \<and> (\<forall>l. i \<le> l \<and> l < k \<longrightarrow> mp_dir (ms ! l) \<noteq> d)"
  using assms
proof (induction n arbitrary: i)
  case (Suc n)
  show ?case
  proof (cases "mp_dir (ms ! i) = d")
    case False
    have s: "i \<le> k \<longleftrightarrow> k = i \<or> Suc i \<le> k" for k by auto
    from False Suc.IH [of "Suc i"] Suc.prems show ?thesis by (auto simp: s split: option.splits)
  qed auto
qed auto

lemma shift_mounts_length [simp]: "length (shift_mounts ms j n) = length ms"
  by (induction ms j n rule: shift_mounts.induct) simp_all

lemma shift_mounts_nth:
  "j + n < length ms \<Longrightarrow> k < length ms \<Longrightarrow> shift_mounts ms j n ! k = (if j \<le> k \<and> k < j + n then ms ! Suc k else ms ! k)"
proof (induction ms j n rule: shift_mounts.induct)
  case (2 ms j n)
  then show ?case by (auto simp: nth_list_update)
qed auto

lemma remove_mount_active:
  assumes "mount_inv s" and "i < mount_count s"
  shows "active (remove_mount s i) = take i (active s) @ drop (Suc i) (active s)"
proof (rule nth_equalityI)
  have l: "length (mounts s) = 32" "mount_count s \<le> 32" using assms(1) by (simp_all add: mount_inv_def)
  show len: "length (active (remove_mount s i)) = length (take i (active s) @ drop (Suc i) (active s))"
    using l assms(2) by (simp add: active_def remove_mount_def)
  fix k assume "k < length (active (remove_mount s i))"
  then have k: "k < mount_count s - 1" using l by (simp add: active_def remove_mount_def)
  then show "active (remove_mount s i) ! k = (take i (active s) @ drop (Suc i) (active s)) ! k"
    using l assms(2) shift_mounts_nth [of i "mount_count s - 1 - i" "mounts s" k]
    by (auto simp: active_def remove_mount_def nth_append)
qed

lemma remove_mount_inv:
  assumes "mount_inv s" and "i < mount_count s"
  shows "mount_inv (remove_mount s i)"
proof -
  have "distinct (map mp_dir (active s))" using assms(1) by (simp add: mount_inv_def)
  then have "distinct (map mp_dir (take i (active s) @ drop (Suc i) (active s)))"
    using set_take_disj_set_drop_if_distinct [of "map mp_dir (active s)" i "Suc i"]
    by (simp add: take_map [symmetric] drop_map [symmetric])
  then show ?thesis using assms remove_mount_active [OF assms] unfolding mount_inv_def by (auto simp: remove_mount_def)
qed

lemma mount_find_result:
  assumes "mount_inv s"
  shows "mount_find_by_dir s (Some p) = Some i \<longleftrightarrow> i < mount_count s \<and> mp_dir (active s ! i) = p"
    and "mount_find_by_dir s (Some p) = None \<longleftrightarrow> p \<notin> set (map mp_dir (active s))"
proof -
  have l: "mount_count s \<le> length (mounts s)" and d: "distinct (map mp_dir (active s))" using assms by (simp_all add: mount_inv_def)
  have n: "mounts s ! k = active s ! k" if "k < mount_count s" for k using that by (simp add: active_def)
  have f: "case mount_find_by_dir s (Some p) of None \<Rightarrow> \<forall>k<mount_count s. mp_dir (active s ! k) \<noteq> p
      | Some k \<Rightarrow> k < mount_count s \<and> mp_dir (active s ! k) = p"
    using find_dir_result [of 0 "mount_count s" "mounts s" p] l by (auto simp: mount_find_by_dir_def n split: option.splits)
  have u: "i = k" if "i < mount_count s" "k < mount_count s" "mp_dir (active s ! i) = mp_dir (active s ! k)" for i k
    using that d nth_eq_iff_index_eq [OF d, of i k] assms by simp
  show "mount_find_by_dir s (Some p) = Some i \<longleftrightarrow> i < mount_count s \<and> mp_dir (active s ! i) = p"
    using f u by (cases "mount_find_by_dir s (Some p)") auto
  have "p \<in> set (map mp_dir (active s)) \<longleftrightarrow> (\<exists>k<mount_count s. mp_dir (active s ! k) = p)"
    unfolding in_set_conv_nth length_map active_length [OF assms] using active_length [OF assms] by (auto simp: nth_map)
  then show "mount_find_by_dir s (Some p) = None \<longleftrightarrow> p \<notin> set (map mp_dir (active s))"
    using f by (cases "mount_find_by_dir s (Some p)") auto
qed

text \<open>Filling the entry behind the last one.\<close>

lemma active_append:
  assumes "mount_inv s" and "mount_count s < 32"
  shows "active (s\<lparr>inodes := h, mounts := (mounts s)[mount_count s := m], mount_count := mount_count s + 1\<rparr>) = active s @ [m]"
  using assms by (simp add: active_def mount_inv_def take_Suc_conv_app_nth)

lemma append_inv:
  assumes "mount_inv s" and "mount_count s < 32" and "mp_dir m \<notin> set (map mp_dir (active s))"
  shows "mount_inv (s\<lparr>inodes := h, mounts := (mounts s)[mount_count s := m], mount_count := mount_count s + 1\<rparr>)"
  using assms active_append [OF assms(1,2), of m h] unfolding mount_inv_def by auto

lemma find_appended:
  assumes "mount_inv s" and "mount_count s < 32" and "p \<notin> set (map mp_dir (active s))" and "mp_dir m = p"
    and "s1 = s\<lparr>inodes := h, mounts := (mounts s)[mount_count s := m], mount_count := mount_count s + 1\<rparr>"
  shows "mount_inv s1" and "active s1 = active s @ [m]" and "mount_find_by_dir s1 (Some p) = Some (mount_count s)"
proof -
  show i: "mount_inv s1" unfolding assms(5) using append_inv [OF assms(1,2)] assms(3,4) by simp
  show a: "active s1 = active s @ [m]" unfolding assms(5) by (rule active_append [OF assms(1,2)])
  have "active s1 ! mount_count s = m" unfolding a using active_length [OF assms(1)] by (simp add: nth_append)
  moreover have "mount_count s < mount_count s1" unfolding assms(5) by simp
  ultimately show "mount_find_by_dir s1 (Some p) = Some (mount_count s)"
    using mount_find_result(1) [OF i] assms(4) by simp
qed

text \<open>The file system types that mount points refer to are there.\<close>

definition types_inv :: "fs_state \<Rightarrow> bool" where
  "types_inv s \<longleftrightarrow> length (fs_types s) \<le> 16 \<and> (\<forall>m\<in>set (mounts s). \<forall>f. mp_fs m = Some f \<longrightarrow> f < length (fs_types s))"

lemma find_type_less: "find_type ts i n = Some k \<Longrightarrow> k < i + length ts"
  by (induction ts arbitrary: i) (auto split: if_splits, fastforce)

lemma set_shift_mounts: "j + n < length ms \<Longrightarrow> set (shift_mounts ms j n) \<subseteq> set ms"
proof (induction ms j n rule: shift_mounts.induct)
  case (2 ms j n)
  have "set (ms[j := ms ! Suc j]) \<subseteq> set ms" using 2 set_update_subset_insert [of ms j "ms ! Suc j"] by auto
  then show ?case using 2 by (simp add: subset_trans [of _ "set (ms[j := ms ! Suc j])"])
qed simp

lemma remove_mount_types:
  assumes "mount_inv s" and "types_inv s" and "i < mount_count s"
  shows "types_inv (remove_mount s i)"
proof -
  have "set (shift_mounts (mounts s) i (mount_count s - 1 - i)) \<subseteq> set (mounts s)"
    using assms(1,3) by (intro set_shift_mounts) (auto simp: mount_inv_def)
  then show ?thesis using assms(2) unfolding types_inv_def remove_mount_def by auto
qed

section \<open>Runs\<close>

text \<open>
  The states after \<^verbatim>\<open>fs_init\<close> and any sequence of operations in which no directory name is longer than the 255
  characters of its field.
\<close>

inductive fs_run :: "fs_state \<Rightarrow> bool" where
  init: "fs_run (fs_init s0 ext2_mount ext2_unmount)"
| register: "fs_run s \<Longrightarrow> fs_run (fst (fs_register s name m u))"
| mount: "fs_run s \<Longrightarrow> length p \<le> 255 \<Longrightarrow> fs_mount s dev (Some p) name flags = Some (s', r) \<Longrightarrow> fs_run s'"
| mount_super: "fs_run s \<Longrightarrow> length p \<le> 255 \<Longrightarrow> fs_run (fst (fs_mount_super s alloc (Some p) super))"
| unmount: "fs_run s \<Longrightarrow> fs_unmount s dir = Some (s', r) \<Longrightarrow> fs_run s'"
| unmount_super: "fs_run s \<Longrightarrow> fs_unmount_super s dir = Some (s', r) \<Longrightarrow> fs_run s'"

lemma fs_mount_cases:
  assumes "mount_inv s" and "length p \<le> 255" and "fs_mount s dev (Some p) name flags = Some (s', r)"
  obtains "s' = s"
  | d f where "p \<notin> set (map mp_dir (active s))" "mount_count s < 32" "f < length (fs_types s)"
      "s' = s\<lparr>mounts := (mounts s)[mount_count s := (mounts s ! mount_count s)\<lparr>mp_dev := d, mp_dir := p, mp_fs := Some f, mp_flags := flags\<rparr>],
           mount_count := mount_count s + 1\<rparr>"
proof (cases "s' = s")
  case False
  with assms(3) obtain d n f where m: "fs_find_by_name s (Some n) = Some f" "mount_find_by_dir s (Some p) = None"
      "mount_count s < 32" "s' = s\<lparr>mounts := (mounts s)[mount_count s := (mounts s ! mount_count s)\<lparr>mp_dev := take 63 d, mp_dir := take 255 p, mp_fs := Some f, mp_flags := flags\<rparr>],
           mount_count := mount_count s + 1\<rparr>"
    by (cases dev; cases name) (auto simp: fs_mount_def MAX_MOUNTS_def Let_def bind_Some_iff not_le split: option.splits if_splits)
  have "f < length (fs_types s)" using m(1) find_type_less [of "fs_types s" 0 n f] by (simp add: fs_find_by_name_def)
  then show thesis using that(2) [of f "take 63 d"] m mount_find_result(2) [OF assms(1)] assms(2) by simp
qed (rule that(1))

lemma set_upd_types:
  assumes "types_inv s" and "c < length (mounts s)" and "mp_fs m = mp_fs (mounts s ! c) \<or> (\<exists>f. mp_fs m = Some f \<and> f < length (fs_types s))"
  shows "types_inv (s\<lparr>inodes := h, mounts := (mounts s)[c := m], mount_count := n\<rparr>)"
proof -
  have "\<forall>f. mp_fs m = Some f \<longrightarrow> f < length (fs_types s)" using assms nth_mem [OF assms(2)] unfolding types_inv_def by (metis option.inject)
  moreover have "x = m \<or> x \<in> set (mounts s)" if "x \<in> set ((mounts s)[c := m])" for x
    using that set_update_subset_insert [of "mounts s" c m] by blast
  ultimately show ?thesis using assms(1) unfolding types_inv_def by auto
qed

lemma fs_init_fields:
  "fs_types (fs_init s m u) = [\<lparr>ft_name = ''ext2'', ft_mount = m, ft_unmount = u\<rparr>]" "mounts (fs_init s m u) = replicate 32 empty_mount"
  "mount_count (fs_init s m u) = 0" "inodes (fs_init s m u) = inodes s"
  by (simp_all add: fs_init_def ext2_init_def fs_register_def MAX_FS_TYPES_def MAX_MOUNTS_def)

lemma fs_run_inv: "fs_run s \<Longrightarrow> mount_inv s \<and> types_inv s"
proof (induction rule: fs_run.induct)
  case (init s0 ext2_mount ext2_unmount)
  then show ?case by (simp add: mount_inv_def types_inv_def fs_init_fields active_def empty_mount_def)
next
  case (register s name m u)
  have "fst (fs_register s name m u) = s \<or> length (fs_types s) < 16 \<and> (\<exists>t. fst (fs_register s name m u) = s\<lparr>fs_types := fs_types s @ [t]\<rparr>)"
    by (auto simp: fs_register_def MAX_FS_TYPES_def split: option.splits)
  then show ?case using register.IH by (auto simp: mount_inv_def types_inv_def active_def less_SucI)
next
  case (mount s p dev name flags s' r)
  have i: "mount_inv s" "types_inv s" using mount.IH by simp_all
  show ?case
  proof (rule fs_mount_cases [OF i(1) mount.hyps(2,3)])
    fix d f assume p: "p \<notin> set (map mp_dir (active s))" "mount_count s < 32" "f < length (fs_types s)"
      and m: "s' = s\<lparr>mounts := (mounts s)[mount_count s := (mounts s ! mount_count s)\<lparr>mp_dev := d, mp_dir := p, mp_fs := Some f, mp_flags := flags\<rparr>],
           mount_count := mount_count s + 1\<rparr>"
    let ?m = "(mounts s ! mount_count s)\<lparr>mp_dev := d, mp_dir := p, mp_fs := Some f, mp_flags := flags\<rparr>"
    have "mount_count s < length (mounts s)" using i(1) p(2) by (simp add: mount_inv_def)
    then show ?thesis
      using append_inv [OF i(1) p(2), where m = ?m and h = "inodes s"]
        set_upd_types [OF i(2), where c = "mount_count s" and m = ?m and h = "inodes s" and n = "mount_count s + 1"] p m by simp
  qed (use i in simp)
next
  case (mount_super s p alloc super)
  have i: "mount_inv s" "types_inv s" using mount_super.IH by simp_all
  show ?case
  proof (cases "fst (fs_mount_super s alloc (Some p) super) = s")
    case False
    then obtain a sb where p: "mount_find_by_dir s (Some p) = None" "mount_count s < 32"
        "fst (fs_mount_super s alloc (Some p) super) = s\<lparr>inodes := (inodes s)(a \<mapsto> new_root),
          mounts := (mounts s)[mount_count s := (mounts s ! mount_count s)\<lparr>mp_dir := p, mp_super := Some sb, mp_root := Some a\<rparr>],
          mount_count := mount_count s + 1\<rparr>"
      using mount_super.hyps(2) by (auto simp: fs_mount_super_def MAX_MOUNTS_def Let_def split: option.splits if_splits)
    let ?m = "(mounts s ! mount_count s)\<lparr>mp_dir := p, mp_super := Some sb, mp_root := Some a\<rparr>"
    have "mount_count s < length (mounts s)" using i(1) p(2) by (simp add: mount_inv_def)
    then show ?thesis
      using append_inv [OF i(1) p(2), where m = ?m] set_upd_types [OF i(2), where c = "mount_count s" and m = ?m] p(1,3) mount_find_result(2) [OF i(1)] by simp
  qed (use i in simp)
next
  case (unmount s dir s' r)
  have i: "mount_inv s" "types_inv s" using unmount.IH by simp_all
  have "s' = s \<or> (\<exists>k<mount_count s. s' = remove_mount s k)"
    using unmount.hyps(2) mount_find_result(1) [OF i(1)]
    by (auto simp: fs_unmount_def Let_def bind_Some_iff split: option.splits if_splits)
  then show ?case using i remove_mount_inv [OF i(1)] remove_mount_types [OF i] by blast
next
  case (unmount_super s dir s' r)
  have i: "mount_inv s" "types_inv s" using unmount_super.IH by simp_all
  show ?case
  proof (cases "s' = s")
    case False
    then obtain k s1 where k: "k < mount_count s" "free_root s (mp_root (mounts s ! k)) = Some s1" "s' = remove_mount s1 k"
      using unmount_super.hyps(2) mount_find_result(1) [OF i(1)]
      by (auto simp: fs_unmount_super_def bind_Some_iff split: option.splits)
    have "mount_inv s1" "types_inv s1" "mount_count s1 = mount_count s"
      using k(2) i by (auto simp: free_root_def mount_inv_def types_inv_def active_def split: option.splits if_splits)
    then show ?thesis using k(1,3) remove_mount_inv [of s1 k] remove_mount_types [of s1 k] by simp
  qed (use i in simp)
qed

section \<open>Claims\<close>


definition ram_state :: fs_state where
  "ram_state = fst (fs_register (fs_init \<lparr>fs_types = [], mounts = [], mount_count = 0, inodes = \<lambda>_. None\<rparr> (\<lambda>_ _ _. None) (\<lambda>_. None))
     (Some ''ram'') (Some (\<lambda>_ _ _. Some 0)) (Some (\<lambda>_. Some 0)))"

lemma ram_state_run: "fs_run ram_state"
  unfolding ram_state_def by (intro fs_run.register fs_run.init)

lemma ram_state_fields: "fs_types ram_state = [\<lparr>ft_name = ''ext2'', ft_mount = \<lambda>_ _ _. None, ft_unmount = \<lambda>_. None\<rparr>,
      \<lparr>ft_name = ''ram'', ft_mount = \<lambda>_ _ _. Some 0, ft_unmount = \<lambda>_. Some 0\<rparr>]"
    "mounts ram_state = replicate 32 empty_mount" "mount_count ram_state = 0" "inodes ram_state = (\<lambda>_. None)"
  by (simp_all add: ram_state_def fs_register_def fs_init_fields MAX_FS_TYPES_def)


text \<open>
  C20. Unmounting undoes mounting. When a type is registered, the name of the directory has at most 255
  characters and is not mounted, there is room, and the functions of the type succeed, mounting adds exactly one mount point with that directory and type;
  mounting there again is refused, and unmounting leaves the mount points that were there before.
\<close>

theorem mount_unmount_roundtrip:
  assumes "fs_run s" and "length p \<le> 255" and "fs_find_by_name s (Some n) = Some f" and "p \<notin> set (map mp_dir (active s))"
    and "mount_count s < 32" and "ft_mount (fs_types s ! f) d p flags = Some r" and "0 \<le> r" and "ft_unmount (fs_types s ! f) p = Some u" and "0 \<le> u"
  shows "\<exists>s1 m s2. fs_mount s (Some d) (Some p) (Some n) flags = Some (s1, 0) \<and> active s1 = active s @ [m] \<and> mp_dir m = p \<and> mp_fs m = Some f \<and>
    fs_mount s1 (Some d) (Some p) (Some n) flags = Some (s1, - EBUSY_FS) \<and>
    fs_unmount s1 (Some p) = Some (s2, 0) \<and> active s2 = active s \<and> fs_types s2 = fs_types s"
proof -
  have i: "mount_inv s" "types_inv s" using fs_run_inv [OF assms(1)] by simp_all
  have free: "mount_find_by_dir s (Some p) = None" using mount_find_result(2) [OF i(1)] assms(4) by simp
  define m where "m = (mounts s ! mount_count s)\<lparr>mp_dev := take 63 d, mp_dir := p, mp_fs := Some f, mp_flags := flags\<rparr>"
  define s1 where "s1 = s\<lparr>inodes := inodes s, mounts := (mounts s)[mount_count s := m], mount_count := mount_count s + 1\<rparr>"
  have mm: "mp_dir m = p" "mp_fs m = Some f" by (simp_all add: m_def)
  note f = find_appended [OF i(1) assms(5,4) mm(1) s1_def]
  have m: "fs_mount s (Some d) (Some p) (Some n) flags = Some (s1, 0)"
    using assms(2,3,5-7) free by (simp add: fs_mount_def MAX_MOUNTS_def Let_def s1_def m_def)
  have "mounts s1 ! mount_count s = m" using i(1) assms(5) by (simp add: s1_def mount_inv_def)
  then have u: "fs_unmount s1 (Some p) = Some (remove_mount s1 (mount_count s), 0)"
    using f(3) mm(2) assms(8,9) by (simp add: fs_unmount_def Let_def) (simp add: s1_def)
  have "active (remove_mount s1 (mount_count s)) = active s"
    using remove_mount_active [OF f(1), of "mount_count s"] f(2) active_length [OF i(1)] by (simp add: s1_def)
  moreover have "fs_mount s1 (Some d) (Some p) (Some n) flags = Some (s1, - EBUSY_FS)"
    using f(3) assms(3) by (simp add: fs_mount_def fs_find_by_name_def) (simp add: s1_def)
  moreover have "fs_types (remove_mount s1 (mount_count s)) = fs_types s" by (simp add: remove_mount_def s1_def)
  ultimately show ?thesis using m f(2) u mm by blast
qed

theorem mount_unmount_roundtrip_witness:
  "\<exists>s1 s2. fs_mount ram_state (Some ''hda'') (Some ''/mnt'') (Some ''ram'') 0 = Some (s1, 0) \<and> fs_unmount s1 (Some ''/mnt'') = Some (s2, 0) \<and> active s2 = []"
  using mount_unmount_roundtrip [OF ram_state_run, of "''/mnt''" "''ram''" 1 "''hda''" 0 0 0]
  by (auto simp: ram_state_fields fs_find_by_name_def active_def)

text \<open>
  Stale superblocks, a defect. The entry of an unmounted superblock keeps its pointers and \<^verbatim>\<open>fs_mount\<close> does
  not reset them: when the last entry was a superblock and another directory is then mounted with a
  file system type, \<^verbatim>\<open>fs_get_super\<close> returns the old superblock for it, and unmounting it as a superblock frees the
  old root inode a second time.
\<close>

theorem stale_superblock_reused:
  assumes "fs_run s" and "length p \<le> 255" and "length q \<le> 255" and "p \<notin> set (map mp_dir (active s))" and "q \<notin> set (map mp_dir (active s))"
    and "mount_count s < 32" and "fs_find_by_name s (Some n) = Some f" and "ft_mount (fs_types s ! f) d q flags = Some r" and "0 \<le> r"
  shows "\<exists>s1 s2 s3. fs_mount_super s (Some a) (Some p) (Some sb) = (s1, 0) \<and> fs_unmount_super s1 (Some p) = Some (s2, 0) \<and>
    fs_mount s2 (Some d) (Some q) (Some n) flags = Some (s3, 0) \<and> fs_get_super s3 (Some q) = Some sb \<and> fs_unmount_super s3 (Some q) = None"
proof -
  have i: "mount_inv s" using fs_run_inv [OF assms(1)] by simp
  let ?c = "mount_count s"
  define m where "m = (mounts s ! ?c)\<lparr>mp_dir := p, mp_super := Some sb, mp_root := Some a\<rparr>"
  define s1 where "s1 = s\<lparr>inodes := (inodes s)(a \<mapsto> new_root), mounts := (mounts s)[?c := m], mount_count := ?c + 1\<rparr>"
  define s2 where "s2 = s\<lparr>inodes := (inodes s)(a := None), mounts := (mounts s)[?c := m]\<rparr>"
  define k where "k = m\<lparr>mp_dev := take 63 d, mp_dir := q, mp_fs := Some f, mp_flags := flags\<rparr>"
  define s3 where "s3 = s2\<lparr>inodes := inodes s2, mounts := (mounts s2)[mount_count s2 := k], mount_count := mount_count s2 + 1\<rparr>"
  have len: "?c < length (mounts s)" using i assms(6) by (simp add: mount_inv_def)
  have "mp_dir m = p" by (simp add: m_def)
  note f1 = find_appended [OF i assms(6,4) this s1_def]
  have m1: "fs_mount_super s (Some a) (Some p) (Some sb) = (s1, 0)"
    using assms(2,4,6) mount_find_result(2) [OF i] by (simp add: fs_mount_super_def MAX_MOUNTS_def Let_def s1_def m_def)
  have m2: "fs_unmount_super s1 (Some p) = Some (s2, 0)"
    using len f1(3) by (simp add: fs_unmount_super_def) (simp add: s1_def s2_def m_def free_root_def remove_mount_def)
  have act: "active s2 = active s" "mount_count s2 = ?c" by (simp_all add: active_def s2_def)
  have i2: "mount_inv s2" using i act by (simp add: mount_inv_def) (simp add: s2_def)
  have q: "q \<notin> set (map mp_dir (active s2))" "mount_count s2 < 32" "mp_dir k = q" using assms(5,6) act by (simp_all add: k_def)
  note f3 = find_appended [OF i2 q(2,1,3) s3_def]
  have "fs_find_by_name s2 (Some n) = Some f" "fs_types s2 = fs_types s" "mounts s2 ! ?c = m"
    using assms(7) len by (simp_all add: s2_def fs_find_by_name_def)
  then have m3: "fs_mount s2 (Some d) (Some q) (Some n) flags = Some (s3, 0)"
    using assms(3,8,9) mount_find_result(2) [OF i2, of q] q act by (simp add: fs_mount_def MAX_MOUNTS_def Let_def s3_def k_def)
  have "mounts s3 ! ?c = k" "inodes s3 a = None" using len act by (simp_all add: s3_def s2_def)
  then have "fs_get_super s3 (Some q) = Some sb" "fs_unmount_super s3 (Some q) = None"
    using f3(3) act by (simp_all add: fs_get_super_def fs_unmount_super_def free_root_def k_def m_def)
  then show ?thesis using m1 m2 m3 by blast
qed

theorem stale_superblock_reused_witness:
  "\<exists>s1 s2 s3. fs_mount_super ram_state (Some 7) (Some ''/a'') (Some 9) = (s1, 0) \<and> fs_unmount_super s1 (Some ''/a'') = Some (s2, 0) \<and>
    fs_mount s2 (Some ''hda'') (Some ''/b'') (Some ''ram'') 0 = Some (s3, 0) \<and> fs_get_super s3 (Some ''/b'') = Some 9"
  using stale_superblock_reused [OF ram_state_run, of "''/a''" "''/b''" "''ram''" 1 "''hda''" 0 0 7 9]
  by (auto simp: ram_state_fields fs_find_by_name_def active_def)

end
