(* ===== verification/Sched.thy ===== *)
theory Sched
  imports Horizon_Prelude
begin

text \<open>
  The scheduler, \<^verbatim>\<open>kernel/sched.c\<close>, with the real-time part of \<^verbatim>\<open>kernel/sched/rt.c\<close>. There is one run queue (\<^verbatim>\<open>this_rq\<close>
  is always the first one): its fields, the statics of \<^verbatim>\<open>rt.c\<close> and the threads are one state. The \<^verbatim>\<open>next\<close> and \<^verbatim>\<open>prev\<close>
  fields of the threads are two maps. The queue is linked by hand, so an operation on a thread in the wrong
  place damages it; following a null pointer and loops that do not end have no result.

  The constants are those the preprocessor leaves in force in each file: \<^verbatim>\<open>sched.c\<close> includes
  \<^verbatim>\<open>horizon/sched/config.h\<close> last, which redefines the thread states and priorities of \<^verbatim>\<open>thread.h\<close>.
  The context switch only prints a message. The time stamp is an argument; interrupts are off inside a
  function. The array \<open>rq_active\<close> of lists is only asked whether its lists are empty, so it is that list of
  answers, or nothing for the null pointer.
\<close>

section \<open>State\<close>

record thr =
  t_tid :: u32
  t_pid :: u32
  t_flags :: u32
  t_state :: u32
  t_policy :: u32
  t_priority :: int
  t_static :: int
  t_dynamic :: int
  t_slice :: u64
  t_start :: u64
  t_wakeup :: u64
  t_cpu :: u32

record sched_state =
  nr_running :: u32
  nr_switches :: u32
  nr_schedule :: u64
  curr_timestamp :: u64
  last_timestamp :: u64
  rq_active :: "bool list option"
  rq_curr :: "nat option"
  rq_idle :: "nat option"
  rq_head :: "nat option"
  rq_tail :: "nat option"
  rq_bitmap :: u64
  thr_at :: "nat \<Rightarrow> thr"
  th_next :: "nat \<Rightarrow> nat option"
  th_prev :: "nat \<Rightarrow> nat option"
  rt_enabled :: bool
  rt_runtime :: u64
  rt_period :: u64
  rt_prio_base :: u32
  rt_schedule_count :: u64
  rt_yield_count :: u64
  rt_boost_count :: u64
  rt_throttle_count :: u64

definition THREAD_STATE_READY :: u32 where "THREAD_STATE_READY = 1"
definition THREAD_STATE_RUNNING :: u32 where "THREAD_STATE_RUNNING = 2"
definition THREAD_STATE_BLOCKED :: u32 where "THREAD_STATE_BLOCKED = 3"
definition THREAD_STATE_SLEEPING :: u32 where "THREAD_STATE_SLEEPING = 4"
definition SCHED_FIFO :: u32 where "SCHED_FIFO = 1"
definition SCHED_RR :: u32 where "SCHED_RR = 2"
definition SCHED_BATCH :: u32 where "SCHED_BATCH = 3"
definition SCHED_IDLE :: u32 where "SCHED_IDLE = 4"
definition SCHED_DEADLINE :: u32 where "SCHED_DEADLINE = 5"
definition THREAD_PRIO_IDLE :: int where "THREAD_PRIO_IDLE = 139"
definition THREAD_PRIO_LOW :: int where "THREAD_PRIO_LOW = 120"
definition THREAD_PRIO_NORMAL :: int where "THREAD_PRIO_NORMAL = 100"
definition THREAD_PRIO_REALTIME :: int where "THREAD_PRIO_REALTIME = 0"
definition SCHED_TIMESLICE_DEFAULT :: u64 where "SCHED_TIMESLICE_DEFAULT = 100"
definition THREAD_KERNEL :: u32 where "THREAD_KERNEL = 1"
definition CONFIG_NR_CPUS :: u32 where "CONFIG_NR_CPUS = 1"

text \<open>The upper bound of priorities in \<^verbatim>\<open>rt.c\<close>, which sees only \<^verbatim>\<open>sched.h\<close>.\<close>

definition SCHED_PRIO_MAX :: nat where "SCHED_PRIO_MAX = 99"

lemmas sched_consts = THREAD_STATE_READY_def THREAD_STATE_RUNNING_def THREAD_STATE_BLOCKED_def
  THREAD_STATE_SLEEPING_def SCHED_FIFO_def SCHED_RR_def SCHED_BATCH_def SCHED_IDLE_def SCHED_DEADLINE_def
  THREAD_PRIO_IDLE_def THREAD_PRIO_LOW_def THREAD_PRIO_NORMAL_def THREAD_PRIO_REALTIME_def
  SCHED_TIMESLICE_DEFAULT_def CONFIG_NR_CPUS_def

text \<open>Writing fields of a thread.\<close>

definition thr_upd :: "sched_state \<Rightarrow> nat \<Rightarrow> (thr \<Rightarrow> thr) \<Rightarrow> sched_state" where
  "thr_upd s t f = s\<lparr>thr_at := (thr_at s)(t := f (thr_at s t))\<rparr>"

definition set_state :: "sched_state \<Rightarrow> nat \<Rightarrow> u32 \<Rightarrow> sched_state" where
  "set_state s t v = thr_upd s t (\<lambda>r. r\<lparr>t_state := v\<rparr>)"

section \<open>Initialisation\<close>

definition idle_record :: "u64 \<Rightarrow> thr" where
  "idle_record now = \<lparr>t_tid = 0, t_pid = 0, t_flags = THREAD_KERNEL, t_state = THREAD_STATE_RUNNING, t_policy = SCHED_IDLE,
     t_priority = THREAD_PRIO_IDLE, t_static = THREAD_PRIO_IDLE, t_dynamic = THREAD_PRIO_IDLE,
     t_slice = SCHED_TIMESLICE_DEFAULT, t_start = now, t_wakeup = 0, t_cpu = 0\<rparr>"

text \<open>\<open>alloc\<close> is the address of the idle thread, if it can be allocated; \<open>now\<close> and \<open>now'\<close> are the two readings of the clock.\<close>

definition sched_init :: "sched_state \<Rightarrow> nat option \<Rightarrow> u64 \<Rightarrow> u64 \<Rightarrow> sched_state" where
  "sched_init s alloc now now' =
     (let s1 = s\<lparr>nr_running := 0, nr_switches := 0, nr_schedule := 0, curr_timestamp := now, last_timestamp := now,
                 rq_active := None, rq_curr := None, rq_idle := None, rq_head := None, rq_tail := None, rq_bitmap := 0\<rparr>
      in case alloc of
           None \<Rightarrow> s1
         | Some t \<Rightarrow> s1\<lparr>thr_at := (thr_at s1)(t := idle_record now'), th_next := (th_next s1)(t := None),
                        th_prev := (th_prev s1)(t := None), rq_idle := Some t, rq_curr := Some t\<rparr>)"

section \<open>Real-time scheduling\<close>

definition rt_init :: "sched_state \<Rightarrow> sched_state" where
  "rt_init s = s\<lparr>rt_schedule_count := 0, rt_yield_count := 0, rt_boost_count := 0, rt_throttle_count := 0,
     rt_enabled := True, rt_runtime := 950000, rt_period := 1000000, rt_prio_base := 100\<rparr>"

definition rt_enable :: "sched_state \<Rightarrow> int \<Rightarrow> sched_state \<times> int" where
  "rt_enable s enable = (s\<lparr>rt_enabled := (enable \<noteq> 0)\<rparr>, 0)"

definition rt_set_runtime :: "sched_state \<Rightarrow> u64 \<Rightarrow> sched_state \<times> int" where
  "rt_set_runtime s runtime = (if runtime > rt_period s then (s, - EINVAL) else (s\<lparr>rt_runtime := runtime\<rparr>, 0))"

definition rt_set_period :: "sched_state \<Rightarrow> u64 \<Rightarrow> sched_state \<times> int" where
  "rt_set_period s period = (if period = 0 \<or> rt_runtime s > period then (s, - EINVAL) else (s\<lparr>rt_period := period\<rparr>, 0))"

definition rt_set_prio_base :: "sched_state \<Rightarrow> u32 \<Rightarrow> sched_state \<times> int" where
  "rt_set_prio_base s prio_base = (s\<lparr>rt_prio_base := prio_base\<rparr>, 0)"

definition rt_is_realtime :: "sched_state \<Rightarrow> nat option \<Rightarrow> bool" where
  "rt_is_realtime s thread =
     (case thread of
        None \<Rightarrow> False
      | Some t \<Rightarrow> rt_enabled s \<and> (t_policy (thr_at s t) = SCHED_FIFO \<or> t_policy (thr_at s t) = SCHED_RR))"

definition rt_can_preempt :: "sched_state \<Rightarrow> nat option \<Rightarrow> nat option \<Rightarrow> bool" where
  "rt_can_preempt s thread current =
     (case (thread, current) of
        (Some t, Some c) \<Rightarrow>
          if \<not> rt_enabled s then False
          else if \<not> rt_is_realtime s thread then False
          else if rt_is_realtime s current then t_priority (thr_at s t) < t_priority (thr_at s c)
          else True
      | _ \<Rightarrow> False)"

text \<open>The loop over the lists of the active array, \<open>n\<close> of them from \<open>i\<close> on. The thread it looks at is always null.\<close>

fun rt_scan :: "sched_state \<Rightarrow> bool list \<Rightarrow> nat \<Rightarrow> nat \<Rightarrow> nat option option" where
  "rt_scan s active i 0 = Some None"
| "rt_scan s active i (Suc n) =
     (if i \<ge> length active then None
      else if active ! i then rt_scan s active (Suc i) n
      else let thread = None
           in if rt_is_realtime s thread then Some thread else rt_scan s active (Suc i) n)"

definition rt_schedule :: "sched_state \<Rightarrow> (sched_state \<times> nat option) option" where
  "rt_schedule s =
     (if \<not> rt_enabled s then Some (s, None)
      else
        let s1 = s\<lparr>rt_schedule_count := rt_schedule_count s + 1\<rparr>
        in case rq_active s1 of
             None \<Rightarrow> None
           | Some active \<Rightarrow>
               Option.bind (rt_scan s1 active 0 (SCHED_PRIO_MAX + 1)) (\<lambda>next.
                 case next of
                   None \<Rightarrow> Some (s1, None)
                 | Some t \<Rightarrow>
                     if t_policy (thr_at s1 t) = SCHED_RR \<and> t_slice (thr_at s1 t) = 0
                     then Some (thr_upd s1 t (\<lambda>r. r\<lparr>t_slice := 100\<rparr>), Some t)
                     else Some (s1, Some t)))"

text \<open>\<^verbatim>\<open>1ULL << priority\<close> has a value only for shifts of less than 64.\<close>

definition priority_bit :: "int \<Rightarrow> u64 option" where
  "priority_bit priority = (if 0 \<le> priority \<and> priority < 64 then Some (push_bit (nat priority) 1) else None)"

definition rt_enqueue :: "sched_state \<Rightarrow> nat option \<Rightarrow> (sched_state \<times> int) option" where
  "rt_enqueue s thread =
     (case thread of
        None \<Rightarrow> Some (s, - EINVAL)
      | Some t \<Rightarrow>
          if \<not> rt_enabled s then Some (s, - EINVAL)
          else if \<not> rt_is_realtime s thread then Some (s, - EINVAL)
          else Option.bind (priority_bit (t_priority (thr_at s t))) (\<lambda>b. Some (s\<lparr>rq_bitmap := rq_bitmap s OR b\<rparr>, 0)))"

definition rt_dequeue :: "sched_state \<Rightarrow> nat option \<Rightarrow> (sched_state \<times> int) option" where
  "rt_dequeue s thread =
     (case thread of
        None \<Rightarrow> Some (s, - EINVAL)
      | Some t \<Rightarrow>
          if \<not> rt_enabled s then Some (s, - EINVAL)
          else if \<not> rt_is_realtime s thread then Some (s, - EINVAL)
          else Option.bind (priority_bit (t_priority (thr_at s t))) (\<lambda>b. Some (s\<lparr>rq_bitmap := rq_bitmap s AND NOT b\<rparr>, 0)))"

definition rt_yield :: "sched_state \<Rightarrow> nat option \<Rightarrow> sched_state \<times> int" where
  "rt_yield s thread =
     (if thread = None then (s, - EINVAL)
      else if \<not> rt_enabled s then (s, - EINVAL)
      else if \<not> rt_is_realtime s thread then (s, - EINVAL)
      else (s\<lparr>rt_yield_count := rt_yield_count s + 1\<rparr>, 0))"

text \<open>The end of both functions that change a priority.\<close>

definition change_priority :: "sched_state \<Rightarrow> nat \<Rightarrow> int \<Rightarrow> (sched_state \<times> int) option" where
  "change_priority s t new_priority =
     (let priority = t_priority (thr_at s t)
      in if new_priority \<noteq> priority then
           Option.bind (priority_bit priority) (\<lambda>b.
           Option.bind (priority_bit new_priority) (\<lambda>b'.
             Some ((thr_upd s t (\<lambda>r. r\<lparr>t_priority := new_priority\<rparr>))\<lparr>rq_bitmap := (rq_bitmap s AND NOT b) OR b'\<rparr>, 0)))
         else Some (s, 0))"

definition rt_boost :: "sched_state \<Rightarrow> nat option \<Rightarrow> int \<Rightarrow> (sched_state \<times> int) option" where
  "rt_boost s thread boost =
     (case thread of
        None \<Rightarrow> Some (s, - EINVAL)
      | Some t \<Rightarrow>
          if boost \<le> 0 then Some (s, - EINVAL)
          else if \<not> rt_enabled s then Some (s, - EINVAL)
          else if \<not> rt_is_realtime s thread then Some (s, - EINVAL)
          else
            let s1 = s\<lparr>rt_boost_count := rt_boost_count s + 1\<rparr>;
                new_priority = t_priority (thr_at s1 t) - boost
            in change_priority s1 t (if new_priority < 0 then 0 else new_priority))"

definition rt_throttle :: "sched_state \<Rightarrow> nat option \<Rightarrow> int \<Rightarrow> (sched_state \<times> int) option" where
  "rt_throttle s thread throttle =
     (case thread of
        None \<Rightarrow> Some (s, - EINVAL)
      | Some t \<Rightarrow>
          if throttle \<le> 0 then Some (s, - EINVAL)
          else if \<not> rt_enabled s then Some (s, - EINVAL)
          else if \<not> rt_is_realtime s thread then Some (s, - EINVAL)
          else
            let s1 = s\<lparr>rt_throttle_count := rt_throttle_count s + 1\<rparr>;
                new_priority = t_priority (thr_at s1 t) + throttle
            in change_priority s1 t (if new_priority > int SCHED_PRIO_MAX then int SCHED_PRIO_MAX else new_priority))"

section \<open>The run queue\<close>

text \<open>The code that links a thread behind the last one, which three functions repeat.\<close>

definition append_tail :: "sched_state \<Rightarrow> nat \<Rightarrow> sched_state" where
  "append_tail s t =
     (case rq_tail s of
        None \<Rightarrow> s\<lparr>rq_head := Some t, rq_tail := Some t, th_next := (th_next s)(t := None), th_prev := (th_prev s)(t := None)\<rparr>
      | Some l \<Rightarrow> s\<lparr>th_prev := (th_prev s)(t := Some l), th_next := (th_next s)(t := None, l := Some t), rq_tail := Some t\<rparr>)"

definition sched_add_thread :: "sched_state \<Rightarrow> nat option \<Rightarrow> sched_state" where
  "sched_add_thread s thread =
     (case thread of
        None \<Rightarrow> s
      | Some t \<Rightarrow>
          if t_state (thr_at s t) \<noteq> THREAD_STATE_READY then s
          else let s1 = append_tail s t in s1\<lparr>nr_running := nr_running s1 + 1\<rparr>)"

definition sched_enqueue_thread :: "sched_state \<Rightarrow> nat option \<Rightarrow> sched_state" where
  "sched_enqueue_thread s thread =
     (case thread of
        None \<Rightarrow> s
      | Some t \<Rightarrow> let s1 = append_tail s t in s1\<lparr>nr_running := nr_running s1 + 1\<rparr>)"

definition sched_requeue_thread :: "sched_state \<Rightarrow> nat option \<Rightarrow> sched_state" where
  "sched_requeue_thread s thread = (case thread of None \<Rightarrow> s | Some t \<Rightarrow> append_tail s t)"

definition sched_remove_thread :: "sched_state \<Rightarrow> nat option \<Rightarrow> sched_state" where
  "sched_remove_thread s thread =
     (case thread of
        None \<Rightarrow> s
      | Some t \<Rightarrow>
          let s1 = (case th_prev s t of
                      Some p \<Rightarrow> s\<lparr>th_next := (th_next s)(p := th_next s t)\<rparr>
                    | None \<Rightarrow> s\<lparr>rq_head := th_next s t\<rparr>);
              s2 = (case th_next s1 t of
                      Some n \<Rightarrow> s1\<lparr>th_prev := (th_prev s1)(n := th_prev s1 t)\<rparr>
                    | None \<Rightarrow> s1\<lparr>rq_tail := th_prev s1 t\<rparr>);
              s3 = s2\<lparr>th_next := (th_next s2)(t := None), th_prev := (th_prev s2)(t := None)\<rparr>
          in if nr_running s3 > 0 then s3\<lparr>nr_running := nr_running s3 - 1\<rparr> else s3)"

definition sched_dequeue_thread :: "sched_state \<Rightarrow> sched_state \<times> nat option" where
  "sched_dequeue_thread s =
     (case rq_head s of
        None \<Rightarrow> (s, None)
      | Some t \<Rightarrow>
          let s1 = (case th_next s t of
                      Some n \<Rightarrow> s\<lparr>rq_head := Some n, th_prev := (th_prev s)(n := None)\<rparr>
                    | None \<Rightarrow> s\<lparr>rq_head := None, rq_tail := None\<rparr>)
          in (s1\<lparr>th_next := (th_next s1)(t := None), th_prev := (th_prev s1)(t := None)\<rparr>, Some t))"

section \<open>Choosing a thread\<close>

definition can_preempt :: "sched_state \<Rightarrow> nat option \<Rightarrow> nat option \<Rightarrow> bool option" where
  "can_preempt s next cur =
     (if rt_is_realtime s next then
        if \<not> rt_is_realtime s cur then Some True else Some (rt_can_preempt s next cur)
      else Option.bind cur (\<lambda>c.
        if t_policy (thr_at s c) = SCHED_FIFO \<and> t_state (thr_at s c) = THREAD_STATE_RUNNING then Some False else Some True))"

text \<open>The switch proper; \<^verbatim>\<open>sched_context_switch\<close> only prints.\<close>

definition switch_to :: "sched_state \<Rightarrow> nat option \<Rightarrow> nat option \<Rightarrow> sched_state option" where
  "switch_to s cur next =
     (let s1 = s\<lparr>nr_switches := nr_switches s + 1\<rparr>
      in Option.bind cur (\<lambda>c.
         let s2 = (if t_state (thr_at s1 c) = THREAD_STATE_RUNNING then set_state s1 c THREAD_STATE_READY else s1)
         in Option.bind next (\<lambda>n. Some ((set_state s2 n THREAD_STATE_RUNNING)\<lparr>rq_curr := Some n\<rparr>))))"

definition requeue_current :: "sched_state \<Rightarrow> nat option \<Rightarrow> sched_state option" where
  "requeue_current s cur =
     (if cur = rq_idle s then Some s
      else Option.bind cur (\<lambda>c.
        if t_state (thr_at s c) = THREAD_STATE_RUNNING then
          if t_policy (thr_at s c) \<noteq> SCHED_FIFO \<or> t_state (thr_at s c) \<noteq> THREAD_STATE_RUNNING
          then Some (sched_requeue_thread s (Some c)) else Some s
        else Some s))"

definition sched_schedule :: "sched_state \<Rightarrow> sched_state option" where
  "sched_schedule s =
     (let s0 = s\<lparr>nr_schedule := nr_schedule s + 1\<rparr>; cur = rq_curr s0
      in Option.bind (rt_schedule s0) (\<lambda>(s1, found).
         let (s2, ready) = (case found of None \<Rightarrow> sched_dequeue_thread s1 | Some t \<Rightarrow> (s1, Some t));
             next = (case ready of None \<Rightarrow> rq_idle s2 | Some t \<Rightarrow> Some t)
         in Option.bind (requeue_current s2 cur) (\<lambda>s3.
            if cur \<noteq> next then
              Option.bind (can_preempt s3 next cur) (\<lambda>b. if b then switch_to s3 cur next else Some s3)
            else Some s3)))"

definition sched_yield :: "sched_state \<Rightarrow> sched_state option" where
  "sched_yield s = sched_schedule s"

definition sched_start :: "sched_state \<Rightarrow> sched_state option" where
  "sched_start s = sched_schedule s"

definition sched_check_preempt :: "sched_state \<Rightarrow> nat option \<Rightarrow> sched_state option" where
  "sched_check_preempt s thread =
     (case thread of
        None \<Rightarrow> Some s
      | Some t \<Rightarrow>
          let cur = rq_curr s
          in if cur = rq_idle s then sched_schedule s
             else if rt_is_realtime s thread \<and> \<not> rt_is_realtime s cur then sched_schedule s
             else if rt_is_realtime s thread \<and> rt_can_preempt s thread cur then sched_schedule s
             else Option.bind cur (\<lambda>c.
               if \<not> rt_is_realtime s thread \<and> t_policy (thr_at s c) = SCHED_FIFO \<and> t_state (thr_at s c) = THREAD_STATE_RUNNING then Some s
               else if t_dynamic (thr_at s t) < t_dynamic (thr_at s c) then sched_schedule s
               else Some s))"

section \<open>Blocking and sleeping\<close>

definition sched_block_thread :: "sched_state \<Rightarrow> nat option \<Rightarrow> sched_state option" where
  "sched_block_thread s thread =
     (case thread of
        None \<Rightarrow> Some s
      | Some t \<Rightarrow>
          let s1 = sched_remove_thread (set_state s t THREAD_STATE_BLOCKED) (Some t)
          in if Some t = rq_curr s1 then sched_schedule s1 else Some s1)"

definition sched_unblock_thread :: "sched_state \<Rightarrow> nat option \<Rightarrow> sched_state option" where
  "sched_unblock_thread s thread =
     (case thread of
        None \<Rightarrow> Some s
      | Some t \<Rightarrow>
          if t_state (thr_at s t) \<noteq> THREAD_STATE_BLOCKED then Some s
          else sched_check_preempt (sched_add_thread (set_state s t THREAD_STATE_READY) (Some t)) (Some t))"

definition sched_sleep_thread :: "sched_state \<Rightarrow> nat option \<Rightarrow> u64 \<Rightarrow> u64 \<Rightarrow> sched_state option" where
  "sched_sleep_thread s thread ms now =
     (case thread of
        None \<Rightarrow> Some s
      | Some t \<Rightarrow>
          let s1 = thr_upd (set_state s t THREAD_STATE_SLEEPING) t (\<lambda>r. r\<lparr>t_wakeup := now + ms * 1000\<rparr>);
              s2 = sched_remove_thread s1 (Some t)
          in if Some t = rq_curr s2 then sched_schedule s2 else Some s2)"

definition sched_wakeup_thread :: "sched_state \<Rightarrow> nat option \<Rightarrow> sched_state option" where
  "sched_wakeup_thread s thread =
     (case thread of
        None \<Rightarrow> Some s
      | Some t \<Rightarrow>
          if t_state (thr_at s t) \<noteq> THREAD_STATE_SLEEPING then Some s
          else sched_check_preempt (sched_add_thread (set_state s t THREAD_STATE_READY) (Some t)) (Some t))"

section \<open>The timer tick\<close>

text \<open>The loop over the run queue that wakes sleeping threads.\<close>

partial_function (option) wake_sleepers :: "sched_state \<Rightarrow> nat option \<Rightarrow> sched_state option" where
  "wake_sleepers s thread =
     (case thread of
        None \<Rightarrow> Some s
      | Some t \<Rightarrow>
          let next = th_next s t
          in if t_state (thr_at s t) = THREAD_STATE_SLEEPING \<and> curr_timestamp s \<ge> t_wakeup (thr_at s t)
             then Option.bind (sched_wakeup_thread s (Some t)) (\<lambda>s1. wake_sleepers s1 next)
             else wake_sleepers s next)"

definition sched_update_statistics :: "sched_state \<Rightarrow> sched_state" where
  "sched_update_statistics s = s\<lparr>last_timestamp := curr_timestamp s\<rparr>"

text \<open>Counting down the slice of the current thread; \<open>ticks\<close> is its new slice when the old one is over.\<close>

definition tick_slice :: "sched_state \<Rightarrow> nat \<Rightarrow> u64 \<Rightarrow> sched_state option" where
  "tick_slice s c ticks =
     (let s1 = (if t_slice (thr_at s c) > 0 then thr_upd s c (\<lambda>r. r\<lparr>t_slice := t_slice r - 1\<rparr>) else s)
      in if t_slice (thr_at s1 c) = 0
         then sched_schedule (sched_requeue_thread (thr_upd s1 c (\<lambda>r. r\<lparr>t_slice := ticks\<rparr>)) (Some c))
         else Some s1)"

definition sched_tick :: "sched_state \<Rightarrow> u64 \<Rightarrow> sched_state option" where
  "sched_tick s now =
     (let s0 = s\<lparr>curr_timestamp := now\<rparr>; cur = rq_curr s0
      in if cur = rq_idle s0 then Some s0
         else Option.bind cur (\<lambda>c.
           Option.bind (if t_policy (thr_at s0 c) = SCHED_FIFO then Some s0
                        else if t_policy (thr_at s0 c) = SCHED_RR then tick_slice s0 c 100
                        else tick_slice s0 c SCHED_TIMESLICE_DEFAULT) (\<lambda>s1.
           Option.bind (wake_sleepers s1 (rq_head s1)) (\<lambda>s2. Some (sched_update_statistics s2)))))"

section \<open>Parameters of a thread\<close>

definition sched_update_priority :: "sched_state \<Rightarrow> nat \<Rightarrow> sched_state" where
  "sched_update_priority s t = thr_upd s t (\<lambda>r. r\<lparr>t_dynamic := t_static r\<rparr>)"

definition sched_update_timeslice :: "sched_state \<Rightarrow> nat \<Rightarrow> sched_state" where
  "sched_update_timeslice s t =
     thr_upd s t (\<lambda>r. r\<lparr>t_slice := (if t_policy r = SCHED_FIFO then 0 else SCHED_TIMESLICE_DEFAULT)\<rparr>)"

definition policy_values :: "u32 \<Rightarrow> int \<times> u64" where
  "policy_values policy =
     (if policy = SCHED_FIFO then (THREAD_PRIO_REALTIME, 0xFFFFFFFF)
      else if policy = SCHED_RR then (THREAD_PRIO_REALTIME, 100)
      else if policy = SCHED_BATCH then (THREAD_PRIO_LOW, SCHED_TIMESLICE_DEFAULT * 2)
      else if policy = SCHED_IDLE then (THREAD_PRIO_IDLE, SCHED_TIMESLICE_DEFAULT)
      else if policy = SCHED_DEADLINE then (THREAD_PRIO_REALTIME - 1, SCHED_TIMESLICE_DEFAULT)
      else (THREAD_PRIO_NORMAL, SCHED_TIMESLICE_DEFAULT))"

definition sched_update_policy :: "sched_state \<Rightarrow> nat \<Rightarrow> sched_state" where
  "sched_update_policy s t =
     thr_upd s t (\<lambda>r. case policy_values (t_policy r) of (p, sl) \<Rightarrow> r\<lparr>t_static := p, t_slice := sl, t_dynamic := p\<rparr>)"

definition sched_update_affinity :: "sched_state \<Rightarrow> nat \<Rightarrow> sched_state" where
  "sched_update_affinity s t = thr_upd s t (\<lambda>r. if t_cpu r \<ge> CONFIG_NR_CPUS then r\<lparr>t_cpu := 0\<rparr> else r)"

definition sched_update_thread :: "sched_state \<Rightarrow> nat option \<Rightarrow> sched_state" where
  "sched_update_thread s thread =
     (case thread of
        None \<Rightarrow> s
      | Some t \<Rightarrow> sched_update_affinity (sched_update_policy (sched_update_timeslice (sched_update_priority s t) t) t) t)"

definition sched_set_priority :: "sched_state \<Rightarrow> nat option \<Rightarrow> int \<Rightarrow> sched_state" where
  "sched_set_priority s thread priority =
     (case thread of
        None \<Rightarrow> s
      | Some t \<Rightarrow>
          if priority < THREAD_PRIO_IDLE \<or> priority > THREAD_PRIO_REALTIME then s
          else sched_update_thread (thr_upd s t (\<lambda>r. r\<lparr>t_priority := priority, t_static := priority, t_dynamic := priority\<rparr>)) (Some t))"

definition sched_get_priority :: "sched_state \<Rightarrow> nat option \<Rightarrow> int" where
  "sched_get_priority s thread = (case thread of None \<Rightarrow> - EINVAL | Some t \<Rightarrow> t_priority (thr_at s t))"

definition sched_set_policy :: "sched_state \<Rightarrow> nat option \<Rightarrow> u32 \<Rightarrow> sched_state" where
  "sched_set_policy s thread policy =
     (case thread of
        None \<Rightarrow> s
      | Some t \<Rightarrow>
          if policy > SCHED_DEADLINE then s
          else
            let sl = (if policy = SCHED_FIFO then 0xFFFFFFFF else if policy = SCHED_RR then 100 else SCHED_TIMESLICE_DEFAULT)
            in sched_update_thread (thr_upd s t (\<lambda>r. r\<lparr>t_policy := policy, t_slice := sl\<rparr>)) (Some t))"

definition sched_get_policy :: "sched_state \<Rightarrow> nat option \<Rightarrow> u32" where
  "sched_get_policy s thread = (case thread of None \<Rightarrow> of_int (- EINVAL) | Some t \<Rightarrow> t_policy (thr_at s t))"

definition sched_set_timeslice :: "sched_state \<Rightarrow> nat option \<Rightarrow> u64 \<Rightarrow> sched_state" where
  "sched_set_timeslice s thread timeslice = (case thread of None \<Rightarrow> s | Some t \<Rightarrow> thr_upd s t (\<lambda>r. r\<lparr>t_slice := timeslice\<rparr>))"

definition sched_get_timeslice :: "sched_state \<Rightarrow> nat option \<Rightarrow> u64" where
  "sched_get_timeslice s thread = (case thread of None \<Rightarrow> 0 | Some t \<Rightarrow> t_slice (thr_at s t))"

definition sched_set_affinity :: "sched_state \<Rightarrow> nat option \<Rightarrow> u32 \<Rightarrow> sched_state" where
  "sched_set_affinity s thread cpu =
     (case thread of None \<Rightarrow> s | Some t \<Rightarrow> if cpu \<ge> CONFIG_NR_CPUS then s else thr_upd s t (\<lambda>r. r\<lparr>t_cpu := cpu\<rparr>))"

definition sched_get_affinity :: "sched_state \<Rightarrow> nat option \<Rightarrow> u32" where
  "sched_get_affinity s thread = (case thread of None \<Rightarrow> 0 | Some t \<Rightarrow> t_cpu (thr_at s t))"

end
