(* ===== verification/Run_Queue.thy ===== *)
theory Run_Queue
  imports Sched
begin

text \<open>
  The run queue as a list of threads. The locale \<open>fifo\<close> is the interface of a queue: putting at the end, taking from the
  front, removing from the middle; it is interpreted as \<open>runq\<close> on the links that \<open>Sched\<close> manipulates by hand. The other
  lemmas say what the operations leave alone.
\<close>

section \<open>Queues\<close>

locale fifo =
  fixes rep :: "'s \<Rightarrow> 'a list \<Rightarrow> bool"
    and put :: "'s \<Rightarrow> 'a \<Rightarrow> 's"
    and get :: "'s \<Rightarrow> 's \<times> 'a option"
    and drop_elem :: "'s \<Rightarrow> 'a \<Rightarrow> 's"
  assumes rep_put: "rep s xs \<Longrightarrow> x \<notin> set xs \<Longrightarrow> rep (put s x) (xs @ [x])"
    and rep_get: "rep s (x # xs) \<Longrightarrow> snd (get s) = Some x \<and> rep (fst (get s)) xs"
    and rep_get_empty: "rep s [] \<Longrightarrow> get s = (s, None)"
    and rep_drop: "rep s (us @ x # vs) \<Longrightarrow> rep (drop_elem s x) (us @ vs)"
    and rep_distinct: "rep s xs \<Longrightarrow> distinct xs"
begin

lemma put_get: "rep s (x # xs) \<Longrightarrow> y \<notin> set (x # xs) \<Longrightarrow> rep (put (fst (get s)) y) (xs @ [y])"
  using rep_get rep_put by force

lemma drop_member: "rep s xs \<Longrightarrow> x \<in> set xs \<Longrightarrow> rep (drop_elem s x) (remove1 x xs)"
  using rep_drop rep_distinct by (metis remove1_middle split_list_distinct)

lemma rep_after_drop: "rep s xs \<Longrightarrow> x \<in> set xs \<Longrightarrow> x \<notin> set (remove1 x xs)"
  using rep_distinct by fastforce

end

section \<open>The linked run queue\<close>

definition first_of :: "'a list \<Rightarrow> 'a option" where
  "first_of xs = (case xs of [] \<Rightarrow> None | x # _ \<Rightarrow> Some x)"

definition last_of :: "'a list \<Rightarrow> 'a option" where
  "last_of xs = (if xs = [] then None else Some (last xs))"

lemma first_of_simps [simp]: "first_of [] = None" "first_of (x # xs) = Some x"
  by (simp_all add: first_of_def)

lemma last_of_simps [simp]: "last_of [] = None" "last_of (xs @ [x]) = Some x" "last_of [x] = Some x"
    "last_of (x # y # xs) = last_of (y # xs)"
  by (simp_all add: last_of_def)

lemma last_of_in: "last_of xs = Some x \<Longrightarrow> x \<in> set xs"
  by (auto simp: last_of_def split: if_splits)

text \<open>The threads \<open>xs\<close> are linked in both directions, the first one with \<open>p\<close> before it and the last one with \<open>q\<close> behind it.\<close>

primrec linked :: "(nat \<Rightarrow> nat option) \<Rightarrow> (nat \<Rightarrow> nat option) \<Rightarrow> nat option \<Rightarrow> nat list \<Rightarrow> nat option \<Rightarrow> bool" where
  "linked nx pv p [] q \<longleftrightarrow> True"
| "linked nx pv p (x # xs) q \<longleftrightarrow> pv x = p \<and> nx x = (if xs = [] then q else first_of xs) \<and> linked nx pv (Some x) xs q"

definition queue_at :: "sched_state \<Rightarrow> nat list \<Rightarrow> bool" where
  "queue_at s xs \<longleftrightarrow> distinct xs \<and> rq_head s = first_of xs \<and> rq_tail s = last_of xs \<and> linked (th_next s) (th_prev s) None xs None"

lemma linked_cong:
  "\<forall>x\<in>set xs. nx' x = nx x \<and> pv' x = pv x \<Longrightarrow> linked nx' pv' p xs q = linked nx pv p xs q"
  by (induction xs arbitrary: p) auto

lemma linked_append:
  "linked nx pv p (xs @ ys) q \<longleftrightarrow>
     linked nx pv p xs (if ys = [] then q else first_of ys) \<and> linked nx pv (if xs = [] then p else last_of xs) ys q"
proof (induction xs arbitrary: p)
  case (Cons x xs)
  have "last_of (x # xs) = (if xs = [] then Some x else last_of xs)" by (simp add: last_of_def)
  moreover have "first_of (xs @ ys) = (if xs = [] then first_of ys else first_of xs)" by (cases xs) simp_all
  ultimately show ?case using Cons by auto
qed simp

lemma queue_append_tail:
  assumes "queue_at s xs" and "t \<notin> set xs"
  shows "queue_at (append_tail s t) (xs @ [t])"
proof (cases xs rule: rev_cases)
  case Nil
  then show ?thesis using assms by (simp add: queue_at_def append_tail_def)
next
  case (snoc ys l)
  have l: "linked (th_next s) (th_prev s) None ys (Some l)" "th_prev s l = (if ys = [] then None else last_of ys)"
      "distinct ys" "l \<notin> set ys" "t \<notin> set ys" "t \<noteq> l" "rq_tail s = Some l"
    using assms snoc by (auto simp: queue_at_def linked_append)
  let ?nx = "(th_next s)(t := None, l := Some t)" and ?pv = "(th_prev s)(t := Some l)"
  have "linked ?nx ?pv None ys (Some l)"
    using l linked_cong [of ys ?nx "th_next s" ?pv "th_prev s" None "Some l"] by (metis fun_upd_other)
  then have "linked ?nx ?pv None (ys @ [l, t]) None" using l by (simp add: linked_append)
  moreover have "first_of (ys @ [l, t]) = first_of (ys @ [l])" "last_of (ys @ [l, t]) = Some t" by (cases ys) (simp_all add: last_of_def)
  ultimately show ?thesis using assms(1) l snoc by (simp add: queue_at_def append_tail_def)
qed

lemma dequeue_front:
  assumes "queue_at s (x # xs)"
  shows "snd (sched_dequeue_thread s) = Some x \<and> queue_at (fst (sched_dequeue_thread s)) xs"
proof (cases xs)
  case Nil
  then show ?thesis using assms by (simp add: queue_at_def sched_dequeue_thread_def)
next
  case (Cons y ys)
  have a: "rq_head s = Some x" "th_next s x = Some y" "x \<notin> set (y # ys)" "y \<notin> set ys" "linked (th_next s) (th_prev s) (Some y) ys None"
      "th_next s y = (if ys = [] then None else first_of ys)" "distinct ys" "rq_tail s = last_of (y # ys)"
    using assms Cons by (auto simp: queue_at_def)
  let ?nx = "(th_next s)(x := None)" and ?pv = "(th_prev s)(y := None, x := None)"
  have "linked ?nx ?pv (Some y) ys None"
    using a linked_cong [of ys ?nx "th_next s" ?pv "th_prev s" "Some y" None] by (metis fun_upd_other list.set_intros(2))
  then show ?thesis using a Cons by (simp add: queue_at_def sched_dequeue_thread_def)
qed

text \<open>Unlinking a thread between its neighbours, as a change of the two maps.\<close>

lemma linked_skip:
  assumes "linked nx pv None (us @ t # vs) None" and "distinct (us @ t # vs)"
    and "\<And>x. x \<noteq> t \<Longrightarrow> nx' x = (if last_of us = Some x then nx t else nx x)"
    and "\<And>x. x \<noteq> t \<Longrightarrow> pv' x = (if first_of vs = Some x then pv t else pv x)"
  shows "linked nx' pv' None (us @ vs) None"
proof -
  have a: "linked nx pv None us (Some t)" "linked nx pv (Some t) vs None" "pv t = last_of us" "nx t = first_of vs"
    using assms(1) by (auto simp: linked_append last_of_def first_of_def split: if_splits)
  have "linked nx' pv' None us (first_of vs)"
  proof (cases us rule: rev_cases)
    case (snoc ws l)
    then have "linked nx pv None ws (Some l)" "pv l = (if ws = [] then None else last_of ws)" using a(1) by (simp_all add: linked_append)
    moreover have "x \<noteq> t" "last_of us \<noteq> Some x" "first_of vs \<noteq> Some x" if "x \<in> set ws" for x
      using that assms(2) snoc by (auto simp: first_of_def split: list.splits)
    then have "\<forall>x\<in>set ws. nx' x = nx x \<and> pv' x = pv x" using assms(3,4) by simp
    moreover have "l \<noteq> t" "first_of vs \<noteq> Some l" using assms(2) snoc by (auto simp: first_of_def split: list.splits)
    then have "nx' l = first_of vs" "pv' l = pv l" using assms(3,4) [of l] a(4) snoc by simp_all
    ultimately show ?thesis using snoc linked_cong [of ws nx' nx pv' pv] by (simp add: linked_append)
  qed simp
  moreover have "linked nx' pv' (last_of us) vs None"
  proof (cases vs)
    case (Cons v ws)
    then have "linked nx pv (Some v) ws None" "nx v = (if ws = [] then None else first_of ws)" using a(2) by simp_all
    moreover have "x \<noteq> t" "last_of us \<noteq> Some x" "first_of vs \<noteq> Some x" if "x \<in> set ws" for x
      using that assms(2) Cons by (auto dest: last_of_in)
    then have "\<forall>x\<in>set ws. nx' x = nx x \<and> pv' x = pv x" using assms(3,4) by simp
    moreover have "v \<noteq> t" "last_of us \<noteq> Some v" using assms(2) Cons by (auto simp: last_of_def split: if_splits)
    then have "nx' v = nx v" "pv' v = last_of us" using assms(3,4) [of v] a(3) Cons by simp_all
    ultimately show ?thesis using Cons linked_cong [of ws nx' nx pv' pv] by simp
  qed simp
  ultimately show ?thesis by (auto simp: linked_append last_of_def first_of_def)
qed

lemma queue_remove:
  assumes "queue_at s (us @ t # vs)"
  shows "queue_at (sched_remove_thread s (Some t)) (us @ vs)"
proof -
  define s' where "s' = sched_remove_thread s (Some t)"
  have q: "distinct (us @ t # vs)" "linked (th_next s) (th_prev s) None (us @ t # vs) None"
      "rq_head s = first_of (us @ t # vs)" "rq_tail s = last_of (us @ t # vs)"
    using assms by (simp_all add: queue_at_def)
  have l: "th_prev s t = last_of us" "th_next s t = first_of vs"
    using q(2) by (auto simp: linked_append last_of_def first_of_def)
  have ne: "last_of us \<noteq> Some t" "first_of vs \<noteq> Some t" using q(1) by (auto simp: last_of_def first_of_def split: list.split)
  have n: "th_next s' x = (if last_of us = Some x then th_next s t else th_next s x)" if "x \<noteq> t" for x
    using l ne that by (auto simp: s'_def sched_remove_thread_def Let_def split: option.split)
  have p: "th_prev s' x = (if first_of vs = Some x then th_prev s t else th_prev s x)" if "x \<noteq> t" for x
    using l ne that by (auto simp: s'_def sched_remove_thread_def Let_def split: option.split)
  have h1: "rq_head s' = (if last_of us = None then first_of vs else rq_head s)"
    using l ne by (auto simp: s'_def sched_remove_thread_def Let_def split: option.split)
  have h2: "rq_tail s' = (if first_of vs = None then last_of us else rq_tail s)"
    using l ne by (auto simp: s'_def sched_remove_thread_def Let_def split: option.split)
  have h: "rq_head s' = first_of (us @ vs)" using h1 q(3) by (cases us) (simp_all add: last_of_def)
  have h': "rq_tail s' = last_of (us @ vs)" using h2 q(4) by (cases vs) (simp_all add: last_of_def)
  from linked_skip [OF q(2,1) n p] q(1) h h' show ?thesis by (simp add: queue_at_def s'_def)
qed

interpretation runq: fifo queue_at append_tail sched_dequeue_thread "\<lambda>s t. sched_remove_thread s (Some t)"
proof
  show "queue_at s xs \<Longrightarrow> x \<notin> set xs \<Longrightarrow> queue_at (append_tail s x) (xs @ [x])" for s xs x by (rule queue_append_tail)
  show "queue_at s (x # xs) \<Longrightarrow> snd (sched_dequeue_thread s) = Some x \<and> queue_at (fst (sched_dequeue_thread s)) xs" for s x xs
    by (rule dequeue_front)
  show "queue_at s [] \<Longrightarrow> sched_dequeue_thread s = (s, None)" for s by (simp add: queue_at_def sched_dequeue_thread_def)
  show "queue_at s (us @ x # vs) \<Longrightarrow> queue_at (sched_remove_thread s (Some x)) (us @ vs)" for s us x vs by (rule queue_remove)
  show "queue_at s xs \<Longrightarrow> distinct xs" for s xs by (simp add: queue_at_def)
qed

text \<open>What the queue operations leave alone.\<close>

lemma append_tail_frame [simp]:
  "thr_at (append_tail s t) = thr_at s" "rq_curr (append_tail s t) = rq_curr s" "rq_idle (append_tail s t) = rq_idle s"
  "rt_enabled (append_tail s t) = rt_enabled s" "nr_running (append_tail s t) = nr_running s" "nr_switches (append_tail s t) = nr_switches s"
  "curr_timestamp (append_tail s t) = curr_timestamp s"
  by (simp_all add: append_tail_def split: option.split)

lemma append_tail_links:
  "x \<noteq> t \<Longrightarrow> rq_tail s \<noteq> Some x \<Longrightarrow> th_next (append_tail s t) x = th_next s x"
  "x \<noteq> t \<Longrightarrow> th_prev (append_tail s t) x = th_prev s x"
  by (simp_all add: append_tail_def split: option.split)

lemma remove_frame [simp]:
  "thr_at (sched_remove_thread s t) = thr_at s" "rq_curr (sched_remove_thread s t) = rq_curr s" "rq_idle (sched_remove_thread s t) = rq_idle s"
  "rt_enabled (sched_remove_thread s t) = rt_enabled s"
  by (simp_all add: sched_remove_thread_def Let_def split: option.split)

lemma remove_running: "nr_running (sched_remove_thread s (Some t)) = (if nr_running s > 0 then nr_running s - 1 else 0)"
  by (simp add: sched_remove_thread_def Let_def word_gt_0 split: option.split)

lemma dequeue_frame [simp]:
  "thr_at (fst (sched_dequeue_thread s)) = thr_at s" "rq_curr (fst (sched_dequeue_thread s)) = rq_curr s"
  "rq_idle (fst (sched_dequeue_thread s)) = rq_idle s" "rt_enabled (fst (sched_dequeue_thread s)) = rt_enabled s"
  "nr_running (fst (sched_dequeue_thread s)) = nr_running s" "curr_timestamp (fst (sched_dequeue_thread s)) = curr_timestamp s"
  by (simp_all add: sched_dequeue_thread_def Let_def split: option.split)

lemma queue_at_cong:
  "rq_head s' = rq_head s \<Longrightarrow> rq_tail s' = rq_tail s \<Longrightarrow> th_next s' = th_next s \<Longrightarrow> th_prev s' = th_prev s \<Longrightarrow> queue_at s' xs = queue_at s xs"
  by (simp add: queue_at_def)

lemma queue_at_last: "queue_at s xs \<Longrightarrow> rq_tail s = Some x \<Longrightarrow> x \<in> set xs"
  by (simp add: queue_at_def last_of_in)

text \<open>A thread that is not queued and has null links keeps them.\<close>

definition unlinked :: "sched_state \<Rightarrow> nat \<Rightarrow> bool" where
  "unlinked s x \<longleftrightarrow> th_next s x = None \<and> th_prev s x = None"

lemma unlinked_append: "unlinked s x \<Longrightarrow> queue_at s xs \<Longrightarrow> x \<notin> set xs \<Longrightarrow> x \<noteq> t \<Longrightarrow> unlinked (append_tail s t) x"
  unfolding unlinked_def using append_tail_links [of x t s] queue_at_last [of s xs x] by auto

lemma unlinked_dequeue:
  assumes "queue_at s (t # xs)" and "x = t \<or> unlinked s x"
  shows "unlinked (fst (sched_dequeue_thread s)) x"
  using assms by (auto simp: unlinked_def queue_at_def sched_dequeue_thread_def Let_def split: option.split)

lemma unlinked_remove:
  assumes "queue_at s xs" and "t \<in> set xs" and "unlinked s x" and "x \<noteq> t" and "x \<notin> set xs"
  shows "unlinked (sched_remove_thread s (Some t)) x"
proof -
  obtain us vs where u: "xs = us @ t # vs" using assms(2) by (blast dest: split_list)
  have l: "th_prev s t = last_of us" "th_next s t = first_of vs"
    using assms(1) u by (auto simp: queue_at_def linked_append last_of_def first_of_def)
  have "last_of us \<noteq> Some x" "first_of vs \<noteq> Some x" using assms(5) u by (auto dest: last_of_in simp: first_of_def split: list.splits)
  then show ?thesis
    using assms(3,4) l by (auto simp: unlinked_def sched_remove_thread_def Let_def split: option.split)
qed

end
