(* ===== verification/Sched_Props.thy ===== *)
theory Sched_Props
  imports Run_Queue
begin

text \<open>
  What the scheduler does, with real-time scheduling switched off (\<^verbatim>\<open>rt_enable(0)\<close>). On top of the run queue
  of \<open>Run_Queue\<close> an abstract scheduler, with the current
  thread, the list of ready threads and the set of blocked threads, is shown to be what the code does for
  every sequence of additions, removals, yields, and of blocking and unblocking threads that are not
  running. From that follows that yielding is fair.

  The remaining claims are what goes wrong: the slice of a thread running out while others wait makes the tick hang,
  blocking the running thread loses all ready threads, and with real-time scheduling switched on, as at
  boot, nothing can be scheduled.
\<close>

section \<open>The abstract scheduler\<close>

text \<open>
  The idle thread, the current thread, the ready threads in order, the blocked threads, and the threads that
  are ready to be added.
\<close>

record asched =
  a_idle :: nat
  a_cur :: nat
  a_queue :: "nat list"
  a_blocked :: "nat set"
  a_new :: "nat set"

definition next_thread :: "asched \<Rightarrow> asched" where
  "next_thread a =
     (case a_queue a of
        [] \<Rightarrow> if a_cur a = a_idle a then a else a\<lparr>a_cur := a_idle a, a_queue := [a_cur a]\<rparr>
      | x # xs \<Rightarrow> a\<lparr>a_cur := x, a_queue := xs @ (if a_cur a = a_idle a then [] else [a_cur a])\<rparr>)"

definition threads_apart :: "asched \<Rightarrow> bool" where
  "threads_apart a \<longleftrightarrow> distinct (a_queue a) \<and> a_idle a \<notin> set (a_queue a) \<and> a_cur a \<notin> set (a_queue a) \<and>
     ({a_idle a, a_cur a} \<union> set (a_queue a)) \<inter> (a_blocked a \<union> a_new a) = {} \<and> a_blocked a \<inter> a_new a = {}"

definition states_ok :: "sched_state \<Rightarrow> asched \<Rightarrow> bool" where
  "states_ok s a \<longleftrightarrow> t_state (thr_at s (a_cur a)) = THREAD_STATE_RUNNING \<and>
     (\<forall>x\<in>set (a_queue a) \<union> a_new a. t_state (thr_at s x) = THREAD_STATE_READY) \<and>
     (\<forall>x\<in>a_blocked a. t_state (thr_at s x) = THREAD_STATE_BLOCKED) \<and>
     (\<forall>x\<in>{a_idle a, a_cur a} \<union> set (a_queue a) \<union> a_blocked a \<union> a_new a. t_policy (thr_at s x) \<noteq> SCHED_FIFO)"

definition running_count :: "asched \<Rightarrow> nat" where
  "running_count a = length (a_queue a) + (if a_cur a = a_idle a then 0 else 1)"

definition sched_rep :: "sched_state \<Rightarrow> asched \<Rightarrow> bool" where
  "sched_rep s a \<longleftrightarrow> queue_at s (a_queue a) \<and> rq_curr s = Some (a_cur a) \<and> rq_idle s = Some (a_idle a) \<and> \<not> rt_enabled s \<and>
     threads_apart a \<and> states_ok s a \<and> unlinked s (a_cur a) \<and> unlinked s (a_idle a) \<and>
     running_count a < 2 ^ 32 \<and> nr_running s = of_nat (running_count a)"

lemma next_thread_apart: "threads_apart a \<Longrightarrow> threads_apart (next_thread a)"
  by (auto simp: threads_apart_def next_thread_def split: list.split)

lemma next_thread_count: "threads_apart a \<Longrightarrow> running_count (next_thread a) = running_count a"
  by (auto simp: threads_apart_def running_count_def next_thread_def split: list.split)

text \<open>The switch from \<open>c\<close> to another thread \<open>n\<close> changes their two states and the current thread, nothing else.\<close>

definition switched :: "sched_state \<Rightarrow> sched_state \<Rightarrow> nat \<Rightarrow> nat \<Rightarrow> bool" where
  "switched s s' c n \<longleftrightarrow> rq_curr s' = Some n \<and> rq_idle s' = rq_idle s \<and> rt_enabled s' = rt_enabled s \<and> nr_running s' = nr_running s \<and>
     rq_head s' = rq_head s \<and> rq_tail s' = rq_tail s \<and> th_next s' = th_next s \<and> th_prev s' = th_prev s \<and>
     thr_at s' = (thr_at s)(c := (thr_at s c)\<lparr>t_state := (if t_state (thr_at s c) = THREAD_STATE_RUNNING then THREAD_STATE_READY else t_state (thr_at s c))\<rparr>,
       n := (thr_at s n)\<lparr>t_state := THREAD_STATE_RUNNING\<rparr>)"

lemma switch_result:
  assumes "\<not> rt_enabled s" and "c \<noteq> n" and "t_policy (thr_at s c) \<noteq> SCHED_FIFO"
  shows "\<exists>s'. Option.bind (can_preempt s (Some n) (Some c)) (\<lambda>b. if b then switch_to s (Some c) (Some n) else Some s) = Some s' \<and>
    switched s s' c n \<and> curr_timestamp s' = curr_timestamp s"
  using assms by (auto simp: can_preempt_def rt_is_realtime_def switch_to_def set_state_def thr_upd_def Let_def switched_def fun_eq_iff)

lemma switched_queue: "switched s s' c n \<Longrightarrow> queue_at s' xs = queue_at s xs"
  by (rule queue_at_cong) (simp_all add: switched_def)

lemma schedule_parts:
  assumes "\<not> rt_enabled s" and "rq_curr s = Some c" and "rq_idle s = Some i"
    and "s0 = s\<lparr>nr_schedule := nr_schedule s + 1\<rparr>" and "sched_dequeue_thread s0 = (s2, r)" and "n = (case r of None \<Rightarrow> i | Some t \<Rightarrow> t)"
    and "s3 = (if c \<noteq> i \<and> t_state (thr_at s c) = THREAD_STATE_RUNNING then append_tail s2 c else s2)"
    and "t_policy (thr_at s c) \<noteq> SCHED_FIFO"
  shows "sched_schedule s =
    (if c \<noteq> n then Option.bind (can_preempt s3 (Some n) (Some c)) (\<lambda>b. if b then switch_to s3 (Some c) (Some n) else Some s3) else Some s3)"
proof -
  have f: "s2 = fst (sched_dequeue_thread s0)" using assms(5) by simp
  have s2: "rq_idle s2 = Some i" "thr_at s2 = thr_at s" using assms(3,4) unfolding f by simp_all
  have "requeue_current s2 (Some c) = Some s3"
    using assms(7,8) s2 by (simp add: requeue_current_def sched_requeue_thread_def)
  moreover have "rt_schedule s0 = Some (s0, None)" "rq_curr s0 = Some c" using assms(1,2,4) by (simp_all add: rt_schedule_def)
  moreover have "(case r of None \<Rightarrow> rq_idle s2 | Some t \<Rightarrow> Some t) = Some n" using assms(6) s2 by (cases r) simp_all
  ultimately show ?thesis using assms(4,5) by (simp add: sched_schedule_def Let_def cong: if_cong)
qed

lemma states_after_switch:
  assumes "switched s s' c n" and "c \<noteq> n" and "states_ok s0 a" and "thr_at s = thr_at s0" and "c = a_cur a"
    and "threads_apart a" and "a' = next_thread a" and "n = a_cur a'" and "n \<noteq> a_idle a \<or> a_cur a \<noteq> a_idle a"
  shows "states_ok s' a'"
proof -
  have t: "t_state (thr_at s' x) = (if x = n then THREAD_STATE_RUNNING else if x = c then THREAD_STATE_READY else t_state (thr_at s0 x))"
      "t_policy (thr_at s' x) = t_policy (thr_at s0 x)" for x
    using assms(1-5) by (auto simp: switched_def states_ok_def)
  have q: "set (a_queue a') \<subseteq> insert c (set (a_queue a))" "n \<notin> set (a_queue a')" "n \<in> insert (a_idle a) (set (a_queue a))"
      "a_blocked a' = a_blocked a" "a_new a' = a_new a" "a_idle a' = a_idle a"
    using assms(2,5-9) by (auto simp: next_thread_def threads_apart_def split: list.splits if_splits)
  have ap: "c \<notin> a_blocked a" "c \<notin> a_new a" "n \<notin> a_blocked a" "n \<notin> a_new a"
    using assms(5,6) q(3) by (auto simp: threads_apart_def)
  have old: "t_state (thr_at s0 x) = THREAD_STATE_READY" if "x \<in> set (a_queue a) \<union> a_new a" for x
    using assms(3) that by (simp add: states_ok_def)
  have "t_state (thr_at s' x) = THREAD_STATE_READY" if "x \<in> set (a_queue a') \<union> a_new a'" for x
    using that old [of x] q(1,2,5) ap unfolding t by auto
  moreover have "t_state (thr_at s' x) = THREAD_STATE_BLOCKED" if "x \<in> a_blocked a'" for x
    using that assms(3) q(4) ap unfolding t by (auto simp: states_ok_def)
  moreover have "t_policy (thr_at s' x) \<noteq> SCHED_FIFO" if "x \<in> {a_idle a', n} \<union> set (a_queue a') \<union> a_blocked a' \<union> a_new a'" for x
  proof -
    have "x \<in> {a_idle a, a_cur a} \<union> set (a_queue a) \<union> a_blocked a \<union> a_new a" using that q assms(5) by auto
    then show ?thesis using assms(3) unfolding t states_ok_def by blast
  qed
  moreover have "t_state (thr_at s' n) = THREAD_STATE_RUNNING" unfolding t by simp
  ultimately show ?thesis unfolding states_ok_def assms(8) [symmetric] by blast
qed

text \<open>No thread has its priority or slice changed.\<close>

definition same_params :: "sched_state \<Rightarrow> sched_state \<Rightarrow> bool" where
  "same_params s s' \<longleftrightarrow> (\<forall>x. t_dynamic (thr_at s' x) = t_dynamic (thr_at s x) \<and> t_slice (thr_at s' x) = t_slice (thr_at s x))"

lemma schedule_rep:
  assumes rep: "sched_rep s a"
  shows "\<exists>s'. sched_schedule s = Some s' \<and> sched_rep s' (next_thread a) \<and> same_params s s'"
proof -
  define c i where "c = a_cur a" and "i = a_idle a"
  define s0 where "s0 = s\<lparr>nr_schedule := nr_schedule s + 1\<rparr>"
  obtain s2 r where d: "sched_dequeue_thread s0 = (s2, r)" by (cases "sched_dequeue_thread s0")
  define n where "n = (case r of None \<Rightarrow> i | Some t \<Rightarrow> t)"
  define s3 where "s3 = (if c \<noteq> i then append_tail s2 c else s2)"
  have R: "queue_at s0 (a_queue a)" "rq_curr s = Some c" "rq_idle s = Some i" "\<not> rt_enabled s" "threads_apart a" "states_ok s a"
      "unlinked s c" "unlinked s i" "running_count a < 2 ^ 32" "nr_running s = of_nat (running_count a)"
    using rep queue_at_cong [of s0 s] by (simp_all add: sched_rep_def c_def i_def s0_def)
  have pol: "t_policy (thr_at s c) \<noteq> SCHED_FIFO" "t_state (thr_at s c) = THREAD_STATE_RUNNING" using R(6) by (simp_all add: states_ok_def c_def)
  have f2: "s2 = fst (sched_dequeue_thread s0)" "r = snd (sched_dequeue_thread s0)" using d by simp_all
  have s2: "thr_at s2 = thr_at s" "rq_curr s2 = Some c" "rq_idle s2 = Some i" "\<not> rt_enabled s2" "nr_running s2 = nr_running s"
    using R unfolding f2 by (simp_all add: s0_def)
  have s3: "thr_at s3 = thr_at s" "rq_idle s3 = Some i" "\<not> rt_enabled s3" "nr_running s3 = nr_running s" using s2 by (simp_all add: s3_def)
  have sch: "sched_schedule s = (if c \<noteq> n then Option.bind (can_preempt s3 (Some n) (Some c)) (\<lambda>b. if b then switch_to s3 (Some c) (Some n) else Some s3) else Some s3)"
    by (rule schedule_parts [OF R(4,2,3) s0_def d n_def _ pol(1)]) (simp add: s3_def pol(2))
  have ap: "c \<notin> set (a_queue a)" "i \<notin> set (a_queue a)" "distinct (a_queue a)" using R(5) by (auto simp: threads_apart_def c_def i_def)
  have main: "queue_at s3 (a_queue (next_thread a)) \<and> a_cur (next_thread a) = n \<and> unlinked s3 n \<and> unlinked s3 i \<and> (c = n \<longrightarrow> next_thread a = a)"
  proof (cases "a_queue a")
    case Nil
    then have e: "s2 = s0" "n = i" using d R(1) runq.rep_get_empty [of s0] by (simp_all add: n_def)
    have u: "unlinked s0 i" using R(8) by (simp add: unlinked_def s0_def)
    have q: "queue_at s0 []" using R(1) Nil by simp
    show ?thesis
      using Nil e q u runq.rep_put [OF q, of c] unlinked_append [OF u q, of c] by (auto simp: next_thread_def s3_def c_def i_def)
  next
    case (Cons x xs)
    have q0: "queue_at s0 (x # xs)" using R(1) Cons by simp
    then have e: "n = x" "queue_at s2 xs" using runq.rep_get [OF q0] f2 by (simp_all add: n_def)
    have u: "unlinked s2 x" "unlinked s2 i" using unlinked_dequeue [OF q0] R(8) unfolding f2 by (simp_all add: unlinked_def s0_def)
    have ne: "x \<notin> set xs" "i \<notin> set xs" "c \<notin> set xs" "x \<noteq> c" "x \<noteq> i" using ap Cons by auto
    show ?thesis
      using Cons e u ne runq.rep_put [OF e(2) ne(3)] unlinked_append [OF u(1) e(2) ne(1,4)] unlinked_append [OF u(2) e(2) ne(2), of c]
      by (auto simp: next_thread_def s3_def c_def i_def)
  qed
  have i': "a_idle (next_thread a) = i" by (simp add: next_thread_def i_def split: list.split)
  show ?thesis
  proof (cases "c = n")
    case True
    have "states_ok s3 a" unfolding states_ok_def s3(1) using R(6) unfolding states_ok_def .
    moreover have "rq_curr s3 = Some c" using s2(2) by (simp add: s3_def)
    moreover have "queue_at s3 (a_queue a)" using main True by metis
    ultimately have "sched_rep s3 a"
      unfolding sched_rep_def c_def [symmetric] i_def [symmetric] using main True R(5,9,10) s3(2-4) by simp
    then have "sched_rep s3 (next_thread a)" using main True by simp
    then show ?thesis using sch True s3(1) by (simp add: same_params_def)
  next
    case False
    from switch_result [OF s3(3) False] pol(1) s3(1) obtain s' where
      s': "sched_schedule s = Some s'" "switched s3 s' c n" using sch False by auto
    have st: "states_ok s' (next_thread a)"
      by (rule states_after_switch [OF s'(2) False R(6) s3(1) c_def R(5) refl]) (use main False in \<open>auto simp: c_def i_def\<close>)
    have "queue_at s' (a_queue (next_thread a))" "unlinked s' n" "unlinked s' i" "rq_curr s' = Some n" "rq_idle s' = Some i" "\<not> rt_enabled s'"
        "nr_running s' = nr_running s" "same_params s s'"
      using main s3 s'(2) switched_queue [OF s'(2)] by (simp_all add: switched_def unlinked_def same_params_def)
    then show ?thesis
      using s'(1) st main i' next_thread_apart [OF R(5)] next_thread_count [OF R(5)] R(9,10) by (simp add: sched_rep_def)
  qed
qed

section \<open>Sequences of operations\<close>

text \<open>\<open>Block\<close> is for threads that are not running.\<close>

datatype sched_op = Add nat | Remove nat | Yield | Block nat | Unblock nat

definition op_exec :: "sched_state \<Rightarrow> sched_op \<Rightarrow> sched_state option" where
  "op_exec s p =
     (case p of
        Add t \<Rightarrow> Some (sched_add_thread s (Some t))
      | Remove t \<Rightarrow> Some (sched_remove_thread s (Some t))
      | Yield \<Rightarrow> sched_yield s
      | Block t \<Rightarrow> sched_block_thread s (Some t)
      | Unblock t \<Rightarrow> sched_unblock_thread s (Some t))"

definition op_enabled :: "asched \<Rightarrow> sched_op \<Rightarrow> bool" where
  "op_enabled a p =
     (case p of
        Add t \<Rightarrow> t \<in> a_new a \<and> running_count a + 1 < 2 ^ 32
      | Remove t \<Rightarrow> t \<in> set (a_queue a)
      | Yield \<Rightarrow> True
      | Block t \<Rightarrow> t \<in> set (a_queue a)
      | Unblock t \<Rightarrow> t \<in> a_blocked a \<and> running_count a + 1 < 2 ^ 32)"

text \<open>\<open>prio\<close> is the dynamic priority; a thread that is unblocked runs at once if it has a smaller one than the current thread.\<close>

definition op_abs :: "(nat \<Rightarrow> int) \<Rightarrow> asched \<Rightarrow> sched_op \<Rightarrow> asched" where
  "op_abs prio a p =
     (case p of
        Add t \<Rightarrow> a\<lparr>a_queue := a_queue a @ [t], a_new := a_new a - {t}\<rparr>
      | Remove t \<Rightarrow> a\<lparr>a_queue := remove1 t (a_queue a), a_new := insert t (a_new a)\<rparr>
      | Yield \<Rightarrow> next_thread a
      | Block t \<Rightarrow> a\<lparr>a_queue := remove1 t (a_queue a), a_blocked := insert t (a_blocked a)\<rparr>
      | Unblock t \<Rightarrow>
          let a1 = a\<lparr>a_queue := a_queue a @ [t], a_blocked := a_blocked a - {t}\<rparr>
          in if a_cur a = a_idle a \<or> prio t < prio (a_cur a) then next_thread a1 else a1)"

lemma put_ready:
  assumes rep: "sched_rep s a" and t: "t \<in> a_new a \<union> a_blocked a" and n: "running_count a + 1 < 2 ^ 32"
    and s1: "s1 = set_state s t THREAD_STATE_READY"
    and a1: "a1 = a\<lparr>a_queue := a_queue a @ [t], a_new := a_new a - {t}, a_blocked := a_blocked a - {t}\<rparr>"
  shows "sched_rep (sched_add_thread s1 (Some t)) a1"
proof -
  have R: "queue_at s (a_queue a)" "threads_apart a" "states_ok s a" "unlinked s (a_cur a)" "unlinked s (a_idle a)"
      "nr_running s = of_nat (running_count a)"
    using rep by (simp_all add: sched_rep_def)
  have q1: "queue_at s1 (a_queue a)" "unlinked s1 (a_cur a)" "unlinked s1 (a_idle a)"
    using R queue_at_cong [of s1 s] by (simp_all add: s1 set_state_def thr_upd_def unlinked_def)
  have ne: "t \<notin> set (a_queue a)" "a_cur a \<noteq> t" "a_idle a \<noteq> t" "a_cur a \<notin> set (a_queue a)" "a_idle a \<notin> set (a_queue a)"
    using R(2) t by (auto simp: threads_apart_def)
  have st: "thr_at s1 = (thr_at s)(t := (thr_at s t)\<lparr>t_state := THREAD_STATE_READY\<rparr>)" by (simp add: s1 set_state_def thr_upd_def)
  define s2 where "s2 = sched_add_thread s1 (Some t)"
  have s2: "s2 = (append_tail s1 t)\<lparr>nr_running := nr_running s1 + 1\<rparr>" by (simp add: s2_def sched_add_thread_def st Let_def)
  have "queue_at s2 (a_queue a1)" using runq.rep_put [OF q1(1) ne(1)] queue_at_cong [of s2 "append_tail s1 t"] by (simp add: s2 a1)
  moreover have "unlinked s2 (a_cur a1)" "unlinked s2 (a_idle a1)"
    using unlinked_append [OF q1(2,1) ne(4,2)] unlinked_append [OF q1(3,1) ne(5,3)] by (simp_all add: s2 a1 unlinked_def)
  moreover have "threads_apart a1" using R(2) ne t by (auto simp: threads_apart_def a1)
  moreover have "states_ok s2 a1" using R(3) ne t unfolding states_ok_def by (simp add: s2 a1 st) blast
  moreover have "running_count a1 = running_count a + 1" by (simp add: running_count_def a1)
  moreover have "nr_running s1 = nr_running s" by (simp add: s1 set_state_def thr_upd_def)
  ultimately show ?thesis
    using rep n R(6) unfolding sched_rep_def s2_def [symmetric] by (simp add: s2 s1 a1 set_state_def thr_upd_def)
qed

lemma set_state_same: "t_state (thr_at s t) = v \<Longrightarrow> set_state s t v = s"
  by (simp add: set_state_def thr_upd_def fun_upd_idem)

text \<open>Taking a ready thread off the queue, to \<open>v\<close> as its new state.\<close>

lemma take_ready:
  assumes rep: "sched_rep s a" and t: "t \<in> set (a_queue a)" and s1: "s1 = set_state s t v"
    and a1: "a1 = a\<lparr>a_queue := remove1 t (a_queue a), a_new := N, a_blocked := B\<rparr>"
    and v: "v = THREAD_STATE_READY \<and> N = insert t (a_new a) \<and> B = a_blocked a \<or> v = THREAD_STATE_BLOCKED \<and> N = a_new a \<and> B = insert t (a_blocked a)"
  shows "sched_rep (sched_remove_thread s1 (Some t)) a1"
proof -
  have R: "queue_at s (a_queue a)" "threads_apart a" "states_ok s a" "unlinked s (a_cur a)" "unlinked s (a_idle a)"
      "nr_running s = of_nat (running_count a)" "running_count a < 2 ^ 32"
    using rep by (simp_all add: sched_rep_def)
  have q1: "queue_at s1 (a_queue a)" "unlinked s1 (a_cur a)" "unlinked s1 (a_idle a)"
    using R queue_at_cong [of s1 s] by (simp_all add: s1 set_state_def thr_upd_def unlinked_def)
  have ne: "a_cur a \<noteq> t" "a_idle a \<noteq> t" "a_cur a \<notin> set (a_queue a)" "a_idle a \<notin> set (a_queue a)" "distinct (a_queue a)"
      "t \<notin> a_new a" "t \<notin> a_blocked a"
    using R(2) t by (auto simp: threads_apart_def)
  have st: "thr_at s1 = (thr_at s)(t := (thr_at s t)\<lparr>t_state := v\<rparr>)" by (simp add: s1 set_state_def thr_upd_def)
  define s2 where "s2 = sched_remove_thread s1 (Some t)"
  have "queue_at s2 (a_queue a1)" using runq.drop_member [OF q1(1) t] by (simp add: s2_def a1)
  moreover have "unlinked s2 (a_cur a1)" "unlinked s2 (a_idle a1)"
    using unlinked_remove [OF q1(1) t q1(2) ne(1,3)] unlinked_remove [OF q1(1) t q1(3) ne(2,4)] by (simp_all add: s2_def a1)
  moreover have "threads_apart a1" using R(2) ne v by (auto simp: threads_apart_def a1)
  moreover have "states_ok s2 a1"
    using R(3) ne t v unfolding states_ok_def by (simp add: s2_def a1 st) blast
  moreover have c: "running_count a1 + 1 = running_count a" using length_pos_if_in_set [OF t] t by (simp add: running_count_def a1 length_remove1)
  moreover have "nr_running s2 = of_nat (running_count a1)"
  proof -
    have n1: "nr_running s1 = of_nat (running_count a1) + 1" using R(6) c by (simp add: s1 set_state_def thr_upd_def flip: c)
    have "unat (nr_running s1) = running_count a"
      using R(6,7) by (simp add: s1 set_state_def thr_upd_def unsigned_of_nat take_bit_nat_eq_self)
    then have "nr_running s1 > 0" using c by (simp add: word_less_nat_alt)
    then show ?thesis using n1 by (simp add: s2_def remove_running)
  qed
  ultimately show ?thesis
    using rep R(7) unfolding sched_rep_def s2_def [symmetric] by (simp add: s2_def s1 a1 set_state_def thr_upd_def)
qed

lemma op_simulated:
  assumes rep: "sched_rep s a" and en: "op_enabled a p"
  shows "\<exists>s'. op_exec s p = Some s' \<and> sched_rep s' (op_abs (\<lambda>t. t_dynamic (thr_at s t)) a p) \<and> same_params s s'"
proof (cases p)
  case (Add t)
  have t: "t \<in> a_new a" "running_count a + 1 < 2 ^ 32" using en Add by (simp_all add: op_enabled_def)
  then have r: "t_state (thr_at s t) = THREAD_STATE_READY" "t \<notin> a_blocked a" using rep by (auto simp: sched_rep_def states_ok_def threads_apart_def)
  have "sched_rep (sched_add_thread s (Some t)) (op_abs (\<lambda>t. t_dynamic (thr_at s t)) a p)"
    by (rule put_ready [OF rep _ t(2) set_state_same [OF r(1), symmetric]]) (use t r Add in \<open>simp_all add: op_abs_def\<close>)
  then show ?thesis using Add by (simp add: op_exec_def same_params_def sched_add_thread_def Let_def)
next
  case (Remove t)
  have t: "t \<in> set (a_queue a)" using en Remove by (simp add: op_enabled_def)
  then have r: "t_state (thr_at s t) = THREAD_STATE_READY" using rep by (simp add: sched_rep_def states_ok_def)
  have "sched_rep (sched_remove_thread s (Some t)) (op_abs (\<lambda>t. t_dynamic (thr_at s t)) a p)"
    by (rule take_ready [where N = "insert t (a_new a)" and B = "a_blocked a", OF rep t set_state_same [OF r, symmetric]]) (use Remove in \<open>simp_all add: op_abs_def\<close>)
  then show ?thesis using Remove by (simp add: op_exec_def same_params_def)
next
  case Yield
  then show ?thesis using schedule_rep [OF rep] by (auto simp: op_exec_def op_abs_def sched_yield_def same_params_def)
next
  case (Block t)
  have t: "t \<in> set (a_queue a)" using en Block by (simp add: op_enabled_def)
  define s1 where "s1 = set_state s t THREAD_STATE_BLOCKED"
  have "sched_rep (sched_remove_thread s1 (Some t)) (op_abs (\<lambda>t. t_dynamic (thr_at s t)) a p)"
    by (rule take_ready [where N = "a_new a" and B = "insert t (a_blocked a)", OF rep t s1_def]) (use Block in \<open>simp_all add: op_abs_def\<close>)
  moreover have "rq_curr s1 = Some (a_cur a)" "a_cur a \<noteq> t" "same_params s s1"
    using rep t by (auto simp: s1_def set_state_def thr_upd_def sched_rep_def threads_apart_def same_params_def)
  ultimately show ?thesis using Block by (simp add: op_exec_def sched_block_thread_def s1_def [symmetric] Let_def same_params_def)
next
  case (Unblock t)
  have t: "t \<in> a_blocked a" "running_count a + 1 < 2 ^ 32" using en Unblock by (simp_all add: op_enabled_def)
  define s1 where "s1 = set_state s t THREAD_STATE_READY"
  define s2 where "s2 = sched_add_thread s1 (Some t)"
  define a1 where "a1 = a\<lparr>a_queue := a_queue a @ [t], a_blocked := a_blocked a - {t}\<rparr>"
  have b: "t_state (thr_at s t) = THREAD_STATE_BLOCKED" "t \<notin> a_new a" using rep t by (auto simp: sched_rep_def states_ok_def threads_apart_def)
  have r2: "sched_rep s2 a1" unfolding s2_def by (rule put_ready [OF rep _ t(2) s1_def]) (use t b in \<open>simp_all add: a1_def\<close>)
  have p2: "t_dynamic (thr_at s2 x) = t_dynamic (thr_at s x)" "t_slice (thr_at s2 x) = t_slice (thr_at s x)" for x
    by (simp_all add: s2_def sched_add_thread_def Let_def s1_def set_state_def thr_upd_def)
  have c: "rq_curr s2 = Some (a_cur a)" "rq_idle s2 = Some (a_idle a)" "\<not> rt_enabled s2" "t_policy (thr_at s2 (a_cur a)) \<noteq> SCHED_FIFO"
    using r2 by (simp_all add: sched_rep_def states_ok_def a1_def)
  have chk: "op_exec s p = (if a_cur a = a_idle a \<or> t_dynamic (thr_at s t) < t_dynamic (thr_at s (a_cur a)) then sched_schedule s2 else Some s2)"
    using Unblock b c p2
    by (simp add: op_exec_def sched_unblock_thread_def s1_def [symmetric] s2_def [symmetric] sched_check_preempt_def rt_is_realtime_def Let_def)
  from schedule_rep [OF r2] obtain s3 where s3: "sched_schedule s2 = Some s3" "sched_rep s3 (next_thread a1)" "same_params s s3"
    using p2 by (auto simp: same_params_def)
  show ?thesis using chk s3 r2 p2 Unblock by (simp add: op_abs_def a1_def [symmetric] Let_def same_params_def)
qed

fun ops_exec :: "sched_state \<Rightarrow> sched_op list \<Rightarrow> sched_state option" where
  "ops_exec s [] = Some s"
| "ops_exec s (p # ps) = Option.bind (op_exec s p) (\<lambda>s'. ops_exec s' ps)"

fun ops_abs :: "(nat \<Rightarrow> int) \<Rightarrow> asched \<Rightarrow> sched_op list \<Rightarrow> asched" where
  "ops_abs prio a [] = a"
| "ops_abs prio a (p # ps) = ops_abs prio (op_abs prio a p) ps"

fun ops_enabled :: "(nat \<Rightarrow> int) \<Rightarrow> asched \<Rightarrow> sched_op list \<Rightarrow> bool" where
  "ops_enabled prio a [] = True"
| "ops_enabled prio a (p # ps) = (op_enabled a p \<and> ops_enabled prio (op_abs prio a p) ps)"

lemma ops_simulated:
  "sched_rep s a \<Longrightarrow> ops_enabled (\<lambda>t. t_dynamic (thr_at s t)) a ps \<Longrightarrow>
   \<exists>s'. ops_exec s ps = Some s' \<and> sched_rep s' (ops_abs (\<lambda>t. t_dynamic (thr_at s t)) a ps) \<and> same_params s s'"
proof (induction ps arbitrary: s a)
  case (Cons p ps)
  from op_simulated [OF Cons.prems(1)] Cons.prems(2) obtain s1 where
    s1: "op_exec s p = Some s1" "sched_rep s1 (op_abs (\<lambda>t. t_dynamic (thr_at s t)) a p)" "same_params s s1" by auto
  then have "(\<lambda>t. t_dynamic (thr_at s1 t)) = (\<lambda>t. t_dynamic (thr_at s t))" by (simp add: same_params_def)
  with Cons.IH [OF s1(2)] Cons.prems(2) s1(1,3) show ?case by (auto simp: same_params_def)
qed (simp add: same_params_def)

lemma yields_rotate:
  assumes "a_cur a \<noteq> a_idle a" and "a_idle a \<notin> set (a_queue a)" and "a_queue a \<noteq> []"
  shows "a_cur (ops_abs prio a (replicate n Yield)) # a_queue (ops_abs prio a (replicate n Yield)) = rotate n (a_cur a # a_queue a)"
  using assms
proof (induction n arbitrary: a)
  case (Suc n)
  obtain x xs where x: "a_queue a = x # xs" using Suc.prems(3) by (cases "a_queue a") auto
  then have n: "a_cur (next_thread a) = x" "a_queue (next_thread a) = xs @ [a_cur a]" "a_idle (next_thread a) = a_idle a"
    using Suc.prems(1) by (simp_all add: next_thread_def)
  have "rotate (Suc n) (a_cur a # a_queue a) = rotate n (rotate1 (a_cur a # a_queue a))" by (simp add: rotate_def funpow_swap1)
  with Suc.IH [of "next_thread a"] Suc.prems(1,2) n x show ?case by (simp add: op_abs_def)
qed simp

lemma yields_enabled: "ops_enabled prio a (replicate n Yield)"
  by (induction n arbitrary: a) (simp_all add: op_enabled_def)

text \<open>The start: the scheduler is initialised and real-time scheduling is switched off.\<close>

definition sched_boot :: "sched_state \<Rightarrow> nat \<Rightarrow> u64 \<Rightarrow> u64 \<Rightarrow> sched_state" where
  "sched_boot s i now now' = fst (rt_enable (sched_init (rt_init s) (Some i) now now') 0)"

definition boot_abs :: "nat \<Rightarrow> nat set \<Rightarrow> asched" where
  "boot_abs i N = \<lparr>a_idle = i, a_cur = i, a_queue = [], a_blocked = {}, a_new = N\<rparr>"

definition may_add :: "sched_state \<Rightarrow> nat \<Rightarrow> bool" where
  "may_add s t \<longleftrightarrow> t_state (thr_at s t) = THREAD_STATE_READY \<and> t_policy (thr_at s t) \<noteq> SCHED_FIFO"

lemma boot_rep:
  assumes "i \<notin> N" and "\<forall>t\<in>N. may_add s t"
  shows "sched_rep (sched_boot s i now now') (boot_abs i N)"
proof -
  have "thr_at (sched_boot s i now now') = (thr_at s)(i := idle_record now')"
    by (simp add: sched_boot_def rt_enable_def sched_init_def rt_init_def)
  then have "states_ok (sched_boot s i now now') (boot_abs i N)"
    using assms by (auto simp: states_ok_def boot_abs_def may_add_def idle_record_def sched_consts)
  then show ?thesis
    using assms(1) by (simp add: sched_rep_def boot_abs_def threads_apart_def running_count_def queue_at_def unlinked_def
        sched_boot_def rt_enable_def sched_init_def rt_init_def)
qed

section \<open>The tick\<close>







section \<open>Claims\<close>

text \<open>
  C21. The scheduler refines the abstract one, for fewer than \<open>2 ^ 32\<close> threads none of which has the policy
  \<^verbatim>\<open>SCHED_FIFO\<close>. After initialisation with real-time scheduling off, every sequence of yields and of operations
  that add ready threads once, remove or block threads of the run queue, and unblock blocked threads
  returns; the run queue is then the linked list of exactly the ready threads in order, the current thread
  is the one the abstract scheduler runs, the states agree and the counter is the number of these threads.
\<close>

theorem sched_refines:
  assumes "i \<notin> N" and "\<forall>t\<in>N. may_add s t" and "prio = (\<lambda>t. t_dynamic (thr_at (sched_boot s i now now') t))"
    and "ops_enabled prio (boot_abs i N) ps" and "a = ops_abs prio (boot_abs i N) ps"
  shows "\<exists>s'. ops_exec (sched_boot s i now now') ps = Some s' \<and> sched_rep s' a"
  using ops_simulated [OF boot_rep [OF assms(1,2)], of now now' ps] assms(3-5) by auto

definition two_threads :: "u64 \<Rightarrow> sched_state" where
  "two_threads v = \<lparr>nr_running = 0, nr_switches = 0, nr_schedule = 0, curr_timestamp = 0, last_timestamp = 0, rq_active = None,
     rq_curr = None, rq_idle = None, rq_head = None, rq_tail = None, rq_bitmap = 0,
     thr_at = (\<lambda>_. (idle_record 0)\<lparr>t_state := 1, t_policy := 0, t_slice := v\<rparr>), th_next = (\<lambda>_. None), th_prev = (\<lambda>_. None),
     rt_enabled = True, rt_runtime = 0, rt_period = 0, rt_prio_base = 0, rt_schedule_count = 0, rt_yield_count = 0,
     rt_boost_count = 0, rt_throttle_count = 0\<rparr>"

lemma two_threads_may_add: "\<forall>t\<in>{1, 2}. may_add (two_threads v) t"
  by (simp add: may_add_def two_threads_def sched_consts idle_record_def)

theorem sched_refines_witness:
  "\<exists>s'. ops_exec (sched_boot (two_threads 100) 0 0 0) [Add 1, Add 2, Yield, Block 2, Unblock 2, Yield] = Some s' \<and> rq_curr s' = Some 2"
proof -
  have p: "t_dynamic (thr_at (sched_boot (two_threads 100) 0 0 0) t) = 139" for t
    by (simp add: sched_boot_def rt_enable_def sched_init_def rt_init_def two_threads_def idle_record_def sched_consts)
  show ?thesis
    using sched_refines [OF _ two_threads_may_add [of 100] refl, of 0 0 0 "[Add 1, Add 2, Yield, Block 2, Unblock 2, Yield]"]
    by (simp add: p boot_abs_def op_enabled_def op_abs_def next_thread_def running_count_def sched_rep_def) auto
qed

text \<open>
  C22. Yielding is fair, with real-time scheduling off and no thread of the policy \<^verbatim>\<open>SCHED_FIFO\<close>, in every
  state that represents an abstract one. While a thread other than the idle one runs, the thread at position \<open>k\<close> of the run queue runs after \<open>k + 1\<close> yields,
  and after as many yields as there are threads everything is as before.
\<close>

theorem yield_fair:
  assumes "sched_rep s a" and "a_cur a \<noteq> a_idle a" and "k < length (a_queue a)"
  shows "\<exists>s' s'' a''. ops_exec s (replicate (k + 1) Yield) = Some s' \<and> rq_curr s' = Some (a_queue a ! k) \<and>
      t_state (thr_at s' (a_queue a ! k)) = THREAD_STATE_RUNNING \<and>
    ops_exec s (replicate (length (a_queue a) + 1) Yield) = Some s'' \<and> sched_rep s'' a'' \<and> a_cur a'' = a_cur a \<and> a_queue a'' = a_queue a"
proof -
  let ?prio = "\<lambda>t. t_dynamic (thr_at s t)" and ?l = "a_cur a # a_queue a"
  have i: "a_idle a \<notin> set (a_queue a)" "a_queue a \<noteq> []" using assms(1,3) by (auto simp: sched_rep_def threads_apart_def)
  note rot = yields_rotate [OF assms(2) i, of ?prio]
  note sim = ops_simulated [OF assms(1) yields_enabled]
  from sim [of "k + 1"] obtain s' where s': "ops_exec s (replicate (k + 1) Yield) = Some s'"
    "sched_rep s' (ops_abs ?prio a (replicate (k + 1) Yield))" by blast
  have "a_cur (ops_abs ?prio a (replicate (k + 1) Yield)) = hd (rotate (k + 1) ?l)" using rot [of "k + 1"] by (metis list.sel(1))
  also have "\<dots> = a_queue a ! k" using assms(3) by (simp add: hd_rotate_conv_nth del: rotate_Suc)
  finally have c: "rq_curr s' = Some (a_queue a ! k)" "t_state (thr_at s' (a_queue a ! k)) = THREAD_STATE_RUNNING"
    using s'(2) by (auto simp: sched_rep_def states_ok_def)
  from sim [of "length (a_queue a) + 1"] obtain s'' where s'': "ops_exec s (replicate (length (a_queue a) + 1) Yield) = Some s''"
    "sched_rep s'' (ops_abs ?prio a (replicate (length (a_queue a) + 1) Yield))" by blast
  have "rotate (length (a_queue a) + 1) ?l = ?l" using rotate_id [of "length ?l" ?l] by simp
  with rot [of "length (a_queue a) + 1"] show ?thesis using s'(1) c s'' by (metis list.inject)
qed

text \<open>A state in which thread 1 runs with \<open>v\<close> ticks left, thread 2 waits and 0 is the idle thread.\<close>

definition one_runs :: asched where
  "one_runs = \<lparr>a_idle = 0, a_cur = 1, a_queue = [2], a_blocked = {}, a_new = {}\<rparr>"

lemma sample_running:
  "\<exists>s. ops_exec (sched_boot (two_threads v) 0 0 0) [Add 1, Add 2, Yield] = Some s \<and> sched_rep s one_runs \<and> t_slice (thr_at s 1) = v"
proof -
  have "t_slice (thr_at (sched_boot (two_threads v) 0 0 0) 1) = v"
    by (simp add: sched_boot_def rt_enable_def sched_init_def rt_init_def two_threads_def)
  then show ?thesis
    using ops_simulated [OF boot_rep [OF _ two_threads_may_add [of v], where i = 0], of 0 0 "[Add 1, Add 2, Yield]"]
    by (simp add: boot_abs_def op_enabled_def op_abs_def next_thread_def running_count_def one_runs_def same_params_def) auto
qed

theorem yield_fair_witness:
  "\<exists>s s'. ops_exec (sched_boot (two_threads 100) 0 0 0) [Add 1, Add 2, Yield] = Some s \<and> ops_exec s [Yield] = Some s' \<and> rq_curr s' = Some 2"
proof -
  from sample_running [of 100] obtain s where s: "ops_exec (sched_boot (two_threads 100) 0 0 0) [Add 1, Add 2, Yield] = Some s" "sched_rep s one_runs" by blast
  from yield_fair [OF s(2), of 0] obtain s' where "ops_exec s (replicate 1 Yield) = Some s'" "rq_curr s' = Some 2" by (auto simp: one_runs_def)
  then show ?thesis using s(1) by auto
qed







text \<open>
  Nothing is scheduled as the kernel starts. Real-time scheduling is on after \<^verbatim>\<open>rt_init\<close>, and its array of active lists is
  never set: starting the scheduler, or making a blocked thread ready while the idle thread runs, follows a null pointer.
\<close>

theorem sched_start_faults:
  assumes "s = sched_init (rt_init s0) (Some i) now now'"
  shows "sched_start s = None \<and> (t_state (thr_at s t) = THREAD_STATE_BLOCKED \<longrightarrow> sched_unblock_thread s (Some t) = None)"
proof -
  have z: "rt_schedule s1 = None" if "rt_enabled s1" "rq_active s1 = None" for s1 using that by (simp add: rt_schedule_def)
  have f: "sched_schedule s1 = None" if "rt_enabled s1" "rq_active s1 = None" for s1
    using z [of "s1\<lparr>nr_schedule := nr_schedule s1 + 1\<rparr>"] that by (simp add: sched_schedule_def Let_def)
  have s: "rt_enabled s" "rq_active s = None" "rq_curr s = rq_idle s" using assms by (simp_all add: sched_init_def rt_init_def)
  have "rt_enabled (append_tail s1 t) = rt_enabled s1" "rq_active (append_tail s1 t) = rq_active s1" for s1
    by (simp_all add: append_tail_def split: option.split)
  then have "sched_check_preempt (sched_add_thread (set_state s t THREAD_STATE_READY) (Some t)) (Some t) = None"
    using s f by (simp add: sched_check_preempt_def sched_add_thread_def set_state_def thr_upd_def Let_def)
  then show ?thesis using f s by (simp add: sched_start_def sched_unblock_thread_def)
qed

theorem sched_start_faults_witness:
  "sched_start (sched_init (rt_init (two_threads 100)) (Some 0) 5 6) = None"
  using sched_start_faults [OF refl, of "two_threads 100" 0 5 6] by simp

text \<open>With the constants in force in \<^verbatim>\<open>sched.c\<close> every priority is out of range.\<close>

lemma set_priority_no_effect: "sched_set_priority s thread priority = s"
  by (auto simp: sched_set_priority_def sched_consts split: option.split)

lemma set_policy_params:
  assumes "policy \<le> SCHED_DEADLINE" and "s' = sched_set_policy s (Some t) policy"
  shows "t_policy (thr_at s' t) = policy" and "(t_static (thr_at s' t), t_slice (thr_at s' t)) = policy_values policy"
    and "t_dynamic (thr_at s' t) = t_static (thr_at s' t)" and "x \<noteq> t \<Longrightarrow> thr_at s' x = thr_at s x"
  using assms by (auto simp: sched_set_policy_def sched_update_thread_def sched_update_priority_def sched_update_timeslice_def
      sched_update_policy_def sched_update_affinity_def thr_upd_def Let_def not_less split: prod.split)

end
