(* ===== verification/String_Lib.thy ===== *)
theory String_Lib
  imports Horizon_Prelude
begin

text \<open>
  The string and memory routines of \<^verbatim>\<open>lib/string.c\<close>. Memory is a partial map from addresses to
  bytes; reading or writing an address that is not mapped has no result, and neither has a loop
  that does not end (both \<^const>\<open>None\<close>). \<^verbatim>\<open>char\<close> is signed, so the differences \<^verbatim>\<open>strcmp\<close> and
  \<^verbatim>\<open>strncmp\<close> return are differences of signed bytes, those of \<^verbatim>\<open>memcmp\<close> of unsigned ones.
\<close>

section \<open>Memory\<close>

type_synonym memory = "nat \<Rightarrow> u8 option"

definition store :: "memory \<Rightarrow> nat \<Rightarrow> u8 \<Rightarrow> memory option" where
  "store m a v = (case m a of None \<Rightarrow> None | Some _ \<Rightarrow> Some (m(a \<mapsto> v)))"

section \<open>Copying strings\<close>

partial_function (option) copy_string :: "memory \<Rightarrow> nat \<Rightarrow> nat \<Rightarrow> memory option" where
  "copy_string m d s =
     Option.bind (m s) (\<lambda>c. Option.bind (store m d c) (\<lambda>m'.
       if c \<noteq> 0 then copy_string m' (d + 1) (s + 1) else Some m'))"

definition strcpy :: "memory \<Rightarrow> nat \<Rightarrow> nat \<Rightarrow> (memory \<times> nat) option" where
  "strcpy m dest src = Option.bind (copy_string m dest src) (\<lambda>m'. Some (m', dest))"

fun strncpy_copy :: "memory \<Rightarrow> nat \<Rightarrow> nat \<Rightarrow> nat \<Rightarrow> (memory \<times> nat \<times> nat) option" where
  "strncpy_copy m d s 0 = Some (m, d, 0)"
| "strncpy_copy m d s (Suc n) =
     Option.bind (m s) (\<lambda>c. Option.bind (store m d c) (\<lambda>m'.
       if c \<noteq> 0 then strncpy_copy m' (d + 1) (s + 1) n else Some (m', d + 1, Suc n)))"

fun strncpy_pad :: "memory \<Rightarrow> nat \<Rightarrow> nat \<Rightarrow> memory option" where
  "strncpy_pad m d 0 = Some m"
| "strncpy_pad m d (Suc n) = Option.bind (store m d 0) (\<lambda>m'. strncpy_pad m' (d + 1) n)"

definition strncpy :: "memory \<Rightarrow> nat \<Rightarrow> nat \<Rightarrow> nat \<Rightarrow> (memory \<times> nat) option" where
  "strncpy m dest src n =
     Option.bind (strncpy_copy m dest src n) (\<lambda>(m1, d, n1).
     Option.bind (strncpy_pad m1 d n1) (\<lambda>m2. Some (m2, dest)))"

partial_function (option) string_end :: "memory \<Rightarrow> nat \<Rightarrow> nat option" where
  "string_end m p = Option.bind (m p) (\<lambda>c. if c \<noteq> 0 then string_end m (p + 1) else Some p)"

definition strcat :: "memory \<Rightarrow> nat \<Rightarrow> nat \<Rightarrow> (memory \<times> nat) option" where
  "strcat m dest src =
     Option.bind (string_end m dest) (\<lambda>d.
     Option.bind (copy_string m d src) (\<lambda>m'. Some (m', dest)))"

fun strncat_copy :: "memory \<Rightarrow> nat \<Rightarrow> nat \<Rightarrow> nat \<Rightarrow> (memory \<times> nat) option" where
  "strncat_copy m d s 0 = Some (m, d)"
| "strncat_copy m d s (Suc n) =
     Option.bind (m s) (\<lambda>c. Option.bind (store m d c) (\<lambda>m'.
       if c \<noteq> 0 then strncat_copy m' (d + 1) (s + 1) n else Some (m', d)))"

definition strncat :: "memory \<Rightarrow> nat \<Rightarrow> nat \<Rightarrow> nat \<Rightarrow> (memory \<times> nat) option" where
  "strncat m dest src n =
     Option.bind (string_end m dest) (\<lambda>d.
     Option.bind (strncat_copy m d src n) (\<lambda>(m1, d1).
     Option.bind (store m1 d1 0) (\<lambda>m2. Some (m2, dest))))"

section \<open>Comparing and searching\<close>

partial_function (option) strcmp :: "memory \<Rightarrow> nat \<Rightarrow> nat \<Rightarrow> int option" where
  "strcmp m s1 s2 =
     Option.bind (m s1) (\<lambda>a.
       if a \<noteq> 0 then
         Option.bind (m s2) (\<lambda>b. if a = b then strcmp m (s1 + 1) (s2 + 1) else Some (sint a - sint b))
       else Option.bind (m s2) (\<lambda>b. Some (sint a - sint b)))"

fun strncmp :: "memory \<Rightarrow> nat \<Rightarrow> nat \<Rightarrow> nat \<Rightarrow> int option" where
  "strncmp m s1 s2 0 = Some 0"
| "strncmp m s1 s2 (Suc n) =
     Option.bind (m s1) (\<lambda>a.
       if a \<noteq> 0 then
         Option.bind (m s2) (\<lambda>b. if a = b then strncmp m (s1 + 1) (s2 + 1) n else Some (sint a - sint b))
       else Option.bind (m s2) (\<lambda>b. Some (sint a - sint b)))"

definition strlen :: "memory \<Rightarrow> nat \<Rightarrow> nat option" where
  "strlen m s = Option.bind (string_end m s) (\<lambda>p. Some (p - s))"

text \<open>
  The byte read is promoted to \<^verbatim>\<open>int\<close> before it is compared with \<open>c\<close>. A null result is the
  inner \<^const>\<open>None\<close>.
\<close>

partial_function (option) strchr :: "memory \<Rightarrow> nat \<Rightarrow> int \<Rightarrow> nat option option" where
  "strchr m s c =
     Option.bind (m s) (\<lambda>a.
       if a \<noteq> 0 then if sint a = c then Some (Some s) else strchr m (s + 1) c
       else if c = 0 then Some (Some s) else Some None)"

partial_function (option) strstr_loop :: "memory \<Rightarrow> nat \<Rightarrow> nat \<Rightarrow> nat \<Rightarrow> nat option option" where
  "strstr_loop m haystack needle needle_len =
     Option.bind (m haystack) (\<lambda>a.
       if a \<noteq> 0 then
         Option.bind (m needle) (\<lambda>b.
         Option.bind (if a = b then map_option (\<lambda>r. r = 0) (strncmp m haystack needle needle_len)
                      else Some False) (\<lambda>hit.
           if hit then Some (Some haystack) else strstr_loop m (haystack + 1) needle needle_len))
       else Some None)"

definition strstr :: "memory \<Rightarrow> nat \<Rightarrow> nat \<Rightarrow> nat option option" where
  "strstr m haystack needle =
     Option.bind (strlen m needle) (\<lambda>needle_len.
       if needle_len = 0 then Some (Some haystack) else strstr_loop m haystack needle needle_len)"

section \<open>Memory blocks\<close>

fun copy_up :: "memory \<Rightarrow> nat \<Rightarrow> nat \<Rightarrow> nat \<Rightarrow> memory option" where
  "copy_up m d s 0 = Some m"
| "copy_up m d s (Suc n) =
     Option.bind (m s) (\<lambda>c. Option.bind (store m d c) (\<lambda>m'. copy_up m' (d + 1) (s + 1) n))"

text \<open>The pointers move down; after the last byte they are not used again.\<close>

fun copy_down :: "memory \<Rightarrow> nat \<Rightarrow> nat \<Rightarrow> nat \<Rightarrow> memory option" where
  "copy_down m d s 0 = Some m"
| "copy_down m d s (Suc n) =
     Option.bind (m s) (\<lambda>c. Option.bind (store m d c) (\<lambda>m'. copy_down m' (d - 1) (s - 1) n))"

definition memcpy :: "memory \<Rightarrow> nat \<Rightarrow> nat \<Rightarrow> nat \<Rightarrow> (memory \<times> nat) option" where
  "memcpy m dest src n = Option.bind (copy_up m dest src n) (\<lambda>m'. Some (m', dest))"

definition memmove :: "memory \<Rightarrow> nat \<Rightarrow> nat \<Rightarrow> nat \<Rightarrow> (memory \<times> nat) option" where
  "memmove m dest src n =
     Option.bind
       (if dest < src then copy_up m dest src n
        else if dest > src then copy_down m (dest + n - 1) (src + n - 1) n
        else Some m) (\<lambda>m'. Some (m', dest))"

fun memcmp :: "memory \<Rightarrow> nat \<Rightarrow> nat \<Rightarrow> nat \<Rightarrow> int option" where
  "memcmp m p1 p2 0 = Some 0"
| "memcmp m p1 p2 (Suc n) =
     Option.bind (m p1) (\<lambda>a. Option.bind (m p2) (\<lambda>b.
       if a \<noteq> b then Some (uint a - uint b) else memcmp m (p1 + 1) (p2 + 1) n))"

fun memset_loop :: "memory \<Rightarrow> nat \<Rightarrow> int \<Rightarrow> nat \<Rightarrow> memory option" where
  "memset_loop m p c 0 = Some m"
| "memset_loop m p c (Suc n) =
     Option.bind (store m p (word_of_int c)) (\<lambda>m'. memset_loop m' (p + 1) c n)"

definition memset :: "memory \<Rightarrow> nat \<Rightarrow> int \<Rightarrow> nat \<Rightarrow> (memory \<times> nat) option" where
  "memset m s c n = Option.bind (memset_loop m s c n) (\<lambda>m'. Some (m', s))"

section \<open>Bytes in memory\<close>

definition bytes_at :: "memory \<Rightarrow> nat \<Rightarrow> u8 list \<Rightarrow> bool" where
  "bytes_at m a bs \<longleftrightarrow> (\<forall>i < length bs. m (a + i) = Some (bs ! i))"

definition string_at :: "memory \<Rightarrow> nat \<Rightarrow> u8 list \<Rightarrow> bool" where
  "string_at m a cs \<longleftrightarrow> bytes_at m a (cs @ [0]) \<and> 0 \<notin> set cs"

definition mapped :: "memory \<Rightarrow> nat \<Rightarrow> nat \<Rightarrow> bool" where
  "mapped m a n \<longleftrightarrow> (\<forall>i < n. m (a + i) \<noteq> None)"

definition put :: "memory \<Rightarrow> nat \<Rightarrow> u8 list \<Rightarrow> memory" where
  "put m a bs = (\<lambda>x. if a \<le> x \<and> x < a + length bs then Some (bs ! (x - a)) else m x)"

lemma put_Nil [simp]: "put m a [] = m"
  by (auto simp: put_def fun_eq_iff)

lemma put_Cons: "put m a (b # bs) = put (m(a \<mapsto> b)) (Suc a) bs"
  by (auto simp: put_def fun_eq_iff nth_Cons')

lemma put_append: "put m a (bs @ cs) = put (put m a bs) (a + length bs) cs"
  by (auto simp: put_def fun_eq_iff nth_append)

lemma put_singleton: "put m a [b] = m(a \<mapsto> b)"
  by (auto simp: put_def fun_eq_iff)

lemma bytes_at_Nil [simp]: "bytes_at m a []"
  by (simp add: bytes_at_def)

lemma bytes_at_Cons [simp]: "bytes_at m a (b # bs) \<longleftrightarrow> m a = Some b \<and> bytes_at m (Suc a) bs"
  by (auto simp: bytes_at_def less_Suc_eq_0_disj)

lemma bytes_at_append [simp]: "bytes_at m a (bs @ cs) \<longleftrightarrow> bytes_at m a bs \<and> bytes_at m (a + length bs) cs"
  by (induction bs arbitrary: a) auto

lemma bytes_at_put [simp]: "bytes_at (put m a bs) a bs"
  by (simp add: bytes_at_def put_def)

lemma bytes_at_upd:
  "bytes_at m a bs \<Longrightarrow> x < a \<or> a + length bs \<le> x \<Longrightarrow> bytes_at (m(x \<mapsto> v)) a bs"
  by (auto simp: bytes_at_def)

lemma bytes_at_put_other:
  "bytes_at m a bs \<Longrightarrow> d + length cs \<le> a \<or> a + length bs \<le> d \<Longrightarrow> bytes_at (put m d cs) a bs"
  by (auto simp: bytes_at_def put_def)

lemma bytes_at_mapped: "bytes_at m a bs \<Longrightarrow> n \<le> length bs \<Longrightarrow> mapped m a n"
  by (simp add: bytes_at_def mapped_def)

lemma mapped_Suc [simp]: "mapped m a (Suc n) \<longleftrightarrow> m a \<noteq> None \<and> mapped m (Suc a) n"
  by (auto simp: mapped_def less_Suc_eq_0_disj)

lemma mapped_0 [simp]: "mapped m a 0"
  by (simp add: mapped_def)

lemma mapped_upd: "mapped m a n \<Longrightarrow> mapped (m(x \<mapsto> v)) a n"
  by (simp add: mapped_def)

lemma mapped_put: "mapped m a n \<Longrightarrow> mapped (put m d bs) a n"
  by (simp add: mapped_def put_def)

lemma mapped_add: "mapped m a (n + k) \<longleftrightarrow> mapped m a n \<and> mapped m (a + n) k"
  by (induction n arbitrary: a) auto

lemma upd_fold [simp]: "(\<lambda>x. if x = a then Some v else m x) = m(a \<mapsto> v)"
  by (simp add: fun_eq_iff)

lemma store_mapped: "m a \<noteq> None \<Longrightarrow> store m a v = Some (m(a \<mapsto> v))"
  by (auto simp: store_def)

section \<open>What the loops do\<close>

text \<open>An upward copy is safe when the destination starts at or below the source, or after it.\<close>

definition copy_safe :: "nat \<Rightarrow> nat \<Rightarrow> nat \<Rightarrow> bool" where
  "copy_safe d s n \<longleftrightarrow> d \<le> s \<or> s + n \<le> d"

lemma copy_string_ok:
  "bytes_at m s (cs @ [0]) \<Longrightarrow> 0 \<notin> set cs \<Longrightarrow> mapped m d (Suc (length cs)) \<Longrightarrow>
   copy_safe d s (Suc (length cs)) \<Longrightarrow> copy_string m d s = Some (put m d (cs @ [0]))"
proof (induction cs arbitrary: m d s)
  case Nil
  then show ?case by (simp add: copy_string.simps [of m d s] store_mapped put_singleton)
next
  case (Cons c cs)
  have "bytes_at (m(d \<mapsto> c)) (Suc s) (cs @ [0])"
    using Cons.prems by (intro bytes_at_upd) (auto simp: copy_safe_def)
  then have "copy_string (m(d \<mapsto> c)) (Suc d) (Suc s) = Some (put (m(d \<mapsto> c)) (Suc d) (cs @ [0]))"
    using Cons.prems Cons.IH [of "m(d \<mapsto> c)" "Suc s" "Suc d"]
    by (auto simp: copy_safe_def mapped_upd)
  with Cons.prems show ?case
    by (simp add: copy_string.simps [of m d s] store_mapped put_Cons)
qed

lemma copy_up_ok:
  "bytes_at m s bs \<Longrightarrow> mapped m d (length bs) \<Longrightarrow> copy_safe d s (length bs) \<Longrightarrow>
   copy_up m d s (length bs) = Some (put m d bs)"
proof (induction bs arbitrary: m d s)
  case (Cons b bs)
  have "bytes_at (m(d \<mapsto> b)) (Suc s) bs"
    using Cons.prems by (intro bytes_at_upd) (auto simp: copy_safe_def)
  then have "copy_up (m(d \<mapsto> b)) (Suc d) (Suc s) (length bs) = Some (put (m(d \<mapsto> b)) (Suc d) bs)"
    using Cons.prems Cons.IH [of "m(d \<mapsto> b)" "Suc s" "Suc d"]
    by (auto simp: copy_safe_def mapped_upd)
  with Cons.prems show ?case by (simp add: store_mapped put_Cons)
qed simp

lemma put_upd_end: "put (m(a + length bs \<mapsto> b)) a bs = put m a (bs @ [b])"
  by (auto simp: put_def fun_eq_iff nth_append)

lemma copy_down_ok:
  "bytes_at m s bs \<Longrightarrow> mapped m d (length bs) \<Longrightarrow> s \<le> d \<Longrightarrow>
   copy_down m (d + length bs - 1) (s + length bs - 1) (length bs) = Some (put m d bs)"
proof (induction bs arbitrary: m rule: rev_induct)
  case (snoc b bs)
  let ?m = "m(d + length bs \<mapsto> b)"
  have "bytes_at ?m s bs" using snoc.prems by (intro bytes_at_upd) auto
  then have "copy_down ?m (d + length bs - 1) (s + length bs - 1) (length bs) = Some (put ?m d bs)"
    using snoc.prems mapped_add [of m d "length bs" 1] snoc.IH [of ?m] by (auto simp: mapped_upd)
  moreover have "m (d + length bs) \<noteq> None" "m (s + length bs) = Some b"
    using snoc.prems mapped_add [of m d "length bs" 1] by auto
  ultimately show ?case by (simp add: store_mapped put_upd_end)
qed simp

lemma string_end_ok: "string_at m a cs \<Longrightarrow> string_end m a = Some (a + length cs)"
proof (induction cs arbitrary: a)
  case Nil
  then show ?case by (subst string_end.simps) (simp add: string_at_def)
next
  case (Cons c cs)
  then have "string_end m (Suc a) = Some (Suc a + length cs)" by (auto simp: string_at_def)
  with Cons.prems show ?case by (subst string_end.simps) (simp add: string_at_def)
qed

lemma strncpy_copy_short:
  "bytes_at m s (cs @ [0]) \<Longrightarrow> 0 \<notin> set cs \<Longrightarrow> mapped m d (Suc (length cs)) \<Longrightarrow>
   copy_safe d s (Suc (length cs)) \<Longrightarrow>
   strncpy_copy m d s (length cs + Suc k) = Some (put m d (cs @ [0]), d + Suc (length cs), Suc k)"
proof (induction cs arbitrary: m d s)
  case Nil
  then show ?case by (simp add: store_mapped put_singleton)
next
  case (Cons c cs)
  have "bytes_at (m(d \<mapsto> c)) (Suc s) (cs @ [0])"
    using Cons.prems by (intro bytes_at_upd) (auto simp: copy_safe_def)
  then have "strncpy_copy (m(d \<mapsto> c)) (Suc d) (Suc s) (length cs + Suc k) =
      Some (put (m(d \<mapsto> c)) (Suc d) (cs @ [0]), Suc d + Suc (length cs), Suc k)"
    using Cons.prems Cons.IH [of "m(d \<mapsto> c)" "Suc s" "Suc d"]
    by (auto simp: copy_safe_def mapped_upd)
  with Cons.prems show ?case by (simp add: store_mapped put_Cons)
qed

lemma strncpy_copy_long:
  "bytes_at m s bs \<Longrightarrow> 0 \<notin> set bs \<Longrightarrow> mapped m d (length bs) \<Longrightarrow> copy_safe d s (length bs) \<Longrightarrow>
   strncpy_copy m d s (length bs) = Some (put m d bs, d + length bs, 0)"
proof (induction bs arbitrary: m d s)
  case (Cons b bs)
  have "bytes_at (m(d \<mapsto> b)) (Suc s) bs"
    using Cons.prems by (intro bytes_at_upd) (auto simp: copy_safe_def)
  then have "strncpy_copy (m(d \<mapsto> b)) (Suc d) (Suc s) (length bs) =
      Some (put (m(d \<mapsto> b)) (Suc d) bs, Suc d + length bs, 0)"
    using Cons.prems Cons.IH [of "m(d \<mapsto> b)" "Suc s" "Suc d"]
    by (auto simp: copy_safe_def mapped_upd)
  with Cons.prems show ?case by (simp add: store_mapped put_Cons)
qed simp

lemma strncpy_pad_ok: "mapped m d n \<Longrightarrow> strncpy_pad m d n = Some (put m d (replicate n 0))"
  by (induction n arbitrary: m d) (auto simp: store_mapped put_Cons mapped_upd)

lemma memset_loop_ok:
  "mapped m p n \<Longrightarrow> memset_loop m p c n = Some (put m p (replicate n (word_of_int c)))"
  by (induction n arbitrary: m p) (auto simp: store_mapped put_Cons mapped_upd)

section \<open>Comparison\<close>

text \<open>The difference of the first bytes that differ, a missing byte counting as the terminator.\<close>

fun scompare :: "u8 list \<Rightarrow> u8 list \<Rightarrow> int" where
  "scompare (c # cs) (d # ds) = (if c = d then scompare cs ds else sint c - sint d)"
| "scompare [] (d # ds) = - sint d"
| "scompare (c # cs) [] = sint c"
| "scompare [] [] = 0"

lemma sint_eq_iff: "sint (a :: u8) = sint b \<longleftrightarrow> a = b"
  by (auto intro: signed_word_eqI)

lemma sint_0_iff: "sint (a :: u8) = 0 \<longleftrightarrow> a = 0"
  using sint_eq_iff [of a 0] by simp

lemma strcmp_scompare:
  "string_at m a cs \<Longrightarrow> string_at m b ds \<Longrightarrow> strcmp m a b = Some (scompare cs ds)"
proof (induction cs ds arbitrary: a b rule: scompare.induct)
  case (1 c cs d ds)
  then show ?case by (auto simp: strcmp.simps [of m a b] string_at_def)
qed (auto simp: strcmp.simps string_at_def)

lemma scompare_zero: "0 \<notin> set cs \<Longrightarrow> 0 \<notin> set ds \<Longrightarrow> scompare cs ds = 0 \<longleftrightarrow> cs = ds"
  by (induction cs ds rule: scompare.induct) (auto simp: sint_eq_iff sint_0_iff)

lemma scompare_less:
  "0 \<notin> set cs \<Longrightarrow> 0 \<notin> set ds \<Longrightarrow>
   scompare cs ds < 0 \<longleftrightarrow> (map sint (cs @ [0]), map sint (ds @ [0])) \<in> lexord {(x, y). x < y}"
  by (induction cs ds rule: scompare.induct) (auto simp: sint_eq_iff sint_0_iff)

lemma strncmp_scompare:
  "string_at m a cs \<Longrightarrow> string_at m b ds \<Longrightarrow>
   strncmp m a b n = Some (scompare (take n (cs @ [0])) (take n (ds @ [0])))"
proof (induction cs ds arbitrary: a b n rule: scompare.induct)
  case (1 c cs d ds)
  then show ?case by (cases n) (auto simp: string_at_def)
qed (case_tac n; auto simp: string_at_def)+

section \<open>Searching\<close>

fun first_match :: "u8 list \<Rightarrow> u8 list \<Rightarrow> nat option" where
  "first_match [] ns = None"
| "first_match (c # cs) ns =
     (if take (length ns) (c # cs) = ns then Some 0 else map_option Suc (first_match cs ns))"

lemma scompare_take:
  "0 \<notin> set ns \<Longrightarrow> 0 \<notin> set cs \<Longrightarrow>
   scompare (take (length ns) (cs @ [0])) ns = 0 \<longleftrightarrow> take (length ns) cs = ns"
proof (induction ns arbitrary: cs)
  case (Cons n ns)
  then show ?case by (cases cs) (auto simp: sint_eq_iff sint_0_iff)
qed simp

lemma string_at_Cons: "string_at m a (c # cs) \<longleftrightarrow> m a = Some c \<and> c \<noteq> 0 \<and> string_at m (Suc a) cs"
  by (auto simp: string_at_def)

lemma strstr_loop_ok:
  assumes ns: "string_at m nd ns" "ns \<noteq> []"
  shows "string_at m h hs \<Longrightarrow>
    strstr_loop m h nd (length ns) = Some (map_option (\<lambda>i. h + i) (first_match hs ns))"
proof (induction hs arbitrary: h)
  case Nil
  then show ?case by (simp add: strstr_loop.simps [of m h] string_at_def)
next
  case (Cons c cs)
  obtain n where n: "m nd = Some n" "hd ns = n"
    using ns by (cases ns) (auto simp: string_at_Cons)
  have mem: "m h = Some c" "c \<noteq> 0" "string_at m (Suc h) cs"
    using Cons.prems by (simp_all add: string_at_Cons)
  have cmp: "strncmp m h nd (length ns) = Some (scompare (take (length ns) (c # cs @ [0])) ns)"
    using strncmp_scompare [OF Cons.prems ns(1), of "length ns"] by simp
  have zero: "scompare (take (length ns) (c # cs @ [0])) ns = 0 \<longleftrightarrow> take (length ns) (c # cs) = ns"
    using scompare_take [of ns "c # cs"] Cons.prems ns(1) by (auto simp: string_at_def)
  have first: "c = n" if "take (length ns) (c # cs) = ns"
    using arg_cong [OF that, of hd] n(2) ns(2) by (cases ns) simp_all
  note IH = Cons.IH [OF mem(3)]
  show ?case
  proof (cases "take (length ns) (c # cs) = ns")
    case True
    with cmp zero first n(1) mem(1,2) show ?thesis
      by (simp add: strstr_loop.simps [of m h nd "length ns"])
  next
    case False
    then have "first_match (c # cs) ns = map_option Suc (first_match cs ns)" by simp
    moreover have "strstr_loop m h nd (length ns) = strstr_loop m (Suc h) nd (length ns)"
      using False cmp zero n(1) mem(1,2)
      by (cases "c = n") (simp_all add: strstr_loop.simps [of m h nd "length ns"])
    ultimately show ?thesis using IH by (simp add: option.map_comp comp_def)
  qed
qed

lemma first_match_Some:
  "first_match hs ns = Some i \<Longrightarrow>
   take (length ns) (drop i hs) = ns \<and> (\<forall>j<i. take (length ns) (drop j hs) \<noteq> ns)"
proof (induction hs arbitrary: i)
  case (Cons c cs)
  show ?case
  proof (cases "take (length ns) (c # cs) = ns")
    case True
    with Cons.prems have "i = 0" by simp
    with True show ?thesis by simp
  next
    case False
    with Cons.prems obtain k where k: "i = Suc k" "first_match cs ns = Some k" by auto
    have "take (length ns) (drop j (c # cs)) \<noteq> ns" if "j < i" for j
      using that False Cons.IH [OF k(2)] k(1) by (cases j) simp_all
    with Cons.IH [OF k(2)] k(1) show ?thesis by simp
  qed
qed simp

lemma first_match_None:
  "first_match hs ns = None \<Longrightarrow> ns \<noteq> [] \<Longrightarrow> take (length ns) (drop j hs) \<noteq> ns"
proof (induction hs arbitrary: j)
  case (Cons c cs)
  have ne: "take (length ns) (c # cs) \<noteq> ns" and "first_match cs ns = None"
    using Cons.prems(1) by (auto split: if_splits)
  with Cons show ?case by (cases j) simp_all
qed auto

section \<open>Claims\<close>

text \<open>A memory of 32 bytes holding the given bytes from address 0 on, and zeroes.\<close>

definition sample :: "u8 list \<Rightarrow> memory" where
  "sample bs a = (if a < 32 then Some (if a < length bs then bs ! a else 0) else None)"

lemma sample_mapped: "mapped (sample bs) a n \<longleftrightarrow> n = 0 \<or> a + n \<le> 32"
proof (cases n)
  case (Suc k)
  then show ?thesis by (auto simp: mapped_def sample_def dest: spec [of _ k])
qed simp

text \<open>
  \<^verbatim>\<open>strcat\<close> returns its destination, which then holds the concatenation of the two strings;
  no byte outside the appended part and its terminator changes, and \<^verbatim>\<open>strlen\<close> of the result is
  the sum of the lengths. The source may be any string that ends before the destination or lies
  after the appended part.
\<close>

theorem strcat_correct:
  assumes "string_at m dest ds" and "string_at m src cs"
    and "mapped m (dest + length ds) (Suc (length cs))"
    and "src + length cs < dest + length ds \<or> dest + length ds + length cs < src"
  shows "\<exists>m'. strcat m dest src = Some (m', dest) \<and> string_at m' dest (ds @ cs) \<and>
    (\<forall>a. a < dest + length ds \<or> dest + length ds + length cs < a \<longrightarrow> m' a = m a) \<and>
    strlen m' dest = Some (length ds + length cs)"
proof -
  let ?d = "dest + length ds"
  let ?m = "put m ?d (cs @ [0])"
  have "copy_string m ?d src = Some ?m"
    using assms by (intro copy_string_ok) (auto simp: string_at_def copy_safe_def)
  then have cat: "strcat m dest src = Some (?m, dest)"
    by (simp add: strcat_def string_end_ok [OF assms(1)])
  have "bytes_at ?m dest ds"
    using assms(1) by (intro bytes_at_put_other) (auto simp: string_at_def)
  moreover have "bytes_at ?m ?d (cs @ [0])" by (rule bytes_at_put)
  ultimately have str: "string_at ?m dest (ds @ cs)"
    using assms(1,2) by (simp add: string_at_def add.assoc)
  moreover have "\<forall>a. a < ?d \<or> ?d + length cs < a \<longrightarrow> ?m a = m a" by (auto simp: put_def)
  ultimately show ?thesis
    using cat string_end_ok [OF str] by (intro exI [of _ ?m]) (simp add: strlen_def)
qed

theorem strcat_correct_witness:
  "\<exists>m'. strcat (sample [104, 0, 0, 0, 105, 106, 0]) 0 4 = Some (m', 0) \<and> string_at m' 0 [104, 105, 106] \<and>
    strlen m' 0 = Some 3"
  using strcat_correct [of "sample [104, 0, 0, 0, 105, 106, 0]" 0 "[104]" 4 "[105, 106]"]
  by (auto simp: string_at_def sample_def sample_mapped)

text \<open>
  C26. \<^verbatim>\<open>strncpy\<close> writes one byte too many, a defect: where the source string is shorter than \<open>n\<close>
  it writes the string, its terminator and then \<open>n\<close> minus the length further zeroes, \<open>n + 1\<close> bytes
  in all, because the terminator it has copied is not counted. The byte at \<^verbatim>\<open>dest + n\<close>, outside
  the caller's buffer, becomes zero. Where the string has \<open>n\<close> bytes or more, exactly the first \<open>n\<close>
  are written.
\<close>

theorem strncpy_writes:
  assumes "string_at m src cs" and "mapped m dest (n + 1)"
    and "src + length cs < dest \<or> dest + n < src"
  shows "strncpy m dest src n = Some (put m dest
    (if length cs < n then cs @ replicate (n + 1 - length cs) 0 else take n cs), dest)"
proof (cases "length cs < n")
  case True
  then obtain k where n: "n = length cs + Suc k" by (metis add_Suc_right less_iff_Suc_add)
  have mp: "mapped m dest (Suc (length cs))" "mapped m (dest + Suc (length cs)) (Suc k)"
    using assms(2) mapped_add [of m dest "Suc (length cs)" "Suc k"] n by (simp_all add: add.commute)
  have "strncpy_copy m dest src n = Some (put m dest (cs @ [0]), dest + Suc (length cs), Suc k)"
    unfolding n using assms mp(1) n
    by (intro strncpy_copy_short) (auto simp: string_at_def copy_safe_def)
  moreover have "strncpy_pad (put m dest (cs @ [0])) (dest + Suc (length cs)) (Suc k) =
      Some (put m dest ((cs @ [0]) @ replicate (Suc k) 0))"
    unfolding put_append using mp(2)
    by (simp add: strncpy_pad_ok mapped_put del: mapped_Suc replicate_Suc strncpy_pad.simps)
  moreover have "n + 1 - length cs = Suc (Suc k)" using n by simp
  ultimately show ?thesis using True by (simp add: strncpy_def)
next
  case False
  then have len: "length (take n cs) = n" by simp
  have "bytes_at m src (take n cs)"
    using assms(1) bytes_at_append [of m src "take n cs" "drop n cs"] by (simp add: string_at_def)
  moreover have "0 \<notin> set (take n cs)" using assms(1) by (auto simp: string_at_def dest: in_set_takeD)
  ultimately have "strncpy_copy m dest src (length (take n cs)) =
      Some (put m dest (take n cs), dest + length (take n cs), 0)"
    using assms(2,3) False mapped_add [of m dest n 1]
    by (intro strncpy_copy_long) (auto simp: copy_safe_def)
  with False show ?thesis by (simp add: strncpy_def len)
qed

theorem strncpy_writes_witness:
  "\<exists>m'. strncpy (sample [1, 2, 3, 4, 5, 6, 7, 8, 104, 0]) 0 8 4 = Some (m', 0) \<and>
     m' 4 = Some 0 \<and> sample [1, 2, 3, 4, 5, 6, 7, 8, 104, 0] 4 = Some 5"
  using strncpy_writes [of "sample [1, 2, 3, 4, 5, 6, 7, 8, 104, 0]" 8 "[104]" 0 4]
  by (auto simp: string_at_def sample_def sample_mapped put_def)

text \<open>
  C27. \<^verbatim>\<open>strcmp\<close> of two strings always returns; the result is zero exactly for equal strings and
  negative exactly when the first precedes the second in the lexicographic order of signed bytes.
\<close>

theorem strcmp_order:
  assumes "string_at m a cs" and "string_at m b ds"
  shows "\<exists>r. strcmp m a b = Some r \<and> (r = 0 \<longleftrightarrow> cs = ds) \<and>
    (r < 0 \<longleftrightarrow> (map sint (cs @ [0]), map sint (ds @ [0])) \<in> lexord {(x, y). x < y})"
proof -
  have z: "0 \<notin> set cs" "0 \<notin> set ds" using assms by (simp_all add: string_at_def)
  show ?thesis
    using strcmp_scompare [OF assms] scompare_zero [OF z] scompare_less [OF z] by blast
qed

theorem strcmp_order_witness:
  "\<exists>r. strcmp (sample [104, 0, 105, 0]) 0 2 = Some r \<and> r < 0"
  using strcmp_order [of "sample [104, 0, 105, 0]" 0 "[104]" 2 "[105]"]
  by (auto simp: string_at_def sample_def)

text \<open>
  C25. \<^verbatim>\<open>memmove\<close> copies correctly whatever the overlap: the destination receives the bytes the
  source held before the call and nothing else changes. \<^verbatim>\<open>memcpy\<close> gives the same result whenever
  the destination starts at or before the source or the blocks do not overlap.
\<close>

theorem memmove_correct:
  assumes "bytes_at m src bs" and "mapped m dest (length bs)"
  shows "memmove m dest src (length bs) = Some (put m dest bs, dest) \<and>
    (dest \<le> src \<or> src + length bs \<le> dest \<longrightarrow>
      memcpy m dest src (length bs) = memmove m dest src (length bs))"
proof -
  have same: "put m src bs = m"
    using assms(1) by (auto simp: put_def bytes_at_def fun_eq_iff le_iff_add)
  have "memmove m dest src (length bs) = Some (put m dest bs, dest)"
  proof (cases dest src rule: linorder_cases)
    case less
    then show ?thesis using copy_up_ok [OF assms] by (simp add: memmove_def copy_safe_def)
  next
    case equal
    then show ?thesis using same by (simp add: memmove_def)
  next
    case greater
    then show ?thesis using copy_down_ok [OF assms] by (simp add: memmove_def)
  qed
  moreover have "memcpy m dest src (length bs) = Some (put m dest bs, dest)"
    if "dest \<le> src \<or> src + length bs \<le> dest"
    using that copy_up_ok [OF assms] by (simp add: memcpy_def copy_safe_def)
  ultimately show ?thesis by simp
qed

theorem memmove_correct_witness:
  "memmove (sample [1, 2, 3, 4, 5]) 1 0 4 = Some (put (sample [1, 2, 3, 4, 5]) 1 [1, 2, 3, 4], 1)"
  using memmove_correct [of "sample [1, 2, 3, 4, 5]" 0 "[1, 2, 3, 4]" 1]
  by (simp add: sample_def sample_mapped eval_nat_numeral)

text \<open>
  C28. \<^verbatim>\<open>strstr\<close> returns the first place where the needle occurs in the haystack, and NULL exactly
  when it occurs nowhere; an empty needle is found at the start.
\<close>

theorem strstr_first_occurrence:
  assumes "string_at m h hs" and "string_at m nd ns"
  shows "\<exists>r. strstr m h nd = Some r \<and>
    (case r of
       None \<Rightarrow> \<forall>j. take (length ns) (drop j hs) \<noteq> ns
     | Some p \<Rightarrow> \<exists>i. p = h + i \<and> take (length ns) (drop i hs) = ns \<and>
         (\<forall>j<i. take (length ns) (drop j hs) \<noteq> ns))"
proof (cases "ns = []")
  case True
  with string_end_ok [OF assms(2)] show ?thesis by (auto simp: strstr_def strlen_def)
next
  case False
  have "strstr m h nd = Some (map_option (\<lambda>i. h + i) (first_match hs ns))"
    using False string_end_ok [OF assms(2)] strstr_loop_ok [OF assms(2) False assms(1)]
    by (simp add: strstr_def strlen_def)
  then show ?thesis
    using first_match_Some [of hs ns] first_match_None [OF _ False, of hs]
    by (cases "first_match hs ns") auto
qed

theorem strstr_first_occurrence_witness:
  "strstr (sample [97, 98, 99, 0, 99, 0]) 0 4 = Some (Some 2)"
proof -
  have "string_at (sample [97, 98, 99, 0, 99, 0]) 0 [97, 98, 99]"
    "string_at (sample [97, 98, 99, 0, 99, 0]) 4 [99]" by (simp_all add: string_at_def sample_def)
  from strstr_first_occurrence [OF this] obtain r where
    r: "strstr (sample [97, 98, 99, 0, 99, 0]) 0 4 = Some r"
      "case r of None \<Rightarrow> \<forall>j. take 1 (drop j [97, 98, 99 :: u8]) \<noteq> [99]
       | Some p \<Rightarrow> take 1 (drop p [97, 98, 99 :: u8]) = [99] \<and> (\<forall>j<p. take 1 (drop j [97, 98, 99 :: u8]) \<noteq> [99])"
    by (auto split: option.splits)
  have hit: "take 1 (drop 2 [97, 98, 99 :: u8]) = [99]" by simp
  obtain p where p: "r = Some p"
  proof (cases r)
    case None
    with r(2) have "\<forall>j. take 1 (drop j [97, 98, 99 :: u8]) \<noteq> [99]" by simp
    from spec [OF this, of 2] hit show ?thesis by contradiction
  qed
  from p r(2) have mt: "take 1 (drop p [97, 98, 99 :: u8]) = [99]"
    and first: "\<forall>j<p. take 1 (drop j [97, 98, 99 :: u8]) \<noteq> [99]" by simp_all
  from first hit have "\<not> 2 < p" by blast
  moreover have "p \<noteq> 0" using mt by (rule contrapos_pn) simp
  moreover have "p \<noteq> 1" using mt by (rule contrapos_pn) simp
  ultimately have "p = 2" by simp
  with r(1) p show ?thesis by simp
qed

end
