(* ===== verification/Security.thy ===== *)
theory Security
  imports Single_List
begin

text \<open>
  The security core \<^verbatim>\<open>kernel/security/security.c\<close> (\<^verbatim>\<open>security/security.c\<close> is a copy of it): security
  contexts, the chain of security modules, the default module and access control lists. A
  \<^verbatim>\<open>security_context_t *\<close> is an optional context; an operation that writes through the pointer
  returns the context it leaves. Modules are addressed by numbers and linked by their \<open>m_next\<close>
  pointer, exactly as in the code, so the same module can be linked twice; a walk along a
  cyclic chain does not return (\<^const>\<open>None\<close>). An operation table is a record of optional functions,
  a null function pointer being \<^const>\<open>None\<close>. The eleven \<^verbatim>\<open>path_\<close> hooks of the table are called
  nowhere in the repository and are left out.
\<close>

section \<open>Contexts and capabilities\<close>

record security_context =
  sc_uid :: u32
  sc_gid :: u32
  sc_euid :: u32
  sc_egid :: u32
  sc_suid :: u32
  sc_sgid :: u32
  sc_fsuid :: u32
  sc_fsgid :: u32
  cap_inheritable :: u32
  cap_permitted :: u32
  cap_effective :: u32

definition CAP_CHOWN :: u32 where "CAP_CHOWN = 0x00000001"
definition CAP_DAC_OVERRIDE :: u32 where "CAP_DAC_OVERRIDE = 0x00000002"
definition CAP_FOWNER :: u32 where "CAP_FOWNER = 0x00000008"
definition CAP_KILL :: u32 where "CAP_KILL = 0x00000020"
definition CAP_SETGID :: u32 where "CAP_SETGID = 0x00000040"
definition CAP_SETUID :: u32 where "CAP_SETUID = 0x00000080"
definition CAP_IPC_OWNER :: u32 where "CAP_IPC_OWNER = 0x00200000"
definition CAP_ALL :: u32 where "CAP_ALL = 0xFFFFFFFF"

lemmas cap_defs = CAP_CHOWN_def CAP_DAC_OVERRIDE_def CAP_FOWNER_def CAP_KILL_def CAP_SETGID_def
  CAP_SETUID_def CAP_IPC_OWNER_def CAP_ALL_def

definition security_has_capability :: "security_context option \<Rightarrow> u32 \<Rightarrow> bool" where
  "security_has_capability context cap =
     (case context of None \<Rightarrow> False | Some c \<Rightarrow> cap_effective c AND cap \<noteq> 0)"

text \<open>The allocation's outcome is the argument.\<close>

definition security_alloc_context :: "bool \<Rightarrow> security_context option" where
  "security_alloc_context mem_ok =
     (if \<not> mem_ok then None
      else Some \<lparr>sc_uid = 0, sc_gid = 0, sc_euid = 0, sc_egid = 0, sc_suid = 0, sc_sgid = 0,
        sc_fsuid = 0, sc_fsgid = 0, cap_inheritable = 0, cap_permitted = CAP_ALL,
        cap_effective = CAP_ALL\<rparr>)"

section \<open>Security operations\<close>

type_synonym context_ptr = "security_context option"
type_synonym path_ptr = "string option"
type_synonym update_hook = "context_ptr \<Rightarrow> context_ptr \<times> int"

record security_ops =
  op_task_create :: "(context_ptr \<Rightarrow> context_ptr \<Rightarrow> context_ptr \<times> int) option"
  op_task_setuid :: "(context_ptr \<Rightarrow> u32 \<Rightarrow> context_ptr \<times> int) option"
  op_task_setgid :: "(context_ptr \<Rightarrow> u32 \<Rightarrow> context_ptr \<times> int) option"
  op_task_kill :: "(context_ptr \<Rightarrow> u32 \<Rightarrow> int) option"
  op_file_open :: "(context_ptr \<Rightarrow> path_ptr \<Rightarrow> u32 \<Rightarrow> int) option"
  op_file_permission :: "(context_ptr \<Rightarrow> path_ptr \<Rightarrow> u32 \<Rightarrow> int) option"
  op_file_chown :: "(context_ptr \<Rightarrow> path_ptr \<Rightarrow> u32 \<Rightarrow> u32 \<Rightarrow> int) option"
  op_file_chmod :: "(context_ptr \<Rightarrow> path_ptr \<Rightarrow> u32 \<Rightarrow> int) option"
  op_ipc_permission :: "(context_ptr \<Rightarrow> u32 \<Rightarrow> u32 \<Rightarrow> int) option"

section \<open>The default module\<close>

definition default_task_create :: "context_ptr \<Rightarrow> context_ptr \<Rightarrow> context_ptr \<times> int" where
  "default_task_create parent child =
     (case (parent, child) of
        (Some p, Some c) \<Rightarrow>
          (Some (c\<lparr>sc_uid := sc_uid p, sc_gid := sc_gid p, sc_euid := sc_euid p, sc_egid := sc_egid p,
             sc_suid := sc_suid p, sc_sgid := sc_sgid p, sc_fsuid := sc_fsuid p, sc_fsgid := sc_fsgid p,
             cap_inheritable := cap_inheritable p, cap_permitted := cap_permitted p,
             cap_effective := cap_effective p\<rparr>), 0)
      | _ \<Rightarrow> (child, -1))"

definition default_task_setuid :: "context_ptr \<Rightarrow> u32 \<Rightarrow> context_ptr \<times> int" where
  "default_task_setuid context uid =
     (case context of None \<Rightarrow> (context, -1)
      | Some c \<Rightarrow>
          if sc_euid c \<noteq> 0 \<and> \<not> security_has_capability context CAP_SETUID then (context, -1)
          else (Some (c\<lparr>sc_uid := uid, sc_euid := uid, sc_suid := uid, sc_fsuid := uid\<rparr>), 0))"

definition default_task_setgid :: "context_ptr \<Rightarrow> u32 \<Rightarrow> context_ptr \<times> int" where
  "default_task_setgid context gid =
     (case context of None \<Rightarrow> (context, -1)
      | Some c \<Rightarrow>
          if sc_euid c \<noteq> 0 \<and> \<not> security_has_capability context CAP_SETGID then (context, -1)
          else (Some (c\<lparr>sc_gid := gid, sc_egid := gid, sc_sgid := gid, sc_fsgid := gid\<rparr>), 0))"

definition default_task_kill :: "context_ptr \<Rightarrow> u32 \<Rightarrow> int" where
  "default_task_kill context pid =
     (case context of None \<Rightarrow> -1
      | Some c \<Rightarrow> if sc_euid c \<noteq> 0 \<and> \<not> security_has_capability context CAP_KILL then -1 else 0)"

definition default_file_open :: "context_ptr \<Rightarrow> path_ptr \<Rightarrow> u32 \<Rightarrow> int" where
  "default_file_open context path flags = (if context = None \<or> path = None then -1 else 0)"

definition default_file_permission :: "context_ptr \<Rightarrow> path_ptr \<Rightarrow> u32 \<Rightarrow> int" where
  "default_file_permission context path msk = (if context = None \<or> path = None then -1 else 0)"

definition default_file_chown :: "context_ptr \<Rightarrow> path_ptr \<Rightarrow> u32 \<Rightarrow> u32 \<Rightarrow> int" where
  "default_file_chown context path uid gid =
     (case (context, path) of
        (Some c, Some _) \<Rightarrow>
          if sc_euid c \<noteq> 0 \<and> \<not> security_has_capability context CAP_CHOWN then -1 else 0
      | _ \<Rightarrow> -1)"

definition default_file_chmod :: "context_ptr \<Rightarrow> path_ptr \<Rightarrow> u32 \<Rightarrow> int" where
  "default_file_chmod context path mode = (if context = None \<or> path = None then -1 else 0)"

definition default_ipc_permission :: "context_ptr \<Rightarrow> u32 \<Rightarrow> u32 \<Rightarrow> int" where
  "default_ipc_permission context key msk = (if context = None then -1 else 0)"

definition default_security_ops :: security_ops where
  "default_security_ops = \<lparr>op_task_create = Some default_task_create,
     op_task_setuid = Some default_task_setuid, op_task_setgid = Some default_task_setgid,
     op_task_kill = Some default_task_kill, op_file_open = Some default_file_open,
     op_file_permission = Some default_file_permission, op_file_chown = Some default_file_chown,
     op_file_chmod = Some default_file_chmod, op_ipc_permission = Some default_ipc_permission\<rparr>"

section \<open>The chain of modules\<close>

record security_module =
  m_name :: string
  m_ops :: "security_ops option"
  m_next :: "nat option"

record security_state =
  security_modules :: "nat option"
  module_at :: "nat \<Rightarrow> security_module"

definition default_security_module :: nat where
  "default_security_module = 0"

definition static_default_module :: security_module where
  "static_default_module = \<lparr>m_name = ''default'', m_ops = Some default_security_ops, m_next = None\<rparr>"

definition security_register_module :: "security_state \<Rightarrow> nat option \<Rightarrow> security_state \<times> int" where
  "security_register_module s module =
     (case module of None \<Rightarrow> (s, -1)
      | Some p \<Rightarrow>
          if m_ops (module_at s p) = None then (s, -1)
          else (s\<lparr>module_at := (module_at s)(p := (module_at s p)\<lparr>m_next := security_modules s\<rparr>),
                  security_modules := Some p\<rparr>, 0))"

definition security_init :: "security_state \<Rightarrow> security_state" where
  "security_init s =
     fst (security_register_module (s\<lparr>security_modules := None\<rparr>) (Some default_security_module))"

text \<open>The search for the predecessor of a module.\<close>

definition find_prev :: "(nat \<Rightarrow> security_module) \<Rightarrow> nat option \<Rightarrow> nat \<Rightarrow> nat option option" where
  "find_prev mods = walk_prev (\<lambda>q. m_next (mods q))"

definition security_unregister_module :: "security_state \<Rightarrow> nat option \<Rightarrow> (security_state \<times> int) option" where
  "security_unregister_module s module =
     (case module of None \<Rightarrow> Some (s, -1)
      | Some p \<Rightarrow>
          if p = default_security_module then Some (s, -1)
          else if security_modules s = Some p
          then Some (s\<lparr>security_modules := m_next (module_at s p)\<rparr>, 0)
          else (case find_prev (module_at s) (security_modules s) p of
                  None \<Rightarrow> None
                | Some None \<Rightarrow> Some (s, 0)
                | Some (Some q) \<Rightarrow>
                    Some (s\<lparr>module_at := (module_at s)(q := (module_at s q)\<lparr>m_next := m_next (module_at s p)\<rparr>)\<rparr>, 0)))"

text \<open>
  Every \<^verbatim>\<open>security_\<close> entry point runs the same loop: each module that has the hook is called, and
  the first negative result is returned. The context is passed along as the hooks leave it.
\<close>

partial_function (option) call_modules ::
  "(nat \<Rightarrow> security_module) \<Rightarrow> (security_ops \<Rightarrow> update_hook option) \<Rightarrow> nat option \<Rightarrow> context_ptr \<Rightarrow>
   (context_ptr \<times> int) option" where
  "call_modules mods hook module context =
     (case module of None \<Rightarrow> Some (context, 0)
      | Some p \<Rightarrow>
          (case Option.bind (m_ops (mods p)) hook of
             None \<Rightarrow> call_modules mods hook (m_next (mods p)) context
           | Some f \<Rightarrow>
               if snd (f context) < 0 then Some (f context)
               else call_modules mods hook (m_next (mods p)) (fst (f context))))"

definition check_modules :: "security_state \<Rightarrow> (security_ops \<Rightarrow> (context_ptr \<Rightarrow> int) option) \<Rightarrow>
    context_ptr \<Rightarrow> int option" where
  "check_modules s hook context =
     map_option snd (call_modules (module_at s) (\<lambda>ops. map_option (\<lambda>f c. (c, f c)) (hook ops))
       (security_modules s) context)"

definition security_task_create :: "security_state \<Rightarrow> context_ptr \<Rightarrow> context_ptr \<Rightarrow> (context_ptr \<times> int) option" where
  "security_task_create s parent child =
     (if parent = None \<or> child = None then Some (child, -1)
      else call_modules (module_at s) (\<lambda>ops. map_option (\<lambda>f. f parent) (op_task_create ops))
             (security_modules s) child)"

definition security_task_setuid :: "security_state \<Rightarrow> context_ptr \<Rightarrow> u32 \<Rightarrow> (context_ptr \<times> int) option" where
  "security_task_setuid s context uid =
     (if context = None then Some (context, -1)
      else call_modules (module_at s) (\<lambda>ops. map_option (\<lambda>f c. f c uid) (op_task_setuid ops))
             (security_modules s) context)"

definition security_task_setgid :: "security_state \<Rightarrow> context_ptr \<Rightarrow> u32 \<Rightarrow> (context_ptr \<times> int) option" where
  "security_task_setgid s context gid =
     (if context = None then Some (context, -1)
      else call_modules (module_at s) (\<lambda>ops. map_option (\<lambda>f c. f c gid) (op_task_setgid ops))
             (security_modules s) context)"

definition security_task_kill :: "security_state \<Rightarrow> context_ptr \<Rightarrow> u32 \<Rightarrow> int option" where
  "security_task_kill s context pid =
     (if context = None then Some (-1)
      else check_modules s (\<lambda>ops. map_option (\<lambda>f c. f c pid) (op_task_kill ops)) context)"

definition security_file_open :: "security_state \<Rightarrow> context_ptr \<Rightarrow> path_ptr \<Rightarrow> u32 \<Rightarrow> int option" where
  "security_file_open s context path flags =
     (if context = None \<or> path = None then Some (-1)
      else check_modules s (\<lambda>ops. map_option (\<lambda>f c. f c path flags) (op_file_open ops)) context)"

definition security_file_permission :: "security_state \<Rightarrow> context_ptr \<Rightarrow> path_ptr \<Rightarrow> u32 \<Rightarrow> int option" where
  "security_file_permission s context path msk =
     (if context = None \<or> path = None then Some (-1)
      else check_modules s (\<lambda>ops. map_option (\<lambda>f c. f c path msk) (op_file_permission ops)) context)"

definition security_file_chown :: "security_state \<Rightarrow> context_ptr \<Rightarrow> path_ptr \<Rightarrow> u32 \<Rightarrow> u32 \<Rightarrow> int option" where
  "security_file_chown s context path uid gid =
     (if context = None \<or> path = None then Some (-1)
      else check_modules s (\<lambda>ops. map_option (\<lambda>f c. f c path uid gid) (op_file_chown ops)) context)"

definition security_file_chmod :: "security_state \<Rightarrow> context_ptr \<Rightarrow> path_ptr \<Rightarrow> u32 \<Rightarrow> int option" where
  "security_file_chmod s context path mode =
     (if context = None \<or> path = None then Some (-1)
      else check_modules s (\<lambda>ops. map_option (\<lambda>f c. f c path mode) (op_file_chmod ops)) context)"

definition security_ipc_permission :: "security_state \<Rightarrow> context_ptr \<Rightarrow> u32 \<Rightarrow> u32 \<Rightarrow> int option" where
  "security_ipc_permission s context key msk =
     (if context = None then Some (-1)
      else check_modules s (\<lambda>ops. map_option (\<lambda>f c. f c key msk) (op_ipc_permission ops)) context)"

section \<open>Access control lists\<close>

record acl_entry =
  acl_tag :: u32
  acl_id :: u32
  acl_perm :: u32

record acl =
  acl_count :: u32
  acl_entries :: "acl_entry list"

definition ACL_USER :: u32 where "ACL_USER = 1"
definition ACL_GROUP :: u32 where "ACL_GROUP = 2"
definition ACL_OTHER :: u32 where "ACL_OTHER = 3"
definition ACL_MASK :: u32 where "ACL_MASK = 4"

lemmas acl_tags = ACL_USER_def ACL_GROUP_def ACL_OTHER_def ACL_MASK_def

definition security_acl_alloc :: "bool \<Rightarrow> acl option" where
  "security_acl_alloc mem_ok = (if \<not> mem_ok then None else Some \<lparr>acl_count = 0, acl_entries = []\<rparr>)"

definition security_acl_add_entry :: "bool \<Rightarrow> acl option \<Rightarrow> u32 \<Rightarrow> u32 \<Rightarrow> u32 \<Rightarrow> acl option \<times> int" where
  "security_acl_add_entry mem_ok a tag ident perm =
     (case a of None \<Rightarrow> (a, -1)
      | Some l \<Rightarrow>
          if \<not> mem_ok then (a, -1)
          else (Some (l\<lparr>acl_entries := acl_entries l @ [\<lparr>acl_tag = tag, acl_id = ident, acl_perm = perm\<rparr>],
                        acl_count := acl_count l + 1\<rparr>), 0))"

fun acl_unlink :: "u32 \<Rightarrow> u32 \<Rightarrow> acl_entry list \<Rightarrow> acl_entry list option" where
  "acl_unlink tag ident [] = None"
| "acl_unlink tag ident (e # es) =
     (if acl_tag e = tag \<and> acl_id e = ident then Some es
      else map_option (\<lambda>r. e # r) (acl_unlink tag ident es))"

definition security_acl_remove_entry :: "acl option \<Rightarrow> u32 \<Rightarrow> u32 \<Rightarrow> acl option \<times> int" where
  "security_acl_remove_entry a tag ident =
     (case a of None \<Rightarrow> (a, -1)
      | Some l \<Rightarrow>
          (case acl_unlink tag ident (acl_entries l) of
             None \<Rightarrow> (a, -1)
           | Some es \<Rightarrow> (Some (l\<lparr>acl_entries := es, acl_count := acl_count l - 1\<rparr>), 0)))"

text \<open>The four entry pointers the scan fills in.\<close>

record acl_scan =
  user_entry :: "acl_entry option"
  group_entry :: "acl_entry option"
  other_entry :: "acl_entry option"
  mask_entry :: "acl_entry option"

fun acl_scan_entries :: "security_context \<Rightarrow> acl_entry list \<Rightarrow> acl_scan \<Rightarrow> acl_scan" where
  "acl_scan_entries c [] r = r"
| "acl_scan_entries c (e # es) r = acl_scan_entries c es
     (if acl_tag e = ACL_USER \<and> acl_id e = sc_euid c then r\<lparr>user_entry := Some e\<rparr>
      else if acl_tag e = ACL_GROUP \<and> acl_id e = sc_egid c then r\<lparr>group_entry := Some e\<rparr>
      else if acl_tag e = ACL_OTHER then r\<lparr>other_entry := Some e\<rparr>
      else if acl_tag e = ACL_MASK then r\<lparr>mask_entry := Some e\<rparr>
      else r)"

definition masked_check :: "acl_entry \<Rightarrow> acl_entry option \<Rightarrow> u32 \<Rightarrow> int" where
  "masked_check e m msk =
     (case m of
        Some k \<Rightarrow> if acl_perm e AND acl_perm k AND msk = msk then 0 else -1
      | None \<Rightarrow> if acl_perm e AND msk = msk then 0 else -1)"

definition security_acl_check :: "acl option \<Rightarrow> context_ptr \<Rightarrow> u32 \<Rightarrow> int" where
  "security_acl_check a context msk =
     (case (a, context) of
        (Some l, Some c) \<Rightarrow>
          if sc_euid c = 0 then 0
          else
            let r = acl_scan_entries c (acl_entries l)
                      \<lparr>user_entry = None, group_entry = None, other_entry = None, mask_entry = None\<rparr>
            in (case user_entry r of
                  Some e \<Rightarrow> masked_check e (mask_entry r) msk
                | None \<Rightarrow>
                    (case group_entry r of
                       Some e \<Rightarrow> masked_check e (mask_entry r) msk
                     | None \<Rightarrow>
                         (case other_entry r of
                            Some e \<Rightarrow> if acl_perm e AND msk = msk then 0 else -1
                          | None \<Rightarrow> -1)))
      | _ \<Rightarrow> -1)"

end
