(* ===== verification/Security_Modules.thy ===== *)
theory Security_Modules
  imports Security
begin

text \<open>
  The three optional security modules: capabilities (\<^verbatim>\<open>kernel/security/capability.c\<close>, copied in
  \<^verbatim>\<open>security/capability.c\<close>), discretionary access control (\<^verbatim>\<open>dac.c\<close>) and mandatory access control
  (\<^verbatim>\<open>mac.c\<close>). Each is a table of hooks registered with the core of theory \<open>Security\<close>. Tests whose
  branches are empty in the source have no effect and are left out.
\<close>

section \<open>Capabilities\<close>

definition capability_task_create :: "context_ptr \<Rightarrow> context_ptr \<Rightarrow> context_ptr \<times> int" where
  "capability_task_create parent child =
     (case (parent, child) of
        (Some p, Some c) \<Rightarrow>
          (Some (c\<lparr>sc_uid := sc_uid p, sc_gid := sc_gid p, sc_euid := sc_euid p, sc_egid := sc_egid p,
             sc_suid := sc_suid p, sc_sgid := sc_sgid p, sc_fsuid := sc_fsuid p, sc_fsgid := sc_fsgid p,
             cap_inheritable := cap_inheritable p,
             cap_permitted := cap_permitted p AND cap_inheritable p,
             cap_effective := cap_effective p AND cap_inheritable p\<rparr>), 0)
      | _ \<Rightarrow> (child, -1))"

definition capability_task_setuid :: "context_ptr \<Rightarrow> u32 \<Rightarrow> context_ptr \<times> int" where
  "capability_task_setuid context uid =
     (case context of None \<Rightarrow> (context, -1)
      | Some c \<Rightarrow>
          if sc_euid c \<noteq> 0 \<and> \<not> security_has_capability context CAP_SETUID then (context, -1)
          else
            let c1 = c\<lparr>sc_uid := uid, sc_euid := uid, sc_suid := uid, sc_fsuid := uid\<rparr>;
                c2 = (if uid \<noteq> 0
                      then c1\<lparr>cap_permitted := cap_permitted c1 AND cap_inheritable c1,
                              cap_effective := cap_effective c1 AND cap_inheritable c1\<rparr>
                      else c1)
            in (Some c2, 0))"

definition capability_task_setgid :: "context_ptr \<Rightarrow> u32 \<Rightarrow> context_ptr \<times> int" where
  "capability_task_setgid context gid =
     (case context of None \<Rightarrow> (context, -1)
      | Some c \<Rightarrow>
          if sc_euid c \<noteq> 0 \<and> \<not> security_has_capability context CAP_SETGID then (context, -1)
          else (Some (c\<lparr>sc_gid := gid, sc_egid := gid, sc_sgid := gid, sc_fsgid := gid\<rparr>), 0))"

definition capability_task_kill :: "context_ptr \<Rightarrow> u32 \<Rightarrow> int" where
  "capability_task_kill context pid =
     (case context of None \<Rightarrow> -1
      | Some c \<Rightarrow> if sc_euid c \<noteq> 0 \<and> \<not> security_has_capability context CAP_KILL then -1 else 0)"

definition capability_file_open :: "context_ptr \<Rightarrow> path_ptr \<Rightarrow> u32 \<Rightarrow> int" where
  "capability_file_open context path flags = (if context = None \<or> path = None then -1 else 0)"

definition capability_file_permission :: "context_ptr \<Rightarrow> path_ptr \<Rightarrow> u32 \<Rightarrow> int" where
  "capability_file_permission context path msk = (if context = None \<or> path = None then -1 else 0)"

definition capability_file_chown :: "context_ptr \<Rightarrow> path_ptr \<Rightarrow> u32 \<Rightarrow> u32 \<Rightarrow> int" where
  "capability_file_chown context path uid gid =
     (case (context, path) of
        (Some c, Some _) \<Rightarrow>
          if sc_euid c \<noteq> 0 \<and> \<not> security_has_capability context CAP_CHOWN then -1 else 0
      | _ \<Rightarrow> -1)"

definition capability_file_chmod :: "context_ptr \<Rightarrow> path_ptr \<Rightarrow> u32 \<Rightarrow> int" where
  "capability_file_chmod context path mode = (if context = None \<or> path = None then -1 else 0)"

definition capability_ipc_permission :: "context_ptr \<Rightarrow> u32 \<Rightarrow> u32 \<Rightarrow> int" where
  "capability_ipc_permission context key msk = (if context = None then -1 else 0)"

definition capability_security_ops :: security_ops where
  "capability_security_ops = \<lparr>op_task_create = Some capability_task_create,
     op_task_setuid = Some capability_task_setuid, op_task_setgid = Some capability_task_setgid,
     op_task_kill = Some capability_task_kill, op_file_open = Some capability_file_open,
     op_file_permission = Some capability_file_permission, op_file_chown = Some capability_file_chown,
     op_file_chmod = Some capability_file_chmod, op_ipc_permission = Some capability_ipc_permission\<rparr>"

definition capability_security_module :: nat where
  "capability_security_module = 1"

definition static_capability_module :: security_module where
  "static_capability_module = \<lparr>m_name = ''capability'', m_ops = Some capability_security_ops, m_next = None\<rparr>"

definition capability_init :: "security_state \<Rightarrow> security_state" where
  "capability_init s = fst (security_register_module s (Some capability_security_module))"

section \<open>Discretionary access control\<close>

definition dac_task_create :: "context_ptr \<Rightarrow> context_ptr \<Rightarrow> context_ptr \<times> int" where
  "dac_task_create parent child =
     (if parent = None \<or> child = None then (child, - EINVAL) else (parent, 0))"

definition dac_task_setuid :: "context_ptr \<Rightarrow> u32 \<Rightarrow> context_ptr \<times> int" where
  "dac_task_setuid context uid =
     (case context of None \<Rightarrow> (context, - EINVAL)
      | Some c \<Rightarrow> if sc_uid c \<noteq> 0 \<and> sc_uid c \<noteq> uid then (context, - EPERM) else (context, 0))"

definition dac_task_setgid :: "context_ptr \<Rightarrow> u32 \<Rightarrow> context_ptr \<times> int" where
  "dac_task_setgid context gid =
     (case context of None \<Rightarrow> (context, - EINVAL)
      | Some c \<Rightarrow> if sc_uid c \<noteq> 0 \<and> sc_gid c \<noteq> gid then (context, - EPERM) else (context, 0))"

definition dac_task_kill :: "context_ptr \<Rightarrow> u32 \<Rightarrow> int" where
  "dac_task_kill context pid = (if context = None then - EINVAL else 0)"

definition dac_file_open :: "context_ptr \<Rightarrow> path_ptr \<Rightarrow> u32 \<Rightarrow> int" where
  "dac_file_open context path flags = (if context = None \<or> path = None then - EINVAL else 0)"

definition dac_file_permission :: "context_ptr \<Rightarrow> path_ptr \<Rightarrow> u32 \<Rightarrow> int" where
  "dac_file_permission context path msk = (if context = None \<or> path = None then - EINVAL else 0)"

definition dac_file_chown :: "context_ptr \<Rightarrow> path_ptr \<Rightarrow> u32 \<Rightarrow> u32 \<Rightarrow> int" where
  "dac_file_chown context path uid gid =
     (case (context, path) of
        (Some c, Some _) \<Rightarrow> if sc_uid c \<noteq> 0 then - EPERM else 0
      | _ \<Rightarrow> - EINVAL)"

definition dac_file_chmod :: "context_ptr \<Rightarrow> path_ptr \<Rightarrow> u32 \<Rightarrow> int" where
  "dac_file_chmod context path mode = (if context = None \<or> path = None then - EINVAL else 0)"

definition dac_ipc_permission :: "context_ptr \<Rightarrow> u32 \<Rightarrow> u32 \<Rightarrow> int" where
  "dac_ipc_permission context key msk = (if context = None then - EINVAL else 0)"

definition dac_ops :: security_ops where
  "dac_ops = \<lparr>op_task_create = Some dac_task_create,
     op_task_setuid = Some dac_task_setuid, op_task_setgid = Some dac_task_setgid,
     op_task_kill = Some dac_task_kill, op_file_open = Some dac_file_open,
     op_file_permission = Some dac_file_permission, op_file_chown = Some dac_file_chown,
     op_file_chmod = Some dac_file_chmod, op_ipc_permission = Some dac_ipc_permission\<rparr>"

definition dac_module :: nat where
  "dac_module = 2"

definition static_dac_module :: security_module where
  "static_dac_module = \<lparr>m_name = ''dac'', m_ops = Some dac_ops, m_next = None\<rparr>"

definition dac_init :: "security_state \<Rightarrow> security_state \<times> int" where
  "dac_init s = security_register_module s (Some dac_module)"

section \<open>Mandatory access control\<close>

definition mac_privileged :: "context_ptr \<Rightarrow> security_context \<Rightarrow> u32 \<Rightarrow> bool" where
  "mac_privileged context c cap \<longleftrightarrow> \<not> (sc_uid c \<noteq> 0 \<and> \<not> security_has_capability context cap)"

definition mac_task_create :: "context_ptr \<Rightarrow> context_ptr \<Rightarrow> context_ptr \<times> int" where
  "mac_task_create parent child =
     (if parent = None \<or> child = None then (child, - EINVAL) else (parent, 0))"

definition mac_task_setuid :: "context_ptr \<Rightarrow> u32 \<Rightarrow> context_ptr \<times> int" where
  "mac_task_setuid context uid =
     (case context of None \<Rightarrow> (context, - EINVAL)
      | Some c \<Rightarrow> if \<not> mac_privileged context c CAP_SETUID then (context, - EPERM) else (context, 0))"

definition mac_task_setgid :: "context_ptr \<Rightarrow> u32 \<Rightarrow> context_ptr \<times> int" where
  "mac_task_setgid context gid =
     (case context of None \<Rightarrow> (context, - EINVAL)
      | Some c \<Rightarrow> if \<not> mac_privileged context c CAP_SETGID then (context, - EPERM) else (context, 0))"

definition mac_task_kill :: "context_ptr \<Rightarrow> u32 \<Rightarrow> int" where
  "mac_task_kill context pid =
     (case context of None \<Rightarrow> - EINVAL
      | Some c \<Rightarrow> if \<not> mac_privileged context c CAP_KILL then - EPERM else 0)"

definition mac_file_open :: "context_ptr \<Rightarrow> path_ptr \<Rightarrow> u32 \<Rightarrow> int" where
  "mac_file_open context path flags = (if context = None \<or> path = None then - EINVAL else 0)"

definition mac_file_permission :: "context_ptr \<Rightarrow> path_ptr \<Rightarrow> u32 \<Rightarrow> int" where
  "mac_file_permission context path msk = (if context = None \<or> path = None then - EINVAL else 0)"

definition mac_file_chown :: "context_ptr \<Rightarrow> path_ptr \<Rightarrow> u32 \<Rightarrow> u32 \<Rightarrow> int" where
  "mac_file_chown context path uid gid =
     (case (context, path) of
        (Some c, Some _) \<Rightarrow> if \<not> mac_privileged context c CAP_CHOWN then - EPERM else 0
      | _ \<Rightarrow> - EINVAL)"

definition mac_file_chmod :: "context_ptr \<Rightarrow> path_ptr \<Rightarrow> u32 \<Rightarrow> int" where
  "mac_file_chmod context path mode =
     (case (context, path) of
        (Some c, Some _) \<Rightarrow> if \<not> mac_privileged context c CAP_FOWNER then - EPERM else 0
      | _ \<Rightarrow> - EINVAL)"

definition mac_ipc_permission :: "context_ptr \<Rightarrow> u32 \<Rightarrow> u32 \<Rightarrow> int" where
  "mac_ipc_permission context key msk =
     (case context of None \<Rightarrow> - EINVAL
      | Some c \<Rightarrow> if \<not> mac_privileged context c CAP_IPC_OWNER then - EPERM else 0)"

definition mac_ops :: security_ops where
  "mac_ops = \<lparr>op_task_create = Some mac_task_create,
     op_task_setuid = Some mac_task_setuid, op_task_setgid = Some mac_task_setgid,
     op_task_kill = Some mac_task_kill, op_file_open = Some mac_file_open,
     op_file_permission = Some mac_file_permission, op_file_chown = Some mac_file_chown,
     op_file_chmod = Some mac_file_chmod, op_ipc_permission = Some mac_ipc_permission\<rparr>"

definition mac_module :: nat where
  "mac_module = 3"

definition static_mac_module :: security_module where
  "static_mac_module = \<lparr>m_name = ''mac'', m_ops = Some mac_ops, m_next = None\<rparr>"

definition mac_init :: "security_state \<Rightarrow> security_state \<times> int" where
  "mac_init s = security_register_module s (Some mac_module)"

text \<open>The static module objects of the kernel before any of them is registered.\<close>

definition static_modules :: "nat \<Rightarrow> security_module" where
  "static_modules p =
     (if p = default_security_module then static_default_module
      else if p = capability_security_module then static_capability_module
      else if p = dac_module then static_dac_module
      else static_mac_module)"

end
