(* ===== verification/Security_Props.thy ===== *)
theory Security_Props
  imports Security_Modules
begin

text \<open>
  Claims about the security core and its modules. The chain of modules is related to the list of
  its addresses (\<open>chain_rep\<close>); the interface \<open>module_chain\<close> states what registration and
  unregistration do to that list and is interpreted on the code's model.
\<close>

section \<open>The chain as a list\<close>

definition module_path :: "(nat \<Rightarrow> security_module) \<Rightarrow> nat option \<Rightarrow> nat list \<Rightarrow> bool" where
  "module_path mods = node_path (\<lambda>q. m_next (mods q))"

lemma module_path_simps [simp]:
  "module_path mods h [] \<longleftrightarrow> h = None"
  "module_path mods h (p # ps) \<longleftrightarrow> h = Some p \<and> module_path mods (m_next (mods p)) ps"
  by (simp_all add: module_path_def)

lemma next_upd: "(\<lambda>q. m_next ((mods(p := v)) q)) = (\<lambda>q. m_next (mods q))(p := m_next v)"
  by auto

lemma module_path_upd:
  "p \<notin> set ps \<Longrightarrow> module_path (mods(p := v)) h ps = module_path mods h ps"
  unfolding module_path_def next_upd by (rule node_path_upd)

text \<open>The chain ends in the default module, whose table is the default one.\<close>

definition chain_rep :: "security_state \<Rightarrow> nat list \<Rightarrow> bool" where
  "chain_rep s ps \<longleftrightarrow> module_path (module_at s) (security_modules s) ps \<and> distinct ps \<and>
     ps \<noteq> [] \<and> last ps = default_security_module \<and>
     m_ops (module_at s default_security_module) = Some default_security_ops"

lemma find_prev_path:
  "module_path mods h ps \<Longrightarrow> h \<noteq> Some p \<Longrightarrow>
   (p \<notin> set ps \<and> find_prev mods h p = Some None) \<or>
   (\<exists>us q vs. ps = us @ q # p # vs \<and> find_prev mods h p = Some (Some q))"
  unfolding module_path_def find_prev_def by (rule walk_prev_path)

lemma module_path_cut:
  "module_path mods h (us @ q # p # vs) \<Longrightarrow> distinct (us @ q # p # vs) \<Longrightarrow>
   module_path (mods(q := (mods q)\<lparr>m_next := m_next (mods p)\<rparr>)) h (us @ q # vs)"
  using node_path_skip [of "\<lambda>q. m_next (mods q)" h us q p vs] unfolding module_path_def next_upd by simp

lemma register_rep:
  assumes "chain_rep s ps" and "p \<notin> set ps" and "m_ops (module_at s p) \<noteq> None"
  shows "chain_rep (fst (security_register_module s (Some p))) (p # ps)"
proof -
  have "p \<noteq> default_security_module"
    using assms(1,2) last_in_set [of ps] by (auto simp: chain_rep_def)
  with assms show ?thesis
    by (auto simp: chain_rep_def security_register_module_def module_path_upd)
qed

lemma unregister_rep:
  assumes rep: "chain_rep s ps" and p: "p \<noteq> default_security_module"
  shows "\<exists>s'. security_unregister_module s (Some p) = Some (s', 0) \<and> chain_rep s' (remove1 p ps) \<and>
    m_ops \<circ> module_at s' = m_ops \<circ> module_at s"
proof (cases "security_modules s = Some p")
  case True
  with rep obtain qs where ps: "ps = p # qs" by (cases ps) (auto simp: chain_rep_def)
  with rep p have "qs \<noteq> []" by (auto simp: chain_rep_def)
  with True rep p ps show ?thesis
    by (auto simp: security_unregister_module_def chain_rep_def)
next
  case False
  from rep have path: "module_path (module_at s) (security_modules s) ps" "distinct ps"
    by (auto simp: chain_rep_def)
  from find_prev_path [OF path(1) False] show ?thesis
  proof (elim disjE exE conjE)
    assume "p \<notin> set ps" "find_prev (module_at s) (security_modules s) p = Some None"
    with False p rep show ?thesis by (auto simp: security_unregister_module_def remove1_idem)
  next
    fix us q vs
    assume ps: "ps = us @ q # p # vs" and prev: "find_prev (module_at s) (security_modules s) p = Some (Some q)"
    let ?m = "(module_at s)(q := (module_at s q)\<lparr>m_next := m_next (module_at s p)\<rparr>)"
    have "remove1 p ps = us @ q # vs"
      using path(2) ps by (auto simp: remove1_append)
    moreover have "module_path ?m (security_modules s) (us @ q # vs)"
      using path ps by (intro module_path_cut) auto
    moreover have "last (us @ q # vs) = default_security_module"
    proof -
      have "last ps = default_security_module" using rep by (simp add: chain_rep_def)
      with ps p show ?thesis by (cases vs) auto
    qed
    ultimately show ?thesis
      using False p prev rep path(2) ps
      by (auto simp: security_unregister_module_def chain_rep_def fun_eq_iff)
  qed
qed

section \<open>The interface of the chain\<close>

locale module_chain =
  fixes rep :: "'s \<Rightarrow> nat list \<Rightarrow> bool"
    and register :: "'s \<Rightarrow> nat \<Rightarrow> 's"
    and unregister :: "'s \<Rightarrow> nat \<Rightarrow> 's option"
    and loaded :: "'s \<Rightarrow> nat \<Rightarrow> bool"
    and pinned :: nat
  assumes rep_register: "rep s ps \<Longrightarrow> p \<notin> set ps \<Longrightarrow> loaded s p \<Longrightarrow> rep (register s p) (p # ps)"
    and rep_unregister: "rep s ps \<Longrightarrow> p \<noteq> pinned \<Longrightarrow>
      \<exists>s'. unregister s p = Some s' \<and> rep s' (remove1 p ps)"
    and rep_pinned: "rep s ps \<Longrightarrow> pinned \<in> set ps"
    and rep_distinct: "rep s ps \<Longrightarrow> distinct ps"
begin

lemma register_unregister:
  assumes "rep s ps" and "p \<notin> set ps" and "loaded s p"
  shows "\<exists>s'. unregister (register s p) p = Some s' \<and> rep s' ps"
proof -
  have "p \<noteq> pinned" using rep_pinned [OF assms(1)] assms(2) by auto
  from rep_unregister [OF rep_register [OF assms] this] show ?thesis by simp
qed

lemma unregister_gone:
  assumes "rep s ps" and "p \<noteq> pinned"
  shows "\<exists>s' qs. unregister s p = Some s' \<and> rep s' qs \<and> p \<notin> set qs \<and> set qs = set ps - {p}"
  using rep_unregister [OF assms] rep_distinct [OF assms(1)] by fastforce

end

interpretation sec: module_chain chain_rep
  "\<lambda>s p. fst (security_register_module s (Some p))"
  "\<lambda>s p. map_option fst (security_unregister_module s (Some p))"
  "\<lambda>s p. m_ops (module_at s p) \<noteq> None" default_security_module
proof unfold_locales
  fix s ps p
  show "chain_rep s ps \<Longrightarrow> p \<notin> set ps \<Longrightarrow> m_ops (module_at s p) \<noteq> None \<Longrightarrow>
      chain_rep (fst (security_register_module s (Some p))) (p # ps)"
    by (rule register_rep)
  show "chain_rep s ps \<Longrightarrow> p \<noteq> default_security_module \<Longrightarrow>
      \<exists>s'. map_option fst (security_unregister_module s (Some p)) = Some s' \<and> chain_rep s' (remove1 p ps)"
    using unregister_rep [of s ps p] by fastforce
  show "chain_rep s ps \<Longrightarrow> default_security_module \<in> set ps"
    using last_in_set [of ps] by (auto simp: chain_rep_def)
  show "chain_rep s ps \<Longrightarrow> distinct ps" by (simp add: chain_rep_def)
qed

section \<open>Running the hooks\<close>

fun run_chain :: "(nat \<Rightarrow> security_module) \<Rightarrow> (security_ops \<Rightarrow> update_hook option) \<Rightarrow> nat list \<Rightarrow>
    context_ptr \<Rightarrow> context_ptr \<times> int" where
  "run_chain mods hook [] c = (c, 0)"
| "run_chain mods hook (p # ps) c =
     (case Option.bind (m_ops (mods p)) hook of
        None \<Rightarrow> run_chain mods hook ps c
      | Some f \<Rightarrow> if snd (f c) < 0 then f c else run_chain mods hook ps (fst (f c)))"

lemma call_modules_path:
  "module_path mods h ps \<Longrightarrow> call_modules mods hook h c = Some (run_chain mods hook ps c)"
proof (induction ps arbitrary: h c)
  case Nil
  then show ?case by (simp add: call_modules.simps)
next
  case (Cons p ps)
  then show ?case
    by (subst call_modules.simps) (simp split: option.split)
qed

definition answers :: "security_state \<Rightarrow> (security_ops \<Rightarrow> (context_ptr \<Rightarrow> int) option) \<Rightarrow> context_ptr \<Rightarrow>
    nat list \<Rightarrow> int list" where
  "answers s hook c ps = List.map_filter (\<lambda>p. map_option (\<lambda>f. f c) (Option.bind (m_ops (module_at s p)) hook)) ps"

lemma run_chain_check:
  "snd (run_chain (module_at s) (\<lambda>ops. map_option (\<lambda>f c. (c, f c)) (hook ops)) ps c) =
     (case filter (\<lambda>r. r < 0) (answers s hook c ps) of [] \<Rightarrow> 0 | r # _ \<Rightarrow> r)"
proof (induction ps)
  case (Cons p ps)
  then show ?case
    by (cases "Option.bind (m_ops (module_at s p)) hook"; cases "m_ops (module_at s p)")
      (auto simp: answers_def List.map_filter_simps)
qed (simp add: answers_def List.map_filter_simps)

lemma check_modules_result:
  assumes "chain_rep s ps"
  shows "check_modules s hook c =
    Some (case filter (\<lambda>r. r < 0) (answers s hook c ps) of [] \<Rightarrow> 0 | r # _ \<Rightarrow> r)"
proof -
  from assms have "module_path (module_at s) (security_modules s) ps" by (simp add: chain_rep_def)
  from call_modules_path [OF this] show ?thesis
    by (simp add: check_modules_def run_chain_check)
qed

lemma check_modules_granted:
  assumes "chain_rep s ps"
  shows "\<exists>r \<le> 0. check_modules s hook c = Some r \<and> (r = 0 \<longleftrightarrow> (\<forall>a \<in> set (answers s hook c ps). 0 \<le> a))"
proof (cases "filter (\<lambda>r. r < 0) (answers s hook c ps)")
  case Nil
  with check_modules_result [OF assms, of hook c] show ?thesis
    by (auto simp: filter_empty_conv not_less)
next
  case (Cons r rs)
  then have "r \<in> set (answers s hook c ps)" "r < 0"
    using Cons_eq_filterD [OF Cons [symmetric]] by auto
  with Cons check_modules_result [OF assms, of hook c] show ?thesis by force
qed

lemma default_answer:
  "chain_rep s ps \<Longrightarrow> hook default_security_ops = Some f \<Longrightarrow> f c \<in> set (answers s hook c ps)"
  using sec.rep_pinned [of s ps]
  by (auto simp: answers_def List.map_filter_def chain_rep_def image_iff intro!: bexI)

section \<open>Runs of the module interface\<close>

definition registered :: "security_state \<Rightarrow> nat \<Rightarrow> bool" where
  "registered s p \<longleftrightarrow> (\<exists>ps. module_path (module_at s) (security_modules s) ps \<and> p \<in> set ps)"

text \<open>
  What the kernel may do with modules: initialise the core, set up a module object that is not
  linked, register a module that is not linked, and unregister any module.
\<close>

inductive security_reach :: "security_state \<Rightarrow> bool" where
  init: "m_ops (module_at s default_security_module) = Some default_security_ops \<Longrightarrow>
    security_reach (security_init s)"
| set_up: "security_reach s \<Longrightarrow> \<not> registered s p \<Longrightarrow>
    security_reach (s\<lparr>module_at := (module_at s)(p := v)\<rparr>)"
| register: "security_reach s \<Longrightarrow> \<not> registered s p \<Longrightarrow>
    security_reach (fst (security_register_module s (Some p)))"
| unregister: "security_reach s \<Longrightarrow> security_unregister_module s module = Some (s', r) \<Longrightarrow>
    security_reach s'"

lemma chain_rep_unregistered:
  "chain_rep s ps \<Longrightarrow> \<not> registered s p \<Longrightarrow> p \<notin> set ps \<and> p \<noteq> default_security_module"
  using sec.rep_pinned [of s ps] by (auto simp: registered_def chain_rep_def)

lemma security_reach_rep: "security_reach s \<Longrightarrow> \<exists>ps. chain_rep s ps"
proof (induction rule: security_reach.induct)
  case (init s)
  then have "chain_rep (security_init s) [default_security_module]"
    by (simp add: security_init_def security_register_module_def chain_rep_def)
  then show ?case by blast
next
  case (set_up s p v)
  then obtain ps where ps: "chain_rep s ps" by blast
  with chain_rep_unregistered [OF ps set_up(2)]
  have "chain_rep (s\<lparr>module_at := (module_at s)(p := v)\<rparr>) ps"
    by (auto simp: chain_rep_def module_path_upd)
  then show ?case by blast
next
  case (register s p)
  then obtain ps where ps: "chain_rep s ps" by blast
  show ?case
  proof (cases "m_ops (module_at s p)")
    case None
    with ps show ?thesis by (auto simp: security_register_module_def)
  next
    case (Some ops)
    with register_rep [OF ps] chain_rep_unregistered [OF ps register(2)] show ?thesis by blast
  qed
next
  case (unregister s module s' r)
  then obtain ps where ps: "chain_rep s ps" by blast
  show ?case
  proof (cases "module = None \<or> module = Some default_security_module")
    case True
    with unregister ps show ?thesis by (auto simp: security_unregister_module_def)
  next
    case False
    then obtain p where p: "module = Some p" "p \<noteq> default_security_module" by auto
    from unregister_rep [OF ps p(2)] unregister(2) p(1) show ?thesis by auto
  qed
qed

section \<open>Claims\<close>

definition boot_modules :: security_state where
  "boot_modules = capability_init (security_init \<lparr>security_modules = None, module_at = static_modules\<rparr>)"

lemma boot_modules_rep: "chain_rep boot_modules [capability_security_module, default_security_module]"
  by (simp add: chain_rep_def boot_modules_def capability_init_def security_init_def
      security_register_module_def default_security_module_def capability_security_module_def
      static_modules_def static_default_module_def static_capability_module_def)

lemma boot_modules_reach: "security_reach boot_modules"
proof -
  let ?s = "security_init \<lparr>security_modules = None, module_at = static_modules\<rparr>"
  have "security_reach ?s"
    by (intro security_reach.init)
      (simp add: static_modules_def static_default_module_def)
  moreover have "\<not> registered ?s capability_security_module"
  proof -
    have "chain_rep ?s [default_security_module]"
      by (simp add: security_init_def security_register_module_def chain_rep_def static_modules_def
          static_default_module_def)
    then have "set ps = {default_security_module}"
      if "module_path (module_at ?s) (security_modules ?s) ps" for ps
      using that by (cases ps; cases "tl ps")
        (auto simp: chain_rep_def security_init_def security_register_module_def static_modules_def
          static_default_module_def)
    then show ?thesis
      by (auto simp: registered_def default_security_module_def capability_security_module_def)
  qed
  ultimately show ?thesis
    unfolding boot_modules_def capability_init_def by (rule security_reach.register)
qed

text \<open>An unprivileged context: not root and without any capability.\<close>

definition nobody :: security_context where
  "nobody = \<lparr>sc_uid = 1000, sc_gid = 1000, sc_euid = 1000, sc_egid = 1000, sc_suid = 1000,
     sc_sgid = 1000, sc_fsuid = 1000, sc_fsgid = 1000, cap_inheritable = 0, cap_permitted = 0,
     cap_effective = 0\<rparr>"

text \<open>
  C29. The default policy cannot be switched off: whatever modules have been set up, registered and
  unregistered since \<^verbatim>\<open>security_init\<close>, where only modules that are not linked at the time are set up and
  registered (one that is linked already would close the list into a loop), a task that is not root and
  lacks the capability is refused \<^verbatim>\<open>security_task_kill\<close> and \<^verbatim>\<open>security_file_chown\<close>, and both checks return.
\<close>

theorem default_policy_enforced:
  assumes "security_reach s" and "sc_euid c \<noteq> 0"
    and "\<not> security_has_capability (Some c) CAP_KILL" and "\<not> security_has_capability (Some c) CAP_CHOWN"
  shows "(\<exists>r<0. security_task_kill s (Some c) pid = Some r) \<and>
    (\<exists>r<0. security_file_chown s (Some c) (Some path) uid gid = Some r)"
proof -
  from security_reach_rep [OF assms(1)] obtain ps where ps: "chain_rep s ps" by blast
  have deny: "\<exists>r<0. check_modules s hook (Some c) = Some r"
    if "hook default_security_ops = Some f" "f (Some c) < 0" for hook f
    using check_modules_granted [OF ps, of hook "Some c"] default_answer [OF ps, of hook f "Some c"] that
    by force
  show ?thesis
    unfolding security_task_kill_def security_file_chown_def
    using assms(2-4)
    by (auto intro!: deny simp: default_security_ops_def default_task_kill_def default_file_chown_def)
qed

theorem default_policy_enforced_witness:
  "(\<exists>r<0. security_task_kill boot_modules (Some nobody) 1 = Some r) \<and>
   (\<exists>r<0. security_file_chown boot_modules (Some nobody) (Some ''/etc/passwd'') 0 0 = Some r)"
  by (rule default_policy_enforced [OF boot_modules_reach])
    (simp_all add: nobody_def security_has_capability_def)

text \<open>
  Access checks are a conjunction: as long as the chain is well formed, \<^verbatim>\<open>security_task_kill\<close>
  returns, its result is at most zero, and it is zero exactly when no module in the chain that has
  the hook refuses; otherwise it is the refusal of the first such module in the chain.
\<close>

theorem task_kill_conjunction:
  assumes "chain_rep s ps"
  shows "security_task_kill s (Some c) pid =
    Some (case filter (\<lambda>r. r < 0) [f (Some c) pid. p \<leftarrow> ps, ops \<leftarrow> (case m_ops (module_at s p) of None \<Rightarrow> [] | Some x \<Rightarrow> [x]),
        f \<leftarrow> (case op_task_kill ops of None \<Rightarrow> [] | Some x \<Rightarrow> [x])] of [] \<Rightarrow> 0 | r # _ \<Rightarrow> r)"
proof -
  have "answers s (\<lambda>ops. map_option (\<lambda>f c. f c pid) (op_task_kill ops)) (Some c) qs =
      [f (Some c) pid. p \<leftarrow> qs, ops \<leftarrow> (case m_ops (module_at s p) of None \<Rightarrow> [] | Some x \<Rightarrow> [x]),
        f \<leftarrow> (case op_task_kill ops of None \<Rightarrow> [] | Some x \<Rightarrow> [x])]" for qs
    by (induction qs) (auto simp: answers_def List.map_filter_simps split: option.split)
  with check_modules_result [OF assms] show ?thesis by (simp add: security_task_kill_def)
qed

theorem task_kill_conjunction_witness:
  "security_task_kill boot_modules (Some nobody) 1 = Some (-1)"
  using task_kill_conjunction [OF boot_modules_rep, of nobody 1]
  by (simp add: boot_modules_def capability_init_def security_init_def
      security_register_module_def default_security_module_def capability_security_module_def
      static_modules_def static_default_module_def static_capability_module_def
      default_security_ops_def capability_security_ops_def default_task_kill_def
      capability_task_kill_def nobody_def security_has_capability_def)

text \<open>
  With the capability module registered, root cannot drop its privileges cleanly, a defect:
  the capability hook runs first, sets all user ids and clears the capabilities, and the default
  hook that runs after it then finds an unprivileged context and refuses. The call reports failure
  although every id has changed.
\<close>

theorem setuid_fails_after_change:
  assumes "sc_euid c = 0" and "uid \<noteq> 0" and "cap_inheritable c AND CAP_SETUID = 0"
  shows "\<exists>c'. security_task_setuid boot_modules (Some c) uid = Some (Some c', -1) \<and>
    sc_uid c' = uid \<and> sc_euid c' = uid \<and> sc_suid c' = uid \<and> sc_fsuid c' = uid"
proof -
  have path: "module_path (module_at boot_modules) (security_modules boot_modules)
      [capability_security_module, default_security_module]"
    using boot_modules_rep by (simp add: chain_rep_def)
  have "cap_effective c AND cap_inheritable c AND CAP_SETUID = 0"
    using assms(3) by (simp add: and.assoc)
  then show ?thesis
    using assms(1,2)
    by (simp add: security_task_setuid_def call_modules_path [OF path] and.assoc)
      (simp add: boot_modules_def capability_init_def security_init_def
        security_register_module_def default_security_module_def capability_security_module_def
        static_modules_def static_default_module_def static_capability_module_def
        default_security_ops_def capability_security_ops_def default_task_setuid_def
        capability_task_setuid_def security_has_capability_def Let_def and.assoc)
qed

theorem setuid_fails_after_change_witness:
  "\<exists>c c'. security_alloc_context True = Some c \<and>
     security_task_setuid boot_modules (Some c) 1000 = Some (Some c', -1) \<and> sc_euid c' = 1000"
proof -
  obtain c where c: "security_alloc_context True = Some c" "sc_euid c = 0" "cap_inheritable c = 0"
    by (simp add: security_alloc_context_def)
  from setuid_fails_after_change [OF c(2), of 1000] c show ?thesis by auto
qed

text \<open>
  The capability module's rule for new tasks has no effect, a defect: the default hook runs
  after it and copies the parent's context in full, so the child is given all of the parent's
  permitted and effective capabilities and not only the inheritable ones.
\<close>

theorem task_create_copies_all_capabilities:
  "security_task_create boot_modules (Some parent) (Some child) = Some (Some parent, 0) \<and>
   (\<exists>c. capability_task_create (Some parent) (Some child) = (Some c, 0) \<and>
     cap_effective c = cap_effective parent AND cap_inheritable parent)"
proof -
  have path: "module_path (module_at boot_modules) (security_modules boot_modules)
      [capability_security_module, default_security_module]"
    using boot_modules_rep by (simp add: chain_rep_def)
  have "\<exists>c. capability_task_create (Some parent) (Some child) = (Some c, 0)"
    by (simp add: capability_task_create_def)
  moreover have "default_task_create (Some parent) (Some c) = (Some parent, 0)" for c
    by (simp add: default_task_create_def)
  ultimately show ?thesis
    by (auto simp: security_task_create_def call_modules_path [OF path] capability_task_create_def)
      (simp add: boot_modules_def capability_init_def security_init_def
        security_register_module_def default_security_module_def capability_security_module_def
        static_modules_def static_default_module_def static_capability_module_def
        default_security_ops_def capability_security_ops_def capability_task_create_def
        default_task_create_def)
qed

section \<open>Access control lists\<close>

text \<open>The last entry of a list that satisfies a condition.\<close>

definition last_entry :: "(acl_entry \<Rightarrow> bool) \<Rightarrow> acl_entry list \<Rightarrow> acl_entry option" where
  "last_entry P es = find P (rev es)"

lemma last_entry_simps [simp]:
  "last_entry P [] = None"
  "last_entry P (e # es) = (case last_entry P es of None \<Rightarrow> if P e then Some e else None | Some x \<Rightarrow> Some x)"
proof -
  have "find P (xs @ ys) = (case find P xs of None \<Rightarrow> find P ys | Some x \<Rightarrow> Some x)" for xs ys
    by (induction xs) auto
  then show "last_entry P (e # es) =
      (case last_entry P es of None \<Rightarrow> if P e then Some e else None | Some x \<Rightarrow> Some x)"
    by (simp add: last_entry_def split: option.split)
qed (simp add: last_entry_def)

definition or_else :: "'a option \<Rightarrow> 'a option \<Rightarrow> 'a option" where
  "or_else a b = (case a of None \<Rightarrow> b | Some x \<Rightarrow> Some x)"

lemma acl_scan_last:
  "acl_scan_entries c es r =
   \<lparr>user_entry = or_else (last_entry (\<lambda>e. acl_tag e = ACL_USER \<and> acl_id e = sc_euid c) es) (user_entry r),
    group_entry = or_else (last_entry (\<lambda>e. acl_tag e = ACL_GROUP \<and> acl_id e = sc_egid c) es) (group_entry r),
    other_entry = or_else (last_entry (\<lambda>e. acl_tag e = ACL_OTHER) es) (other_entry r),
    mask_entry = or_else (last_entry (\<lambda>e. acl_tag e = ACL_MASK) es) (mask_entry r)\<rparr>"
proof (induction es arbitrary: r)
  case Nil
  then show ?case by (simp add: or_else_def)
next
  case (Cons e es)
  then show ?case by (auto simp: or_else_def acl_tags split: option.split)
qed

text \<open>A permission set covers a request.\<close>

definition covers :: "u32 \<Rightarrow> u32 \<Rightarrow> bool" where
  "covers perm req \<longleftrightarrow> (\<forall>i. bit req i \<longrightarrow> bit perm i)"

lemma covers_iff: "perm AND req = req \<longleftrightarrow> covers perm req"
proof
  assume "perm AND req = req"
  then have "bit (perm AND req) i = bit req i" for i by simp
  then show "covers perm req" by (auto simp: covers_def bit_and_iff)
qed (auto simp: covers_def bit_eq_iff bit_simps)

text \<open>
  The access decision a list stands for: the last entry for the user decides, else the last one
  for the group, both cut down to the last mask entry; else the last entry for others.
\<close>

definition acl_allows :: "acl_entry list \<Rightarrow> security_context \<Rightarrow> u32 \<Rightarrow> bool" where
  "acl_allows es c req \<longleftrightarrow>
     (let capped = (\<lambda>e. covers (acl_perm e) req \<and>
                (case last_entry (\<lambda>k. acl_tag k = ACL_MASK) es of None \<Rightarrow> True | Some k \<Rightarrow> covers (acl_perm k) req))
      in case last_entry (\<lambda>e. acl_tag e = ACL_USER \<and> acl_id e = sc_euid c) es of
           Some e \<Rightarrow> capped e
         | None \<Rightarrow>
             (case last_entry (\<lambda>e. acl_tag e = ACL_GROUP \<and> acl_id e = sc_egid c) es of
                Some e \<Rightarrow> capped e
              | None \<Rightarrow>
                  (case last_entry (\<lambda>e. acl_tag e = ACL_OTHER) es of
                     Some e \<Rightarrow> covers (acl_perm e) req
                   | None \<Rightarrow> False)))"

lemma covers_and: "covers (a AND b) req \<longleftrightarrow> covers a req \<and> covers b req"
  by (auto simp: covers_def bit_simps)

lemma masked_check_covers:
  "masked_check e m req =
     (if covers (acl_perm e) req \<and> (case m of None \<Rightarrow> True | Some k \<Rightarrow> covers (acl_perm k) req) then 0 else -1)"
  by (auto simp: masked_check_def covers_iff covers_and and.assoc [symmetric] split: option.split)

text \<open>
  C30. \<^verbatim>\<open>security_acl_check\<close> decides exactly the access its list stands for: root is always
  allowed; any other task is allowed when the deciding entry (user before group before others, the
  last one added of each) grants every requested permission, capped by the mask entry for users
  and groups. Every other call, null pointers included, is refused.
\<close>

theorem acl_check_equivalent:
  "security_acl_check a ctx req =
     (if \<exists>l c. a = Some l \<and> ctx = Some c \<and> (sc_euid c = 0 \<or> acl_allows (acl_entries l) c req)
      then 0 else -1)"
proof (cases a)
  case (Some l)
  show ?thesis
  proof (cases ctx)
    case (Some c)
    then show ?thesis
      unfolding security_acl_check_def acl_allows_def Let_def acl_scan_last
      by (simp add: \<open>a = Some l\<close> or_else_def masked_check_covers covers_iff split: option.split)
  qed (simp add: security_acl_check_def split: option.split)
qed (simp add: security_acl_check_def)

lemma acl_unlink_append:
  "\<forall>e \<in> set es. \<not> (acl_tag e = tag \<and> acl_id e = ident) \<Longrightarrow>
   acl_unlink tag ident (es @ [\<lparr>acl_tag = tag, acl_id = ident, acl_perm = perm\<rparr>]) = Some es"
  by (induction es) auto

lemma acl_unlink_length: "acl_unlink tag ident es = Some es' \<Longrightarrow> length es = Suc (length es')"
  by (induction es arbitrary: es') (auto split: if_splits)

definition acl_count_ok :: "acl \<Rightarrow> bool" where
  "acl_count_ok l \<longleftrightarrow> acl_count l = of_nat (length (acl_entries l))"

text \<open>
  The entry count of a list is always the number of its entries: it is for a new list, and
  adding and removing entries, successful or not, keep it. Removing an entry right after adding
  it restores the list where no entry for the same tag and id was there before.
\<close>

theorem acl_count_invariant:
  assumes "acl_count_ok l"
  shows "(\<forall>l0. security_acl_alloc ok = Some l0 \<longrightarrow> acl_count_ok l0) \<and>
    (\<forall>l'. fst (security_acl_add_entry ok (Some l) tag ident perm) = Some l' \<longrightarrow> acl_count_ok l') \<and>
    (\<forall>l'. fst (security_acl_remove_entry (Some l) tag ident) = Some l' \<longrightarrow> acl_count_ok l') \<and>
    ((\<forall>e \<in> set (acl_entries l). \<not> (acl_tag e = tag \<and> acl_id e = ident)) \<longrightarrow>
      security_acl_remove_entry (fst (security_acl_add_entry True (Some l) tag ident perm)) tag ident =
        (Some l, 0))"
proof -
  have "fst (security_acl_remove_entry (Some l) tag ident) = Some l' \<Longrightarrow> acl_count_ok l'" for l'
    using assms acl_unlink_length [of tag ident "acl_entries l"]
    by (auto simp: security_acl_remove_entry_def acl_count_ok_def split: option.splits)
  moreover have "(\<forall>e \<in> set (acl_entries l). \<not> (acl_tag e = tag \<and> acl_id e = ident)) \<Longrightarrow>
      security_acl_remove_entry (fst (security_acl_add_entry True (Some l) tag ident perm)) tag ident =
        (Some l, 0)"
    using acl_unlink_append [of "acl_entries l" tag ident perm]
    by (simp add: security_acl_remove_entry_def security_acl_add_entry_def)
  ultimately show ?thesis
    using assms
    by (auto simp: security_acl_alloc_def security_acl_add_entry_def acl_count_ok_def)
qed

theorem acl_count_invariant_witness:
  "security_acl_remove_entry
     (fst (security_acl_add_entry True (Some \<lparr>acl_count = 0, acl_entries = []\<rparr>) ACL_USER 7 6)) ACL_USER 7 =
   (Some \<lparr>acl_count = 0, acl_entries = []\<rparr>, 0)"
  using acl_count_invariant [of "\<lparr>acl_count = 0, acl_entries = []\<rparr>" True ACL_USER 7 6]
  by (simp add: acl_count_ok_def)

section \<open>Registering twice\<close>

text \<open>A walk along a chain that loops at a module which does not refuse has no result.\<close>

lemma call_modules_cycle:
  assumes "call_modules mods hook h c = Some y" and "h = Some p" and "m_next (mods p) = Some p"
    and "Option.bind (m_ops (mods p)) hook = Some f" and "f c = (c, r)" and "0 \<le> r"
  shows False
proof -
  let ?P = "\<lambda>mods hook h c y. h = Some p \<longrightarrow> m_next (mods p) = Some p \<longrightarrow>
    Option.bind (m_ops (mods p)) hook = Some f \<longrightarrow> f c = (c, r) \<longrightarrow> False"
  have "?P mods hook h c y"
  proof (rule call_modules.raw_induct [of ?P, OF _ assms(1)], intro impI)
    fix call :: "(nat \<Rightarrow> security_module) \<Rightarrow> (security_ops \<Rightarrow> update_hook option) \<Rightarrow> nat option \<Rightarrow>
      context_ptr \<Rightarrow> (context_ptr \<times> int) option"
      and mods hook h c y
    assume IH: "\<And>mods hook h c y. call mods hook h c = Some y \<Longrightarrow> ?P mods hook h c y"
      and body: "(case h of None \<Rightarrow> Some (c, 0)
        | Some p \<Rightarrow> (case Option.bind (m_ops (mods p)) hook of
            None \<Rightarrow> call mods hook (m_next (mods p)) c
          | Some f \<Rightarrow> if snd (f c) < 0 then Some (f c) else call mods hook (m_next (mods p)) (fst (f c)))) = Some y"
      and loop: "h = Some p" "m_next (mods p) = Some p" "Option.bind (m_ops (mods p)) hook = Some f"
        "f c = (c, r)"
    from body loop assms(6) have "call mods hook (Some p) c = Some y" by simp
    from IH [OF this] loop show False by simp
  qed
  with assms show ?thesis by blast
qed

text \<open>
  Registering a module that is at the head of the chain a second time links it to itself, a
  defect: \<^verbatim>\<open>security_register_module\<close> does not look for the module in the list. From then on no
  check that this module does not refuse ever returns; for the capability module this is every
  \<^verbatim>\<open>security_task_kill\<close> by root.
\<close>

theorem double_registration_hangs:
  assumes "sc_euid c = 0"
  shows "snd (security_register_module boot_modules (Some capability_security_module)) = 0 \<and>
    security_task_kill (capability_init boot_modules) (Some c) pid = None"
proof -
  let ?s = "capability_init boot_modules"
  have ops: "m_ops (module_at ?s capability_security_module) = Some capability_security_ops"
    and loop: "m_next (module_at ?s capability_security_module) = Some capability_security_module"
    and head: "security_modules ?s = Some capability_security_module"
    and ret: "snd (security_register_module boot_modules (Some capability_security_module)) = 0"
    by (simp_all add: boot_modules_def capability_init_def security_init_def
        security_register_module_def default_security_module_def capability_security_module_def
        static_modules_def static_default_module_def static_capability_module_def)
  let ?hook = "\<lambda>ops. map_option (\<lambda>f c. (c, f c)) (map_option (\<lambda>f c. f c pid) (op_task_kill ops))"
  have "call_modules (module_at ?s) ?hook (Some capability_security_module) (Some c) = None"
  proof (rule ccontr)
    assume "call_modules (module_at ?s) ?hook (Some capability_security_module) (Some c) \<noteq> None"
    then obtain y where "call_modules (module_at ?s) ?hook (Some capability_security_module) (Some c) = Some y"
      by auto
    from call_modules_cycle [OF this refl loop, of _ 0] ops assms show False
      by (simp add: capability_security_ops_def capability_task_kill_def)
  qed
  with head ret show ?thesis by (simp add: security_task_kill_def check_modules_def)
qed

theorem double_registration_hangs_witness:
  "security_task_kill (capability_init boot_modules) (security_alloc_context True) 1 = None"
  using double_registration_hangs [of "the (security_alloc_context True)" 1]
  by (simp add: security_alloc_context_def)

end
