(* ===== verification/Seccomp.thy ===== *)
theory Seccomp
  imports Horizon_Prelude
begin

text \<open>
  Secure computing mode, \<^verbatim>\<open>kernel/security/seccomp.c\<close>: the mode and the filter chain of a task, and
  the decision on a system call. Filters live in a heap of filter objects, so a pointer to a freed
  filter is visible as an address that is not allocated. \<^verbatim>\<open>kmalloc\<close> is an argument: the address
  of the new object, or \<^const>\<open>None\<close> for NULL. Reading through a null or freed pointer has no result.
\<close>

section \<open>Data\<close>

definition SECCOMP_SET_MODE_STRICT :: u32 where "SECCOMP_SET_MODE_STRICT = 0"
definition SECCOMP_SET_MODE_FILTER :: u32 where "SECCOMP_SET_MODE_FILTER = 1"
definition SECCOMP_GET_ACTION_AVAIL :: u32 where "SECCOMP_GET_ACTION_AVAIL = 2"
definition SECCOMP_GET_NOTIF_SIZES :: u32 where "SECCOMP_GET_NOTIF_SIZES = 3"

definition SECCOMP_RET_KILL_PROCESS :: u32 where "SECCOMP_RET_KILL_PROCESS = 0x80000000"
definition SECCOMP_RET_ALLOW :: u32 where "SECCOMP_RET_ALLOW = 0x7fff0000"

definition SECCOMP_MODE_DISABLED :: int where "SECCOMP_MODE_DISABLED = 0"
definition SECCOMP_MODE_STRICT :: int where "SECCOMP_MODE_STRICT = 1"
definition SECCOMP_MODE_FILTER :: int where "SECCOMP_MODE_FILTER = 2"

definition SYS_EXIT :: int where "SYS_EXIT = 1"
definition SYS_READ :: int where "SYS_READ = 3"
definition SYS_WRITE :: int where "SYS_WRITE = 4"
definition SYS_SIGRETURN :: int where "SYS_SIGRETURN = 119"

lemmas seccomp_defs = SECCOMP_SET_MODE_STRICT_def SECCOMP_SET_MODE_FILTER_def
  SECCOMP_GET_ACTION_AVAIL_def SECCOMP_GET_NOTIF_SIZES_def SECCOMP_RET_KILL_PROCESS_def
  SECCOMP_RET_ALLOW_def SECCOMP_MODE_DISABLED_def SECCOMP_MODE_STRICT_def SECCOMP_MODE_FILTER_def
  SYS_EXIT_def SYS_READ_def SYS_WRITE_def SYS_SIGRETURN_def

record seccomp_data =
  sd_nr :: int
  sd_arch :: u32
  sd_instruction_pointer :: u64
  sd_args :: "u64 list"

record seccomp_filter =
  flt_prev :: "nat option"
  flt_prog :: "nat option"
  flt_flags :: u32

type_synonym filters = "nat \<Rightarrow> seccomp_filter option"

record task_seccomp =
  scmp_mode :: int
  scmp_filter :: "nat option"

section \<open>Operations\<close>

definition task_init_seccomp :: "task_seccomp option \<Rightarrow> task_seccomp option \<times> int" where
  "task_init_seccomp task =
     (case task of None \<Rightarrow> (task, -1)
      | Some t \<Rightarrow> (Some (t\<lparr>scmp_mode := SECCOMP_MODE_DISABLED, scmp_filter := None\<rparr>), 0))"

definition task_copy_seccomp ::
  "filters \<Rightarrow> nat option \<Rightarrow> task_seccomp option \<Rightarrow> task_seccomp option \<Rightarrow> (filters \<times> task_seccomp option \<times> int) option" where
  "task_copy_seccomp h new dst src =
     (case (dst, src) of
        (Some d, Some s) \<Rightarrow>
          let d1 = d\<lparr>scmp_mode := scmp_mode s\<rparr>
          in (case scmp_filter s of
                None \<Rightarrow> Some (h, Some d1, 0)
              | Some fa \<Rightarrow>
                  (case new of
                     None \<Rightarrow> Some (h, Some (d1\<lparr>scmp_filter := None\<rparr>), -1)
                   | Some a \<Rightarrow>
                       (case h fa of
                          None \<Rightarrow> None
                        | Some f \<Rightarrow>
                            Some (h(a \<mapsto> \<lparr>flt_prev = None, flt_prog = None, flt_flags = flt_flags f\<rparr>),
                                  Some (d1\<lparr>scmp_filter := Some a\<rparr>), 0))))
      | _ \<Rightarrow> Some (h, dst, -1))"

definition task_free_seccomp :: "filters \<Rightarrow> task_seccomp option \<Rightarrow> (filters \<times> int) option" where
  "task_free_seccomp h task =
     (case task of None \<Rightarrow> Some (h, -1)
      | Some t \<Rightarrow>
          (case scmp_filter t of
             None \<Rightarrow> Some (h, 0)
           | Some a \<Rightarrow> (case h a of None \<Rightarrow> None | Some f \<Rightarrow> Some (h(a := None), 0))))"

definition task_set_seccomp_mode :: "task_seccomp option \<Rightarrow> int \<Rightarrow> task_seccomp option \<times> int" where
  "task_set_seccomp_mode task mode =
     (case task of None \<Rightarrow> (task, -1)
      | Some t \<Rightarrow>
          if mode \<noteq> SECCOMP_MODE_STRICT \<and> mode \<noteq> SECCOMP_MODE_FILTER then (task, -1)
          else if scmp_mode t \<noteq> SECCOMP_MODE_DISABLED then (task, -1)
          else (Some (t\<lparr>scmp_mode := mode\<rparr>), 0))"

definition task_add_seccomp_filter ::
  "filters \<Rightarrow> nat option \<Rightarrow> task_seccomp option \<Rightarrow> nat option \<Rightarrow> u32 \<Rightarrow> filters \<times> task_seccomp option \<times> int" where
  "task_add_seccomp_filter h new task prog flags =
     (case task of None \<Rightarrow> (h, task, -1)
      | Some t \<Rightarrow>
          if prog = None then (h, task, -1)
          else if scmp_mode t \<noteq> SECCOMP_MODE_FILTER then (h, task, -1)
          else (case new of
                  None \<Rightarrow> (h, task, -1)
                | Some a \<Rightarrow>
                    (h(a \<mapsto> \<lparr>flt_prev = scmp_filter t, flt_prog = prog, flt_flags = flags\<rparr>),
                     Some (t\<lparr>scmp_filter := Some a\<rparr>), 0)))"

text \<open>The data a filter program would see; the program itself is never run.\<close>

definition make_seccomp_data :: "int \<Rightarrow> u32 list \<Rightarrow> seccomp_data option" where
  "make_seccomp_data nr args =
     (if length args < 6 then None
      else Some \<lparr>sd_nr = nr, sd_arch = 0, sd_instruction_pointer = 0, sd_args = map ucast (take 6 args)\<rparr>)"

definition task_check_seccomp :: "task_seccomp option \<Rightarrow> int \<Rightarrow> u32 list \<Rightarrow> u32 option" where
  "task_check_seccomp task nr args =
     (case task of None \<Rightarrow> Some SECCOMP_RET_KILL_PROCESS
      | Some t \<Rightarrow>
          if scmp_mode t = SECCOMP_MODE_DISABLED then Some SECCOMP_RET_ALLOW
          else if scmp_mode t = SECCOMP_MODE_STRICT then
            (if nr = SYS_READ \<or> nr = SYS_WRITE \<or> nr = SYS_EXIT \<or> nr = SYS_SIGRETURN
             then Some SECCOMP_RET_ALLOW else Some SECCOMP_RET_KILL_PROCESS)
          else if scmp_filter t \<noteq> None then
            (case make_seccomp_data nr args of None \<Rightarrow> None | Some d \<Rightarrow> Some SECCOMP_RET_ALLOW)
          else Some SECCOMP_RET_ALLOW)"

text \<open>\<open>task\<close> is the current task.\<close>

definition seccomp_set_mode ::
  "filters \<Rightarrow> nat option \<Rightarrow> task_seccomp option \<Rightarrow> u32 \<Rightarrow> u32 \<Rightarrow> nat option \<Rightarrow> filters \<times> task_seccomp option \<times> int" where
  "seccomp_set_mode h new task op flags uargs =
     (if task = None then (h, task, -1)
      else if op = SECCOMP_SET_MODE_STRICT then
        (h, fst (task_set_seccomp_mode task SECCOMP_MODE_STRICT),
         snd (task_set_seccomp_mode task SECCOMP_MODE_STRICT))
      else if op = SECCOMP_SET_MODE_FILTER then
        (if snd (task_set_seccomp_mode task SECCOMP_MODE_FILTER) < 0 then (h, task, -1)
         else task_add_seccomp_filter h new (fst (task_set_seccomp_mode task SECCOMP_MODE_FILTER)) uargs flags)
      else if op = SECCOMP_GET_ACTION_AVAIL then (h, task, 0)
      else if op = SECCOMP_GET_NOTIF_SIZES then (h, task, 0)
      else (h, task, -1))"

section \<open>Runs\<close>

text \<open>What the task itself can do to its seccomp state, by \<^verbatim>\<open>seccomp_set_mode\<close> and by adding filters.\<close>

inductive seccomp_step :: "filters \<times> task_seccomp \<Rightarrow> filters \<times> task_seccomp \<Rightarrow> bool" where
  set_mode: "seccomp_set_mode h new (Some t) op flags uargs = (h', Some t', r) \<Longrightarrow>
    seccomp_step (h, t) (h', t')"
| add_filter: "task_add_seccomp_filter h new (Some t) prog flags = (h', Some t', r) \<Longrightarrow>
    seccomp_step (h, t) (h', t')"

inductive_cases seccomp_stepE: "seccomp_step (h, t) y"

lemma set_mode_keeps:
  "scmp_mode t \<noteq> SECCOMP_MODE_DISABLED \<Longrightarrow> seccomp_set_mode h new (Some t) op flags uargs = (h', Some t', r) \<Longrightarrow>
   scmp_mode t' = scmp_mode t"
  by (auto simp: seccomp_set_mode_def task_set_seccomp_mode_def task_add_seccomp_filter_def
      split: if_splits option.splits)

lemma add_filter_keeps:
  "task_add_seccomp_filter h new (Some t) prog flags = (h', Some t', r) \<Longrightarrow> scmp_mode t' = scmp_mode t"
  by (auto simp: task_add_seccomp_filter_def split: if_splits option.splits)

lemma seccomp_step_mode:
  "seccomp_step x y \<Longrightarrow> scmp_mode (snd x) \<noteq> SECCOMP_MODE_DISABLED \<Longrightarrow> scmp_mode (snd y) = scmp_mode (snd x)"
  by (cases x) (auto elim!: seccomp_stepE dest: set_mode_keeps add_filter_keeps)

lemma seccomp_run_mode:
  "seccomp_step\<^sup>*\<^sup>* x y \<Longrightarrow> scmp_mode (snd x) \<noteq> SECCOMP_MODE_DISABLED \<Longrightarrow> scmp_mode (snd y) = scmp_mode (snd x)"
  by (induction rule: rtranclp_induct) (auto dest: seccomp_step_mode)

section \<open>Claims\<close>

definition strict_task :: task_seccomp where
  "strict_task = \<lparr>scmp_mode = SECCOMP_MODE_STRICT, scmp_filter = None\<rparr>"

text \<open>
  C31. Strict mode cannot be left: whatever sequence of \<^verbatim>\<open>seccomp_set_mode\<close> and filter additions a
  task in strict mode performs, afterwards exactly the four system calls read, write, exit and
  sigreturn are allowed and every other kills the process.
\<close>

theorem seccomp_strict_forever:
  assumes "seccomp_step\<^sup>*\<^sup>* (h, t) (h', t')" and "scmp_mode t = SECCOMP_MODE_STRICT"
  shows "task_check_seccomp (Some t') nr args =
    Some (if nr \<in> {1, 3, 4, 119} then SECCOMP_RET_ALLOW else SECCOMP_RET_KILL_PROCESS)"
proof -
  have "scmp_mode t' = SECCOMP_MODE_STRICT"
    using seccomp_run_mode [OF assms(1)] assms(2)
    by (simp add: SECCOMP_MODE_STRICT_def SECCOMP_MODE_DISABLED_def)
  then show ?thesis
    by (auto simp: task_check_seccomp_def SECCOMP_MODE_STRICT_def SECCOMP_MODE_DISABLED_def
        SYS_EXIT_def SYS_READ_def SYS_WRITE_def SYS_SIGRETURN_def)
qed

theorem seccomp_strict_forever_witness:
  "\<exists>h' t'. seccomp_set_mode (\<lambda>_. None) (Some 8) (Some strict_task) SECCOMP_SET_MODE_FILTER 0 (Some 4) =
     (h', Some t', -1) \<and> task_check_seccomp (Some t') 2 [] = Some SECCOMP_RET_KILL_PROCESS"
proof -
  have step: "seccomp_set_mode (\<lambda>_. None) (Some 8) (Some strict_task) SECCOMP_SET_MODE_FILTER 0 (Some 4) =
      ((\<lambda>_. None), Some strict_task, -1)"
    by (simp add: seccomp_set_mode_def task_set_seccomp_mode_def strict_task_def seccomp_defs)
  then have "seccomp_step\<^sup>*\<^sup>* ((\<lambda>_. None), strict_task) ((\<lambda>_. None), strict_task)"
    by (intro r_into_rtranclp seccomp_step.set_mode)
  from seccomp_strict_forever [OF this, of 2 "[]"] step show ?thesis by (simp add: strict_task_def)
qed

text \<open>
  Filter mode filters nothing, a defect: in filter mode every system call with its six
  arguments is allowed, whatever filters are installed, because the program is never run. A
  failed attempt to install a null program still switches the task to filter mode for good, and
  the filter a child inherits has no program and no predecessor.
\<close>

theorem seccomp_filter_mode_allows_all:
  assumes "scmp_mode t = SECCOMP_MODE_FILTER" and "length args = 6"
  shows "task_check_seccomp (Some t) nr args = Some SECCOMP_RET_ALLOW \<and>
    (\<forall>u. scmp_mode u = SECCOMP_MODE_DISABLED \<longrightarrow>
      seccomp_set_mode h new (Some u) SECCOMP_SET_MODE_FILTER flags None =
        (h, Some (u\<lparr>scmp_mode := SECCOMP_MODE_FILTER\<rparr>), -1)) \<and>
    (\<forall>fa f a d. scmp_filter t = Some fa \<longrightarrow> h fa = Some f \<longrightarrow>
      (\<exists>h'. task_copy_seccomp h (Some a) (Some d) (Some t) =
         Some (h', Some (d\<lparr>scmp_mode := SECCOMP_MODE_FILTER, scmp_filter := Some a\<rparr>), 0) \<and>
         h' a = Some \<lparr>flt_prev = None, flt_prog = None, flt_flags = flt_flags f\<rparr>))"
  using assms
  by (auto simp: task_check_seccomp_def make_seccomp_data_def seccomp_set_mode_def
      task_set_seccomp_mode_def task_add_seccomp_filter_def task_copy_seccomp_def Let_def seccomp_defs)

theorem seccomp_filter_mode_allows_all_witness:
  "task_check_seccomp (Some \<lparr>scmp_mode = SECCOMP_MODE_FILTER, scmp_filter = Some 8\<rparr>) 59 [0, 0, 0, 0, 0, 0] =
     Some SECCOMP_RET_ALLOW"
  using seccomp_filter_mode_allows_all
    [of "\<lparr>scmp_mode = SECCOMP_MODE_FILTER, scmp_filter = Some 8\<rparr>" "[0, 0, 0, 0, 0, 0]" 59]
  by simp

end
