(* ===== verification/Wait_Queue.thy ===== *)
theory Wait_Queue
  imports Kernel_List
begin

text \<open>
  Wait queues, \<^verbatim>\<open>kernel/wait.c\<close> and \<^verbatim>\<open>include/horizon/wait.h\<close>. A queue is a kernel list of
  entries; the list operations are those of theory \<open>Kernel_List\<close>. The wake functions report which
  entries' function they called, in order. The four \<^verbatim>\<open>wait_event\<close> functions take the condition as
  an \<^verbatim>\<open>int\<close>, so it is evaluated once, by the caller: \<open>condition\<close> is a truth value here too, and a
  loop on it that does not end has no result. The task state they set before they call the
  scheduler is not part of the model.

  \<^verbatim>\<open>list_del_init\<close>, \<^verbatim>\<open>task_wakeup\<close>, \<^verbatim>\<open>signal_pending\<close>, \<^verbatim>\<open>time_before\<close>, \<^verbatim>\<open>ERESTARTSYS\<close> and the clock are defined nowhere
  in the repository: they are the parameter \<open>env\<close>. \<open>other_func\<close> gives the results of the wake
  functions of other files, \<open>signal_after env n\<close> says whether a signal is
  pending after the \<open>n\<close>-th call of the scheduler and \<open>jiffies env n\<close> is the clock then.
\<close>

section \<open>Data\<close>

datatype wq_addr = Wq_head nat | Wq_link nat

text \<open>The function an entry carries: the one of this file, or another one.\<close>

datatype wait_queue_func = Default_wake_function | Wake_function nat

record wait_queue_entry =
  wq_flags :: u32
  wq_private :: nat
  wq_func :: wait_queue_func

record wait_queues =
  wq_links :: "wq_addr list_heap"
  wq_entry_at :: "nat \<Rightarrow> wait_queue_entry"

record wait_env =
  list_del_init :: "wq_addr list_heap \<Rightarrow> wq_addr \<Rightarrow> wq_addr list_heap option"
  task_wakeup :: "nat \<Rightarrow> int"
  other_func :: "nat \<Rightarrow> nat \<Rightarrow> int"
  signal_after :: "nat \<Rightarrow> bool"
  time_before :: "u32 \<Rightarrow> u32 \<Rightarrow> bool"
  jiffies :: "nat \<Rightarrow> u32"
  ERESTARTSYS :: int

definition WQ_FLAG_EXCLUSIVE :: u32 where "WQ_FLAG_EXCLUSIVE = 1"

text \<open>What is relied on: \<^verbatim>\<open>list_del_init\<close> unlinks the entry and initialises it again, and the error
  number is positive.\<close>

definition wait_env_ok :: "wait_env \<Rightarrow> bool" where
  "wait_env_ok env \<longleftrightarrow> 0 < ERESTARTSYS env \<and>
     (\<forall>h e. list_del_init env h e = map_option (\<lambda>h'. list_init h' e) (list_del h e))"

section \<open>Queues\<close>

definition wait_queue_init :: "wait_queues \<Rightarrow> nat \<Rightarrow> wait_queues" where
  "wait_queue_init s q = s\<lparr>wq_links := list_init (wq_links s) (Wq_head q)\<rparr>"

definition wait_queue_entry_init :: "wait_queues \<Rightarrow> nat \<Rightarrow> u32 \<Rightarrow> nat \<Rightarrow> wait_queue_func \<Rightarrow> wait_queues" where
  "wait_queue_entry_init s e flags task func =
     s\<lparr>wq_entry_at := (wq_entry_at s)(e := \<lparr>wq_flags = flags, wq_private = task, wq_func = func\<rparr>),
       wq_links := list_init (wq_links s) (Wq_link e)\<rparr>"

definition default_wake_function :: "wait_env \<Rightarrow> wait_queues \<Rightarrow> nat \<Rightarrow> int" where
  "default_wake_function env s e = task_wakeup env (wq_private (wq_entry_at s e))"

definition call_func :: "wait_env \<Rightarrow> wait_queues \<Rightarrow> nat \<Rightarrow> int" where
  "call_func env s e =
     (case wq_func (wq_entry_at s e) of
        Default_wake_function \<Rightarrow> default_wake_function env s e
      | Wake_function f \<Rightarrow> other_func env f e)"

definition exclusive :: "wait_queues \<Rightarrow> nat \<Rightarrow> bool" where
  "exclusive s e \<longleftrightarrow> wq_flags (wq_entry_at s e) AND WQ_FLAG_EXCLUSIVE \<noteq> 0"

definition wait_queue_add :: "wait_queues \<Rightarrow> nat option \<Rightarrow> nat option \<Rightarrow> wait_queues option" where
  "wait_queue_add s wq_head wq_entry =
     (case (wq_head, wq_entry) of
        (Some q, Some e) \<Rightarrow>
          if list_empty (wq_links s) (Wq_link e) then
            map_option (\<lambda>h. s\<lparr>wq_links := h\<rparr>)
              (if exclusive s e then list_add_tail (wq_links s) (Wq_link e) (Wq_head q)
               else list_add (wq_links s) (Wq_link e) (Wq_head q))
          else Some s
      | _ \<Rightarrow> Some s)"

definition wait_queue_remove :: "wait_env \<Rightarrow> wait_queues \<Rightarrow> nat option \<Rightarrow> nat option \<Rightarrow> wait_queues option" where
  "wait_queue_remove env s wq_head wq_entry =
     (case (wq_head, wq_entry) of
        (Some q, Some e) \<Rightarrow>
          if \<not> list_empty (wq_links s) (Wq_link e) then
            map_option (\<lambda>h. s\<lparr>wq_links := h\<rparr>) (list_del_init env (wq_links s) (Wq_link e))
          else Some s
      | _ \<Rightarrow> Some s)"

section \<open>Waking\<close>

text \<open>
  The loop of the four wake functions, from \<open>pos\<close> on: \<open>skip\<close> says which entries are passed over,
  \<open>once\<close> whether the loop stops at the first function that returns non-zero.
\<close>

partial_function (option) wake_walk :: "wait_env \<Rightarrow> wait_queues \<Rightarrow> (nat \<Rightarrow> bool) \<Rightarrow> bool \<Rightarrow> nat \<Rightarrow> wq_addr \<Rightarrow> nat list option" where
  "wake_walk env s skip once q pos =
     (case pos of
        Wq_head p \<Rightarrow> if p = q then Some [] else None
      | Wq_link e \<Rightarrow>
          if skip e then Option.bind (nxt (wq_links s) pos) (wake_walk env s skip once q)
          else if call_func env s e \<noteq> 0 \<and> once then Some [e]
          else Option.bind (Option.bind (nxt (wq_links s) pos) (wake_walk env s skip once q))
                 (\<lambda>es. Some (e # es)))"

definition wake_queue :: "wait_env \<Rightarrow> wait_queues \<Rightarrow> (nat \<Rightarrow> bool) \<Rightarrow> bool \<Rightarrow> nat option \<Rightarrow> nat list option" where
  "wake_queue env s skip once wq_head =
     (case wq_head of
        None \<Rightarrow> Some []
      | Some q \<Rightarrow>
          if list_empty (wq_links s) (Wq_head q) then Some []
          else Option.bind (nxt (wq_links s) (Wq_head q)) (wake_walk env s skip once q))"

definition wake_up :: "wait_env \<Rightarrow> wait_queues \<Rightarrow> nat option \<Rightarrow> nat list option" where
  "wake_up env s wq_head = wake_queue env s (\<lambda>e. False) True wq_head"

definition wake_up_all :: "wait_env \<Rightarrow> wait_queues \<Rightarrow> nat option \<Rightarrow> nat list option" where
  "wake_up_all env s wq_head = wake_queue env s (\<lambda>e. False) False wq_head"

definition wake_up_interruptible :: "wait_env \<Rightarrow> wait_queues \<Rightarrow> nat option \<Rightarrow> nat list option" where
  "wake_up_interruptible env s wq_head = wake_queue env s (exclusive s) True wq_head"

definition wake_up_interruptible_all :: "wait_env \<Rightarrow> wait_queues \<Rightarrow> nat option \<Rightarrow> nat list option" where
  "wake_up_interruptible_all env s wq_head = wake_queue env s (exclusive s) False wq_head"

section \<open>Waiting\<close>

text \<open>
  The loops on the condition. The local entry is \<open>e\<close>, the current task \<open>cur\<close>; \<open>n\<close> counts the calls
  of the scheduler.
\<close>

partial_function (option) wait_loop :: "bool \<Rightarrow> wait_queues \<Rightarrow> wait_queues option" where
  "wait_loop condition s = (if \<not> condition then wait_loop condition s else Some s)"

definition wait_event :: "wait_env \<Rightarrow> wait_queues \<Rightarrow> nat \<Rightarrow> nat \<Rightarrow> nat option \<Rightarrow> bool \<Rightarrow> wait_queues option" where
  "wait_event env s e cur wq_head condition =
     (if wq_head = None then Some s
      else if condition then Some s
      else
        Option.bind (wait_queue_add (wait_queue_entry_init s e 0 cur Default_wake_function) wq_head (Some e)) (\<lambda>s1.
        Option.bind (wait_loop condition s1) (\<lambda>s2.
        wait_queue_remove env s2 wq_head (Some e))))"

partial_function (option) interruptible_loop :: "wait_env \<Rightarrow> wait_queues \<Rightarrow> nat option \<Rightarrow> nat \<Rightarrow> bool \<Rightarrow> nat \<Rightarrow>
    (wait_queues \<times> int) option" where
  "interruptible_loop env s wq_head e condition n =
     (if \<not> condition then
        if signal_after env n then
          Option.bind (wait_queue_remove env s wq_head (Some e)) (\<lambda>s'. Some (s', - ERESTARTSYS env))
        else interruptible_loop env s wq_head e condition (Suc n)
      else Option.bind (wait_queue_remove env s wq_head (Some e)) (\<lambda>s'. Some (s', 0)))"

definition wait_event_interruptible :: "wait_env \<Rightarrow> wait_queues \<Rightarrow> nat \<Rightarrow> nat \<Rightarrow> nat option \<Rightarrow> bool \<Rightarrow>
    (wait_queues \<times> int) option" where
  "wait_event_interruptible env s e cur wq_head condition =
     (if wq_head = None then Some (s, - EINVAL)
      else if condition then Some (s, 0)
      else
        Option.bind (wait_queue_add (wait_queue_entry_init s e 0 cur Default_wake_function) wq_head (Some e)) (\<lambda>s1.
        interruptible_loop env s1 wq_head e condition 0))"

text \<open>\<open>n\<close> is the index of the clock reading; the scheduler runs between two readings.\<close>

partial_function (option) timeout_loop :: "wait_env \<Rightarrow> bool \<Rightarrow> wait_queues \<Rightarrow> nat option \<Rightarrow> nat \<Rightarrow> bool \<Rightarrow> u32 \<Rightarrow> nat \<Rightarrow>
    (wait_queues \<times> int) option" where
  "timeout_loop env intr s wq_head e condition expire n =
     (if \<not> condition \<and> time_before env (jiffies env n) expire then
        if intr \<and> signal_after env n then
          Option.bind (wait_queue_remove env s wq_head (Some e)) (\<lambda>s'. Some (s', - ERESTARTSYS env))
        else timeout_loop env intr s wq_head e condition expire (Suc n)
      else
        Option.bind (wait_queue_remove env s wq_head (Some e)) (\<lambda>s'.
          Some (s', if condition then sint (expire - jiffies env n) else 0)))"

definition wait_event_timeout :: "wait_env \<Rightarrow> wait_queues \<Rightarrow> nat \<Rightarrow> nat \<Rightarrow> nat option \<Rightarrow> bool \<Rightarrow> u32 \<Rightarrow>
    (wait_queues \<times> int) option" where
  "wait_event_timeout env s e cur wq_head condition timeout =
     (if wq_head = None \<or> timeout = 0 then Some (s, 0)
      else if condition then Some (s, sint timeout)
      else
        Option.bind (wait_queue_add (wait_queue_entry_init s e 0 cur Default_wake_function) wq_head (Some e)) (\<lambda>s1.
        timeout_loop env False s1 wq_head e condition (jiffies env 0 + timeout) 1))"

definition wait_event_interruptible_timeout :: "wait_env \<Rightarrow> wait_queues \<Rightarrow> nat \<Rightarrow> nat \<Rightarrow> nat option \<Rightarrow> bool \<Rightarrow> u32 \<Rightarrow>
    (wait_queues \<times> int) option" where
  "wait_event_interruptible_timeout env s e cur wq_head condition timeout =
     (if wq_head = None \<or> timeout = 0 then Some (s, 0)
      else if condition then Some (s, sint timeout)
      else
        Option.bind (wait_queue_add (wait_queue_entry_init s e 0 cur Default_wake_function) wq_head (Some e)) (\<lambda>s1.
        timeout_loop env True s1 wq_head e condition (jiffies env 0 + timeout) 1))"

section \<open>A queue as a list of entries\<close>

text \<open>
  \<open>es q\<close> are the entries on queue \<open>q\<close>, in order; \<open>I\<close> are the entries on no queue, whose link node
  points to itself.
\<close>

definition wq_map :: "(nat \<Rightarrow> nat list) \<Rightarrow> wq_addr \<Rightarrow> wq_addr list" where
  "wq_map es a = (case a of Wq_head q \<Rightarrow> map Wq_link (es q) | Wq_link e \<Rightarrow> [])"

definition wq_heads :: "nat set \<Rightarrow> nat set \<Rightarrow> wq_addr set" where
  "wq_heads Q I = Wq_head ` Q \<union> Wq_link ` I"

definition wq_rep :: "wait_queues \<Rightarrow> nat set \<Rightarrow> (nat \<Rightarrow> nat list) \<Rightarrow> nat set \<Rightarrow> bool" where
  "wq_rep s Q es I \<longleftrightarrow> lists_at (wq_links s) (wq_heads Q I) (wq_map es)"

lemma wq_map_simps [simp]:
  "wq_map es (Wq_head q) = map Wq_link (es q)" "wq_map es (Wq_link e) = []"
  "(wq_map es)(Wq_head q := map Wq_link xs) = wq_map (es(q := xs))"
  "(wq_map es)(Wq_link e := []) = wq_map es"
  by (auto simp: wq_map_def fun_eq_iff split: wq_addr.splits)

lemma wq_heads_simps [simp]:
  "Wq_head q \<in> wq_heads Q I \<longleftrightarrow> q \<in> Q" "Wq_link e \<in> wq_heads Q I \<longleftrightarrow> e \<in> I"
  "wq_heads Q I - {Wq_link e} = wq_heads Q (I - {e})"
  "insert (Wq_link e) (wq_heads Q I) = wq_heads Q (insert e I)"
  by (auto simp: wq_heads_def)

lemma wq_idle: "wq_rep s Q es I \<Longrightarrow> e \<in> I \<Longrightarrow> list_empty (wq_links s) (Wq_link e)"
  using kl.rep_empty [of "wq_links s" "wq_heads Q I" "wq_map es" "Wq_link e"] by (simp add: wq_rep_def)

lemma wq_linked: "wq_rep s Q es I \<Longrightarrow> q \<in> Q \<Longrightarrow> e \<in> set (es q) \<Longrightarrow> \<not> list_empty (wq_links s) (Wq_link e)"
  using kl.rep_member [of "wq_links s" "wq_heads Q I" "wq_map es" "Wq_head q" "Wq_link e"]
  by (simp add: wq_rep_def)

lemma wq_exclusive_links [simp]: "exclusive (s\<lparr>wq_links := h\<rparr>) e = exclusive s e"
  by (simp add: exclusive_def)

definition enqueue :: "wait_queues \<Rightarrow> nat \<Rightarrow> nat list \<Rightarrow> nat list" where
  "enqueue s e xs = (if exclusive s e then xs @ [e] else e # xs)"

lemma wait_queue_add_rep:
  assumes rep: "wq_rep s Q es I" and q: "q \<in> Q" and e: "e \<in> I"
  shows "\<exists>h. wait_queue_add s (Some q) (Some e) = Some (s\<lparr>wq_links := h\<rparr>) \<and>
    wq_rep (s\<lparr>wq_links := h\<rparr>) Q (es(q := enqueue s e (es q))) (I - {e})"
proof -
  note fr = kl.head_fresh [OF rep [unfolded wq_rep_def], of "Wq_link e"]
  have r: "lists_at (wq_links s) (wq_heads Q (I - {e})) (wq_map es)"
    "fresh_for (wq_heads Q (I - {e})) (wq_map es) (Wq_link e)" using fr e by simp_all
  have "\<exists>h. list_add_tail (wq_links s) (Wq_link e) (Wq_head q) = Some h \<and>
      lists_at h (wq_heads Q (I - {e})) (wq_map (es(q := es q @ [e])))"
    using kl.append_last [OF r(1) _ r(2), of "Wq_head q"] q wq_map_simps(3) [of es q "es q @ [e]"] by simp
  moreover have "\<exists>h. list_add (wq_links s) (Wq_link e) (Wq_head q) = Some h \<and>
      lists_at h (wq_heads Q (I - {e})) (wq_map (es(q := e # es q)))"
    using kl.rep_add [OF r(1) _ r(2), of "Wq_head q"] q wq_map_simps(3) [of es q "e # es q"] by simp
  ultimately show ?thesis
    using wq_idle [OF rep e] by (auto simp: wait_queue_add_def enqueue_def wq_rep_def)
qed

lemma map_remove1_link: "remove1 (Wq_link e) (map Wq_link xs) = map Wq_link (remove1 e xs)"
  by (induction xs) auto

lemma wait_queue_remove_rep:
  assumes env: "wait_env_ok env" and rep: "wq_rep s Q es I" and q: "q \<in> Q" and e: "e \<in> set (es q)"
  shows "\<exists>h. wait_queue_remove env s (Some q) (Some e) = Some (s\<lparr>wq_links := h\<rparr>) \<and>
    wq_rep (s\<lparr>wq_links := h\<rparr>) Q (es(q := remove1 e (es q))) (insert e I)"
proof -
  have m: "Wq_head q \<in> wq_heads Q I" "Wq_link e \<in> set (wq_map es (Wq_head q))" using q e by auto
  note rep' = rep [unfolded wq_rep_def]
  from kl.rep_del [OF rep' m] obtain h where h: "list_del (wq_links s) (Wq_link e) = Some h"
    "lists_at h (wq_heads Q I) (wq_map (es(q := remove1 e (es q))))"
    using wq_map_simps(3) [of es q "remove1 e (es q)"] by (auto simp: map_remove1_link)
  have "fresh_for (wq_heads Q I) (wq_map (es(q := remove1 e (es q)))) (Wq_link e)"
    using kl.removed_fresh [OF rep' m] wq_map_simps(3) [of es q "remove1 e (es q)"]
    by (simp add: map_remove1_link)
  from kl.rep_init [OF h(2) this]
  have "lists_at (list_init h (Wq_link e)) (wq_heads Q (insert e I)) (wq_map (es(q := remove1 e (es q))))"
    by simp
  then show ?thesis
    using h(1) env wq_linked [OF rep q e]
    by (auto simp: wait_queue_remove_def wq_rep_def wait_env_ok_def)
qed

section \<open>Waking in order\<close>

fun wake_list :: "wait_env \<Rightarrow> wait_queues \<Rightarrow> (nat \<Rightarrow> bool) \<Rightarrow> bool \<Rightarrow> nat list \<Rightarrow> nat list" where
  "wake_list env s skip once [] = []"
| "wake_list env s skip once (e # es) =
     (if skip e then wake_list env s skip once es
      else if call_func env s e \<noteq> 0 \<and> once then [e]
      else e # wake_list env s skip once es)"

lemma wake_walk_rep:
  assumes rep: "wq_rep s Q es I" and q: "q \<in> Q"
  shows "es q = xs @ ys \<Longrightarrow>
    wake_walk env s skip once q (hd (map Wq_link ys @ [Wq_head q])) = Some (wake_list env s skip once ys)"
proof (induction ys arbitrary: xs)
  case Nil
  then show ?case by (simp add: wake_walk.simps)
next
  case (Cons e ys)
  have "wq_map es (Wq_head q) = map Wq_link xs @ Wq_link e # map Wq_link ys" using Cons.prems by simp
  from kl.rep_next [OF rep [unfolded wq_rep_def] _ this] q
  have "nxt (wq_links s) (Wq_link e) = Some (hd (map Wq_link ys @ [Wq_head q]))" by simp
  with Cons.IH [of "xs @ [e]"] Cons.prems show ?case
    by (simp add: wake_walk.simps [of env s skip once q "Wq_link e"])
qed

lemma wake_queue_rep:
  assumes "wq_rep s Q es I" and "q \<in> Q"
  shows "wake_queue env s skip once (Some q) = Some (wake_list env s skip once (es q))"
proof (cases "es q")
  case Nil
  with assms kl.rep_empty [OF assms(1) [unfolded wq_rep_def], of "Wq_head q"] show ?thesis
    by (simp add: wake_queue_def)
next
  case (Cons e ys)
  from assms kl.rep_first [OF assms(1) [unfolded wq_rep_def], of "Wq_head q"] Cons
  have "nxt (wq_links s) (Wq_head q) = Some (Wq_link e)" by simp
  moreover have "\<not> list_empty (wq_links s) (Wq_head q)"
    using assms kl.rep_empty [OF assms(1) [unfolded wq_rep_def], of "Wq_head q"] Cons by simp
  ultimately show ?thesis
    using wake_walk_rep [OF assms, of "[]" "es q"] Cons by (simp add: wake_queue_def)
qed

lemma wake_list_all: "wake_list env s (\<lambda>e. False) False es = es"
  by (induction es) auto

lemma wake_list_interruptible: "wake_list env s P False es = filter (\<lambda>e. \<not> P e) es"
  by (induction es) auto

section \<open>Waiting for a condition that is false\<close>

lemma wait_loop_false: "wait_loop False s = None"
proof -
  have "c" if "wait_loop c s = Some r" for c r
    by (rule wait_loop.raw_induct [of "\<lambda>c s r. c", OF _ that]) (auto split: if_splits)
  from this [of False] show ?thesis by (cases "wait_loop False s") simp_all
qed

lemma interruptible_loop_false:
  assumes "interruptible_loop env s q e c n = Some r" and "\<not> c"
  shows "snd r = - ERESTARTSYS env \<and> (\<exists>k\<ge>n. signal_after env k)"
  using assms(2)
proof (induction rule: interruptible_loop.raw_induct [OF _ assms(1)])
  case (1 loop env s q e c n r)
  from 1(2,3) show ?case
    using 1(1) [of env s q e c "Suc n" r]
    by (auto split: if_splits simp: bind_eq_Some_conv) (metis Suc_leD)
qed

lemma timeout_loop_false:
  assumes "timeout_loop env intr s q e c x n = Some r" and "\<not> c"
  shows "\<exists>k\<ge>n. (\<forall>j. n \<le> j \<and> j < k \<longrightarrow> time_before env (jiffies env j) x) \<and>
    (snd r = 0 \<and> \<not> time_before env (jiffies env k) x \<or>
     snd r = - ERESTARTSYS env \<and> intr \<and> signal_after env k \<and> time_before env (jiffies env k) x)"
  using assms(2)
proof (induction rule: timeout_loop.raw_induct [OF _ assms(1)])
  case (1 loop env intr s q e c x n r)
  show ?case
  proof (cases "time_before env (jiffies env n) x \<and> \<not> (intr \<and> signal_after env n)")
    case True
    with 1(1) [of env intr s q e c x "Suc n" r] 1(2,3) obtain k where
      k: "k \<ge> Suc n" "\<forall>j. Suc n \<le> j \<and> j < k \<longrightarrow> time_before env (jiffies env j) x"
      "snd r = 0 \<and> \<not> time_before env (jiffies env k) x \<or>
       snd r = - ERESTARTSYS env \<and> intr \<and> signal_after env k \<and> time_before env (jiffies env k) x" by auto
    have "time_before env (jiffies env j) x" if "n \<le> j \<and> j < k" for j
      using True k(2) that by (cases "j = n") auto
    with k show ?thesis by (intro exI [of _ k]) auto
  next
    case False
    with 1(2,3) show ?thesis by (intro exI [of _ n]) (auto split: if_splits simp: bind_eq_Some_conv)
  qed
qed

section \<open>Claims\<close>

text \<open>Non-exclusive waiters stand before exclusive ones.\<close>

definition exclusive_last :: "wait_queues \<Rightarrow> nat list \<Rightarrow> bool" where
  "exclusive_last s es \<longleftrightarrow> sorted_wrt (\<lambda>a b. exclusive s a \<longrightarrow> exclusive s b) es"

definition sample_wait_env :: wait_env where
  "sample_wait_env = \<lparr>list_del_init = (\<lambda>h e. map_option (\<lambda>h'. list_init h' e) (list_del h e)),
     task_wakeup = (\<lambda>t. 1), other_func = (\<lambda>f e. 0), signal_after = (\<lambda>n. n = 2),
     time_before = (\<lambda>a b. a < b), jiffies = of_nat, ERESTARTSYS = 512\<rparr>"

definition sample_queues :: wait_queues where
  "sample_queues = \<lparr>wq_links = \<lparr>nxt = Some, prv = Some\<rparr>,
     wq_entry_at = (\<lambda>e. \<lparr>wq_flags = (if e = 0 then 0 else 1), wq_private = e,
       wq_func = Default_wake_function\<rparr>)\<rparr>"

lemma sample_queues_rep: "wq_rep sample_queues {0} (\<lambda>_. []) {0, 1}"
  by (auto simp: wq_rep_def sample_queues_def wq_map_def lists_at_def dll_def link_def
      split: wq_addr.splits)

text \<open>
  C32. A wait queue behaves as a list: adding an idle entry always succeeds and puts it in front, or
  at the end if it waits exclusively, so that non-exclusive waiters stay before exclusive ones;
  \<^verbatim>\<open>wake_up_all\<close> then calls exactly the entries on the queue in that order,
  \<^verbatim>\<open>wake_up_interruptible_all\<close> the non-exclusive ones, and removing the entry again restores
  every queue.
\<close>

theorem wait_queue_refines_list:
  assumes "wait_env_ok env" and "wq_rep s Q es I" and "q \<in> Q" and "e \<in> I" and "e \<notin> set (es q)"
    and "exclusive_last s (es q)"
  shows "\<exists>s' s''. wait_queue_add s (Some q) (Some e) = Some s' \<and>
    exclusive_last s' (enqueue s e (es q)) \<and>
    wake_up_all env s' (Some q) = Some (enqueue s e (es q)) \<and>
    wake_up_interruptible_all env s' (Some q) = Some (filter (\<lambda>e. \<not> exclusive s e) (enqueue s e (es q))) \<and>
    wait_queue_remove env s' (Some q) (Some e) = Some s'' \<and> wq_rep s'' Q es I"
proof -
  from wait_queue_add_rep [OF assms(2-4)] obtain h where
    h: "wait_queue_add s (Some q) (Some e) = Some (s\<lparr>wq_links := h\<rparr>)"
      "wq_rep (s\<lparr>wq_links := h\<rparr>) Q (es(q := enqueue s e (es q))) (I - {e})" by blast
  have "e \<in> set ((es(q := enqueue s e (es q))) q)" by (simp add: enqueue_def)
  from wait_queue_remove_rep [OF assms(1) h(2) assms(3) this] have
    again: "\<exists>h'. wait_queue_remove env (s\<lparr>wq_links := h\<rparr>) (Some q) (Some e) = Some (s\<lparr>wq_links := h'\<rparr>) \<and>
      wq_rep (s\<lparr>wq_links := h'\<rparr>) Q (es(q := remove1 e (enqueue s e (es q)))) (insert e (I - {e}))"
    by (simp only: fun_upd_upd fun_upd_same) simp
  from again obtain h' where
    h': "wait_queue_remove env (s\<lparr>wq_links := h\<rparr>) (Some q) (Some e) = Some (s\<lparr>wq_links := h'\<rparr>)"
      "wq_rep (s\<lparr>wq_links := h'\<rparr>) Q (es(q := remove1 e (enqueue s e (es q)))) (insert e (I - {e}))"
    by blast
  have "remove1 e (enqueue s e (es q)) = es q"
    using assms(5) by (simp add: enqueue_def remove1_append)
  then have undone: "wq_rep (s\<lparr>wq_links := h'\<rparr>) Q es I"
    using h'(2) assms(4) by (simp add: insert_absorb)
  have ord: "exclusive_last (s\<lparr>wq_links := h\<rparr>) (enqueue s e (es q))"
    using assms(6) by (auto simp: exclusive_last_def enqueue_def sorted_wrt_append)
  have ex: "exclusive (s\<lparr>wq_links := h\<rparr>) = exclusive s" by (simp add: fun_eq_iff)
  show ?thesis
    using h(1) h'(1) undone ord wake_queue_rep [OF h(2) assms(3)]
    by (auto simp: wake_up_all_def wake_up_interruptible_all_def wake_list_all wake_list_interruptible ex)
qed

theorem wait_queue_refines_list_witness:
  "\<exists>s'. wait_queue_add sample_queues (Some 0) (Some 1) = Some s' \<and>
     wake_up_all sample_wait_env s' (Some 0) = Some [1] \<and>
     wake_up_interruptible_all sample_wait_env s' (Some 0) = Some []"
  using wait_queue_refines_list [of sample_wait_env sample_queues "{0}" "\<lambda>_. []" "{0, 1}" 0 1]
    sample_queues_rep
  by (auto simp: wait_env_ok_def sample_wait_env_def exclusive_last_def enqueue_def exclusive_def
      sample_queues_def WQ_FLAG_EXCLUSIVE_def)

text \<open>
  C33. The condition is passed by value, so a wait on a condition that is false at the call is never
  ended by the condition: \<^verbatim>\<open>wait_event\<close> does not return at all, the interruptible wait returns only
  \<^verbatim>\<open>-ERESTARTSYS\<close> and only after a signal. A timed wait with a timeout other than 0 returns \<^verbatim>\<open>0\<close> only
  at the first reading of the clock that has reached the expiry time, whatever woke it before;
  the interruptible one also \<^verbatim>\<open>-ERESTARTSYS\<close>, only after a signal and only before that time. Neither
  returns a remaining time. (Clock readings are counted from 1; reading 0 is the one at the call.)
\<close>

theorem false_condition_never_satisfied:
  "wait_event env s e cur (Some q) False = None \<and>
   (wait_event_interruptible env s e cur (Some q) False = Some (s1, r1) \<longrightarrow>
      r1 = - ERESTARTSYS env \<and> (\<exists>n. signal_after env n)) \<and>
   (wait_event_timeout env s e cur (Some q) False timeout = Some (s2, r2) \<longrightarrow>
      r2 = 0 \<and> (timeout = 0 \<or> (\<exists>k\<ge>1. \<not> time_before env (jiffies env k) (jiffies env 0 + timeout) \<and>
        (\<forall>j. 1 \<le> j \<and> j < k \<longrightarrow> time_before env (jiffies env j) (jiffies env 0 + timeout))))) \<and>
   (wait_event_interruptible_timeout env s e cur (Some q) False timeout = Some (s3, r3) \<longrightarrow>
      r3 = 0 \<and> timeout = 0 \<or>
      (\<exists>k\<ge>1. (\<forall>j. 1 \<le> j \<and> j < k \<longrightarrow> time_before env (jiffies env j) (jiffies env 0 + timeout)) \<and>
        (r3 = 0 \<and> \<not> time_before env (jiffies env k) (jiffies env 0 + timeout) \<or>
         r3 = - ERESTARTSYS env \<and> signal_after env k \<and> time_before env (jiffies env k) (jiffies env 0 + timeout))))"
proof -
  have plain: "wait_event env s e cur (Some q) False = None"
    by (simp add: wait_event_def wait_loop_false)
  have intr: "r1 = - ERESTARTSYS env \<and> (\<exists>n. signal_after env n)"
    if "wait_event_interruptible env s e cur (Some q) False = Some (s1, r1)"
    using that by (auto simp: wait_event_interruptible_def bind_eq_Some_conv dest!: interruptible_loop_false)
  have timed: "r2 = 0 \<and> (timeout = 0 \<or> (\<exists>k\<ge>1. \<not> time_before env (jiffies env k) (jiffies env 0 + timeout) \<and>
      (\<forall>j. 1 \<le> j \<and> j < k \<longrightarrow> time_before env (jiffies env j) (jiffies env 0 + timeout))))"
    if "wait_event_timeout env s e cur (Some q) False timeout = Some (s2, r2)"
    using that by (auto simp: wait_event_timeout_def bind_eq_Some_conv split: if_splits dest!: timeout_loop_false)
  have both: "r3 = 0 \<and> timeout = 0 \<or>
      (\<exists>k\<ge>1. (\<forall>j. 1 \<le> j \<and> j < k \<longrightarrow> time_before env (jiffies env j) (jiffies env 0 + timeout)) \<and>
        (r3 = 0 \<and> \<not> time_before env (jiffies env k) (jiffies env 0 + timeout) \<or>
         r3 = - ERESTARTSYS env \<and> signal_after env k \<and> time_before env (jiffies env k) (jiffies env 0 + timeout)))"
    if "wait_event_interruptible_timeout env s e cur (Some q) False timeout = Some (s3, r3)"
    using that by (auto simp: wait_event_interruptible_timeout_def bind_eq_Some_conv split: if_splits dest!: timeout_loop_false)
  show ?thesis using plain intr timed both by blast
qed

lemma sample_waits:
  "\<exists>s'. wait_event_interruptible sample_wait_env sample_queues 0 7 (Some 0) False = Some (s', - 512)"
  "\<exists>s'. wait_event_timeout sample_wait_env sample_queues 0 7 (Some 0) False 4 = Some (s', 0)"
  "\<exists>s'. wait_event_interruptible_timeout sample_wait_env sample_queues 0 7 (Some 0) False 4 = Some (s', - 512)"
  by (simp_all add: wait_event_interruptible_def wait_event_timeout_def wait_event_interruptible_timeout_def
      wait_queue_add_def wait_queue_entry_init_def sample_queues_def sample_wait_env_def list_init_def
      list_empty_def list_add_def list_del_def exclusive_def WQ_FLAG_EXCLUSIVE_def interruptible_loop.simps
      timeout_loop.simps wait_queue_remove_def)

text \<open>A signal at the second pass, and a clock that counts the readings.\<close>

theorem false_condition_never_satisfied_witness:
  "wait_event sample_wait_env sample_queues 0 7 (Some 0) False = None \<and>
   (\<exists>s' r. wait_event_interruptible sample_wait_env sample_queues 0 7 (Some 0) False = Some (s', r) \<and> r = - 512) \<and>
   (\<exists>s' r. wait_event_timeout sample_wait_env sample_queues 0 7 (Some 0) False 4 = Some (s', r) \<and> r = 0 \<and>
      (\<exists>k\<ge>1. \<not> of_nat k < (4 :: u32) \<and> (\<forall>j. 1 \<le> j \<and> j < k \<longrightarrow> of_nat j < (4 :: u32)))) \<and>
   (\<exists>s' r. wait_event_interruptible_timeout sample_wait_env sample_queues 0 7 (Some 0) False 4 = Some (s', r) \<and>
      r \<in> {0, - 512})"
proof -
  obtain s1 s2 s3 where
    w: "wait_event_interruptible sample_wait_env sample_queues 0 7 (Some 0) False = Some (s1, - 512)"
      "wait_event_timeout sample_wait_env sample_queues 0 7 (Some 0) False 4 = Some (s2, 0)"
      "wait_event_interruptible_timeout sample_wait_env sample_queues 0 7 (Some 0) False 4 = Some (s3, - 512)"
    using sample_waits by blast
  note c = false_condition_never_satisfied
    [of sample_wait_env sample_queues 0 7 0 s1 "- 512" 4 s2 0 s3 "- 512"]
  from c w have "wait_event sample_wait_env sample_queues 0 7 (Some 0) False = None" by blast
  moreover from c w(2) have "\<exists>k\<ge>1. \<not> of_nat k < (4 :: u32) \<and> (\<forall>j. 1 \<le> j \<and> j < k \<longrightarrow> of_nat j < (4 :: u32))"
    by (simp add: sample_wait_env_def)
  ultimately show ?thesis using w by blast
qed

end
