(* ===== verification/Mqueue.thy ===== *)
theory Mqueue
  imports Kernel_List
begin

text \<open>
  POSIX message queues, \<^verbatim>\<open>kernel/ipc/mqueue.c\<close>. Queues, messages and open files are objects at
  addresses; a freed object is absent and every access to it is a fault. The list nodes of queues
  and messages are those of theory \<open>Kernel_List\<close>. The mutexes make every stretch of code between
  lock and unlock one step; a blocking call is two steps with the wait between them, and opening a
  queue up to three, with other threads in the gaps between them. The reference count is a C
  \<^verbatim>\<open>int\<close>: a 32-bit word that wraps around and is read with its sign.

  Not defined in the repository, and arguments here: the file \<^verbatim>\<open>process_get_file\<close> returns
  (\<open>file\<close>), \<^verbatim>\<open>file_anon_fd\<close> (\<open>anon_fd\<close>), the result of an allocation (\<open>alloc\<close>), \<^verbatim>\<open>file_close\<close>, and
  what happens during a wait: \<open>wait s q\<close> is the state at the end of the wait and the value the wait
  returns. \<open>gap i s\<close> is the state after the other threads ran in the \<open>i\<close>-th gap of an open. Queue names are compared and copied as strings; user buffers are functions of the offset.
\<close>

section \<open>Data\<close>

record mq_attr =
  mq_flags :: u32
  mq_maxmsg :: u32
  mq_msgsize :: u32
  mq_curmsgs :: u32

record mq_msg =
  msg_len :: u32
  msg_prio :: u32
  msg_data :: "u8 list"

record mqueue =
  mq_name :: string
  attr :: mq_attr
  refcount :: u32

record mq_file =
  f_flags :: u32
  private_data :: "nat option"

text \<open>The list nodes: the global list, a queue's node on it, a queue's list of messages, a message's
  node. \<open>Wake_read\<close> and \<open>Wake_write\<close> are the wake-ups of a queue's readers and writers.\<close>

datatype mq_addr = Mqueue_list | Mq_node nat | Mq_msgs nat | Msg_node nat

datatype mq_wake = Wake_read nat | Wake_write nat

record mq_state =
  mq_links :: "mq_addr list_heap"
  mq_at :: "nat \<rightharpoonup> mqueue"
  msg_at :: "nat \<rightharpoonup> mq_msg"
  mq_files :: "nat \<rightharpoonup> mq_file"
  mq_woken :: "mq_wake list"

definition O_CREAT :: u32 where "O_CREAT = 0x0100"
definition O_EXCL :: u32 where "O_EXCL = 0x0200"
definition O_NONBLOCK :: u32 where "O_NONBLOCK = 0x4000"

lemmas o_flag_defs = O_CREAT_def O_EXCL_def O_NONBLOCK_def

section \<open>Looking up a queue\<close>

partial_function (option) find_walk :: "mq_state \<Rightarrow> string \<Rightarrow> mq_addr \<Rightarrow> nat option option" where
  "find_walk s name pos =
     (case pos of
        Mqueue_list \<Rightarrow> Some None
      | Mq_node q \<Rightarrow>
          Option.bind (mq_at s q) (\<lambda>mq.
            if mq_name mq = name then Some (Some q)
            else Option.bind (nxt (mq_links s) pos) (find_walk s name))
      | _ \<Rightarrow> None)"

definition mqueue_find :: "mq_state \<Rightarrow> string option \<Rightarrow> nat option option" where
  "mqueue_find s name =
     (case name of
        None \<Rightarrow> Some None
      | Some nm \<Rightarrow> Option.bind (nxt (mq_links s) Mqueue_list) (find_walk s nm))"

text \<open>
  The lines every call on a descriptor starts with: the file, its queue, or the early return \<open>r\<close>.
\<close>

definition with_mqueue :: "mq_state \<Rightarrow> nat option \<Rightarrow> 'r \<Rightarrow> (nat \<Rightarrow> mq_file \<Rightarrow> nat \<Rightarrow> mqueue \<Rightarrow> 'r option) \<Rightarrow> 'r option" where
  "with_mqueue s file r body =
     (case file of
        None \<Rightarrow> Some r
      | Some f \<Rightarrow>
          Option.bind (mq_files s f) (\<lambda>fl.
            case private_data fl of
              None \<Rightarrow> Some r
            | Some q \<Rightarrow> Option.bind (mq_at s q) (body f fl q)))"

section \<open>Opening\<close>

definition new_attr :: "mq_attr option \<Rightarrow> mq_attr" where
  "new_attr at =
     (case at of
        Some a \<Rightarrow> \<lparr>mq_flags = mq_flags a, mq_maxmsg = mq_maxmsg a, mq_msgsize = mq_msgsize a, mq_curmsgs = 0\<rparr>
      | None \<Rightarrow> \<lparr>mq_flags = 0, mq_maxmsg = 10, mq_msgsize = 8192, mq_curmsgs = 0\<rparr>)"

definition mqueue_create :: "mq_state \<Rightarrow> nat \<Rightarrow> string \<Rightarrow> mq_attr option \<Rightarrow> mq_state option" where
  "mqueue_create s q name at =
     map_option
       (\<lambda>h. s\<lparr>mq_links := h,
          mq_at := (mq_at s)(q \<mapsto> \<lparr>mq_name = name, attr = new_attr at, refcount = 1\<rparr>)\<rparr>)
       (list_add (list_init (mq_links s) (Mq_msgs q)) (Mq_node q) Mqueue_list)"

definition set_refcount :: "mq_state \<Rightarrow> nat \<Rightarrow> (u32 \<Rightarrow> u32) \<Rightarrow> mq_state option" where
  "set_refcount s q f =
     Option.bind (mq_at s q) (\<lambda>mq. Some (s\<lparr>mq_at := (mq_at s)(q \<mapsto> mq\<lparr>refcount := f (refcount mq)\<rparr>)\<rparr>))"

text \<open>
  Opening, up to the first unlock: the queue is looked up or created and referenced, and the result is
  the queue. If there is none the call returns \<^verbatim>\<open>-1\<close>.
\<close>

definition mqueue_open_ref :: "nat option \<Rightarrow> bool \<Rightarrow> mq_state \<Rightarrow> string option \<Rightarrow> u32 \<Rightarrow> mq_attr option \<Rightarrow>
    (mq_state \<times> nat option) option" where
  "mqueue_open_ref alloc name_alloc s name oflag at =
     (case name of
        None \<Rightarrow> Some (s, None)
      | Some nm \<Rightarrow>
          Option.bind (mqueue_find s name) (\<lambda>found.
            case found of
              None \<Rightarrow>
                if oflag AND O_CREAT = 0 then Some (s, None)
                else (case alloc of
                    None \<Rightarrow> Some (s, None)
                  | Some q \<Rightarrow>
                      if \<not> name_alloc then Some (s, None)
                      else map_option (\<lambda>s1. (s1, Some q)) (mqueue_create s q nm at))
            | Some q \<Rightarrow>
                if oflag AND (O_CREAT OR O_EXCL) = (O_CREAT OR O_EXCL) then Some (s, None)
                else map_option (\<lambda>s1. (s1, Some q)) (set_refcount s q (\<lambda>n. n + 1))))"

text \<open>The descriptor, without the lock; a negative result is a failure of \<^verbatim>\<open>file_anon_fd\<close>.\<close>

definition mqueue_open_fd :: "(nat \<Rightarrow> (nat \<rightharpoonup> mq_file) \<Rightarrow> int \<times> nat \<times> (nat \<rightharpoonup> mq_file)) \<Rightarrow> mq_state \<Rightarrow> nat \<Rightarrow> u32 \<Rightarrow>
    (mq_state \<times> int) option" where
  "mqueue_open_fd anon_fd s q oflag =
     (case anon_fd q (mq_files s) of
        (fd, f, files) \<Rightarrow>
          if \<not> fd < 0 \<and> oflag AND O_NONBLOCK \<noteq> 0 then
            Option.bind (files f) (\<lambda>fl.
              Some (s\<lparr>mq_files := files(f \<mapsto> fl\<lparr>f_flags := f_flags fl OR O_NONBLOCK\<rparr>)\<rparr>, fd))
          else Some (s\<lparr>mq_files := files\<rparr>, fd))"

text \<open>After that failure, under the lock again: the reference is dropped.\<close>

definition mqueue_open_failed :: "mq_state \<Rightarrow> nat \<Rightarrow> (mq_state \<times> int) option" where
  "mqueue_open_failed s q =
     Option.bind (set_refcount s q (\<lambda>n. n - 1)) (\<lambda>s1.
     Option.bind (mq_at s1 q) (\<lambda>mq.
       if refcount mq = 0 then
         Option.bind (list_del (mq_links s1) (Mq_node q)) (\<lambda>h.
           Some (s1\<lparr>mq_links := h, mq_at := (mq_at s1)(q := None)\<rparr>, -1))
       else Some (s1, -1)))"

definition mqueue_open :: "(nat \<Rightarrow> (nat \<rightharpoonup> mq_file) \<Rightarrow> int \<times> nat \<times> (nat \<rightharpoonup> mq_file)) \<Rightarrow> nat option \<Rightarrow> bool \<Rightarrow>
    (nat \<Rightarrow> mq_state \<Rightarrow> mq_state) \<Rightarrow> mq_state \<Rightarrow> string option \<Rightarrow> u32 \<Rightarrow> mq_attr option \<Rightarrow> (mq_state \<times> int) option" where
  "mqueue_open anon_fd alloc name_alloc gap s name oflag at =
     Option.bind (mqueue_open_ref alloc name_alloc s name oflag at) (\<lambda>(s1, found).
       case found of
         None \<Rightarrow> Some (s1, -1)
       | Some q \<Rightarrow>
           Option.bind (mqueue_open_fd anon_fd (gap 0 s1) q oflag) (\<lambda>(s2, fd).
             if fd < 0 then mqueue_open_failed (gap 1 s2) q else Some (s2, fd)))"

section \<open>Closing and unlinking\<close>

partial_function (option) free_msgs :: "mq_state \<Rightarrow> nat \<Rightarrow> mq_addr \<Rightarrow> mq_state option" where
  "free_msgs s q pos =
     (case pos of
        Mq_msgs p \<Rightarrow> if p = q then Some s else None
      | Msg_node m \<Rightarrow>
          Option.bind (nxt (mq_links s) pos) (\<lambda>tmp.
          Option.bind (list_del (mq_links s) pos) (\<lambda>h.
            free_msgs (s\<lparr>mq_links := h, msg_at := (msg_at s)(m := None)\<rparr>) q tmp))
      | _ \<Rightarrow> None)"

text \<open>Freeing the messages, the name and the queue object.\<close>

definition mqueue_free :: "mq_state \<Rightarrow> nat \<Rightarrow> mq_state option" where
  "mqueue_free s q =
     Option.bind (nxt (mq_links s) (Mq_msgs q)) (\<lambda>p.
     Option.bind (free_msgs s q p) (\<lambda>s1. Some (s1\<lparr>mq_at := (mq_at s1)(q := None)\<rparr>)))"

definition mqueue_close :: "(nat \<Rightarrow> (nat \<rightharpoonup> mq_file) \<Rightarrow> (nat \<rightharpoonup> mq_file)) \<Rightarrow> mq_state \<Rightarrow> nat option \<Rightarrow> (mq_state \<times> int) option" where
  "mqueue_close file_close s file =
     with_mqueue s file (s, -1) (\<lambda>f fl q mq.
       Option.bind (set_refcount s q (\<lambda>n. n - 1)) (\<lambda>s1.
       Option.bind
         (if refcount mq - 1 = 0 then
            Option.bind (list_del (mq_links s1) (Mq_node q)) (\<lambda>h. mqueue_free (s1\<lparr>mq_links := h\<rparr>) q)
          else Some s1)
         (\<lambda>s2. Some (s2\<lparr>mq_files := file_close f (mq_files s2)\<rparr>, 0))))"

definition mqueue_unlink :: "mq_state \<Rightarrow> string option \<Rightarrow> (mq_state \<times> int) option" where
  "mqueue_unlink s name =
     (case name of
        None \<Rightarrow> Some (s, -1)
      | Some nm \<Rightarrow>
          Option.bind (mqueue_find s name) (\<lambda>found.
            case found of
              None \<Rightarrow> Some (s, -1)
            | Some q \<Rightarrow>
                Option.bind (mq_at s q) (\<lambda>mq.
                Option.bind (list_del (mq_links s) (Mq_node q)) (\<lambda>h.
                  if sint (refcount mq) > 0 then
                    map_option (\<lambda>h'. (s\<lparr>mq_links := h'\<rparr>, 0)) (list_add h (Mq_node q) Mqueue_list)
                  else map_option (\<lambda>s'. (s', 0)) (mqueue_free (s\<lparr>mq_links := h\<rparr>) q)))))"

section \<open>Sending\<close>

text \<open>What a call decides before it may wait: return, go on with queue \<open>q\<close>, or wait on \<open>q\<close>.\<close>

datatype mq_entry = Return int | Proceed nat | Block nat

definition send_enter :: "mq_state \<Rightarrow> nat option \<Rightarrow> u32 \<Rightarrow> mq_entry option" where
  "send_enter s file len =
     with_mqueue s file (Return (-1)) (\<lambda>f fl q mq.
       if len > mq_msgsize (attr mq) then Some (Return (-1))
       else if sint (mq_curmsgs (attr mq)) \<ge> sint (mq_maxmsg (attr mq)) then
         Some (if f_flags fl AND O_NONBLOCK \<noteq> 0 then Return (-1) else Block q)
       else Some (Proceed q))"

partial_function (option) send_pos :: "mq_state \<Rightarrow> nat \<Rightarrow> u32 \<Rightarrow> mq_addr \<Rightarrow> mq_addr option" where
  "send_pos s q prio pos =
     (case pos of
        Mq_msgs p \<Rightarrow> if p = q then Some (Mq_msgs q) else None
      | Msg_node m \<Rightarrow>
          Option.bind (msg_at s m) (\<lambda>msg.
            if prio > msg_prio msg then Some (Msg_node m)
            else Option.bind (nxt (mq_links s) pos) (send_pos s q prio))
      | _ \<Rightarrow> None)"

text \<open>
  The second half of a send. The object has \<^verbatim>\<open>sizeof(struct mq_msg) + msg_len\<close> bytes in 32 bits; when
  that sum wraps, the copy runs past it and is a fault.
\<close>

definition sizeof_mq_msg :: u32 where "sizeof_mq_msg = 16"

definition send_commit :: "nat option \<Rightarrow> mq_state \<Rightarrow> nat \<Rightarrow> (nat \<Rightarrow> u8) \<Rightarrow> u32 \<Rightarrow> u32 \<Rightarrow> (mq_state \<times> int) option" where
  "send_commit alloc s q msg_ptr len prio =
     Option.bind (mq_at s q) (\<lambda>mq.
       case alloc of
         None \<Rightarrow> Some (s, -1)
       | Some m \<Rightarrow>
           if sizeof_mq_msg + len < sizeof_mq_msg then None
           else
             let s1 = s\<lparr>msg_at := (msg_at s)(m \<mapsto>
                   \<lparr>msg_len = len, msg_prio = prio, msg_data = map msg_ptr [0..<unat len]\<rparr>)\<rparr>
             in Option.bind (nxt (mq_links s1) (Mq_msgs q)) (\<lambda>first.
                Option.bind (send_pos s1 q prio first) (\<lambda>p.
                Option.bind (list_add_tail (mq_links s1) (Msg_node m) p) (\<lambda>h.
                  Some (s1\<lparr>mq_links := h,
                     mq_at := (mq_at s1)(q \<mapsto> mq\<lparr>attr := (attr mq)\<lparr>mq_curmsgs := mq_curmsgs (attr mq) + 1\<rparr>\<rparr>),
                     mq_woken := mq_woken s1 @ [Wake_read q]\<rparr>, 0)))))"

definition mqueue_send :: "(mq_state \<Rightarrow> nat \<Rightarrow> mq_state \<times> int) \<Rightarrow> nat option \<Rightarrow> mq_state \<Rightarrow> nat option \<Rightarrow>
    (nat \<Rightarrow> u8) \<Rightarrow> u32 \<Rightarrow> u32 \<Rightarrow> (mq_state \<times> int) option" where
  "mqueue_send wait alloc s file msg_ptr len prio =
     Option.bind (send_enter s file len) (\<lambda>e.
       case e of
         Return r \<Rightarrow> Some (s, r)
       | Proceed q \<Rightarrow> send_commit alloc s q msg_ptr len prio
       | Block q \<Rightarrow>
           (case wait s q of
              (s', ret) \<Rightarrow> if ret \<noteq> 0 then Some (s', -1) else send_commit alloc s' q msg_ptr len prio))"

definition mqueue_timedsend :: "(mq_state \<Rightarrow> nat \<Rightarrow> mq_state \<times> int) \<Rightarrow> ('t \<Rightarrow> mq_state \<Rightarrow> nat \<Rightarrow> mq_state \<times> int) \<Rightarrow>
    nat option \<Rightarrow> mq_state \<Rightarrow> nat option \<Rightarrow> (nat \<Rightarrow> u8) \<Rightarrow> u32 \<Rightarrow> u32 \<Rightarrow> 't option \<Rightarrow> (mq_state \<times> int) option" where
  "mqueue_timedsend wait wait_timeout alloc s file msg_ptr len prio abs_timeout =
     (case abs_timeout of
        None \<Rightarrow> mqueue_send wait alloc s file msg_ptr len prio
      | Some t \<Rightarrow>
          Option.bind (send_enter s file len) (\<lambda>e.
            case e of
              Return r \<Rightarrow> Some (s, r)
            | Proceed q \<Rightarrow> send_commit alloc s q msg_ptr len prio
            | Block q \<Rightarrow>
                (case wait_timeout t s q of
                   (s', ret) \<Rightarrow> if ret \<le> 0 then Some (s', -1) else send_commit alloc s' q msg_ptr len prio)))"

section \<open>Receiving\<close>

definition receive_enter :: "mq_state \<Rightarrow> nat option \<Rightarrow> u32 \<Rightarrow> mq_entry option" where
  "receive_enter s file len =
     with_mqueue s file (Return (-1)) (\<lambda>f fl q mq.
       if len < mq_msgsize (attr mq) then Some (Return (-1))
       else if mq_curmsgs (attr mq) = 0 then
         Some (if f_flags fl AND O_NONBLOCK \<noteq> 0 then Return (-1) else Block q)
       else Some (Proceed q))"

text \<open>
  The value returned, the bytes written to the buffer and the priority stored, if a place for it was
  given. \<^verbatim>\<open>list_first_entry\<close> of an empty list is not a message, which is a fault.
\<close>

record mq_receipt =
  rc_len :: int
  rc_data :: "u8 list"
  rc_prio :: "u32 option"

definition rc_error :: mq_receipt where
  "rc_error = \<lparr>rc_len = -1, rc_data = [], rc_prio = None\<rparr>"

definition receive_commit :: "mq_state \<Rightarrow> nat \<Rightarrow> u32 \<Rightarrow> bool \<Rightarrow> (mq_state \<times> mq_receipt) option" where
  "receive_commit s q len want_prio =
     Option.bind (mq_at s q) (\<lambda>mq.
     Option.bind (nxt (mq_links s) (Mq_msgs q)) (\<lambda>first.
       case first of
         Msg_node m \<Rightarrow>
           Option.bind (msg_at s m) (\<lambda>msg.
           Option.bind (list_del (mq_links s) (Msg_node m)) (\<lambda>h.
             Some (s\<lparr>mq_links := h,
                mq_at := (mq_at s)(q \<mapsto> mq\<lparr>attr := (attr mq)\<lparr>mq_curmsgs := mq_curmsgs (attr mq) - 1\<rparr>\<rparr>),
                mq_woken := mq_woken s @ [Wake_write q],
                msg_at := (msg_at s)(m := None)\<rparr>,
               \<lparr>rc_len = sint (msg_len msg), rc_data = take (unat (min len (msg_len msg))) (msg_data msg),
                rc_prio = (if want_prio then Some (msg_prio msg) else None)\<rparr>)))
       | _ \<Rightarrow> None))"

definition mqueue_receive :: "(mq_state \<Rightarrow> nat \<Rightarrow> mq_state \<times> int) \<Rightarrow> mq_state \<Rightarrow> nat option \<Rightarrow> u32 \<Rightarrow> bool \<Rightarrow>
    (mq_state \<times> mq_receipt) option" where
  "mqueue_receive wait s file len want_prio =
     Option.bind (receive_enter s file len) (\<lambda>e.
       case e of
         Return r \<Rightarrow> Some (s, rc_error\<lparr>rc_len := r\<rparr>)
       | Proceed q \<Rightarrow> receive_commit s q len want_prio
       | Block q \<Rightarrow>
           (case wait s q of
              (s', ret) \<Rightarrow> if ret \<noteq> 0 then Some (s', rc_error) else receive_commit s' q len want_prio))"

definition mqueue_timedreceive :: "(mq_state \<Rightarrow> nat \<Rightarrow> mq_state \<times> int) \<Rightarrow> ('t \<Rightarrow> mq_state \<Rightarrow> nat \<Rightarrow> mq_state \<times> int) \<Rightarrow>
    mq_state \<Rightarrow> nat option \<Rightarrow> u32 \<Rightarrow> bool \<Rightarrow> 't option \<Rightarrow> (mq_state \<times> mq_receipt) option" where
  "mqueue_timedreceive wait wait_timeout s file len want_prio abs_timeout =
     (case abs_timeout of
        None \<Rightarrow> mqueue_receive wait s file len want_prio
      | Some t \<Rightarrow>
          Option.bind (receive_enter s file len) (\<lambda>e.
            case e of
              Return r \<Rightarrow> Some (s, rc_error\<lparr>rc_len := r\<rparr>)
            | Proceed q \<Rightarrow> receive_commit s q len want_prio
            | Block q \<Rightarrow>
                (case wait_timeout t s q of
                   (s', ret) \<Rightarrow> if ret \<le> 0 then Some (s', rc_error) else receive_commit s' q len want_prio)))"

section \<open>Attributes and notification\<close>

text \<open>The attributes copied out, if any, and the value returned.\<close>

definition mqueue_getattr :: "mq_state \<Rightarrow> nat option \<Rightarrow> bool \<Rightarrow> (mq_attr option \<times> int) option" where
  "mqueue_getattr s file has_attr =
     (if \<not> has_attr then Some (None, -1)
      else with_mqueue s file (None, -1) (\<lambda>f fl q mq.
        Some (Some ((attr mq)\<lparr>mq_flags := f_flags fl AND O_NONBLOCK\<rparr>), 0)))"

definition mqueue_setattr :: "mq_state \<Rightarrow> nat option \<Rightarrow> mq_attr option \<Rightarrow> bool \<Rightarrow> (mq_state \<times> mq_attr option \<times> int) option" where
  "mqueue_setattr s file at want_old =
     (case at of
        None \<Rightarrow> Some (s, None, -1)
      | Some a \<Rightarrow>
          with_mqueue s file (s, None, -1) (\<lambda>f fl q mq.
            Some (s\<lparr>mq_files := (mq_files s)(f \<mapsto> fl\<lparr>f_flags :=
                   (if mq_flags a AND O_NONBLOCK \<noteq> 0 then f_flags fl OR O_NONBLOCK
                    else f_flags fl AND NOT O_NONBLOCK)\<rparr>)\<rparr>,
              if want_old then Some ((attr mq)\<lparr>mq_flags := f_flags fl AND O_NONBLOCK\<rparr>) else None, 0)))"

definition mqueue_notify :: "mq_state \<Rightarrow> nat option \<Rightarrow> int option" where
  "mqueue_notify s file = with_mqueue s file (-1) (\<lambda>f fl q mq. Some 0)"

end
