(* ===== verification/Mqueue_Inv.thy ===== *)
theory Mqueue_Inv
  imports Mqueue
begin

text \<open>
  Message queues as lists. \<open>mq_lists h qs A ms\<close>: the global list holds the queues \<open>qs\<close>, and each queue
  \<open>q\<close> of \<open>A\<close> holds the messages \<open>ms q\<close>. The lemmas say what each loop and each list operation of
  \<^verbatim>\<open>mqueue.c\<close> does to these lists, and that every operation keeps the invariant \<open>mq_inv\<close>.
\<close>

section \<open>The lists\<close>

definition mq_map :: "nat list \<Rightarrow> (nat \<Rightarrow> nat list) \<Rightarrow> mq_addr \<Rightarrow> mq_addr list" where
  "mq_map qs ms a =
     (case a of Mqueue_list \<Rightarrow> map Mq_node qs | Mq_msgs q \<Rightarrow> map Msg_node (ms q) | _ \<Rightarrow> [])"

definition mq_heads :: "nat set \<Rightarrow> mq_addr set" where
  "mq_heads A = insert Mqueue_list (Mq_msgs ` A)"

definition mq_lists :: "mq_addr list_heap \<Rightarrow> nat list \<Rightarrow> nat set \<Rightarrow> (nat \<Rightarrow> nat list) \<Rightarrow> bool" where
  "mq_lists h qs A ms \<longleftrightarrow> lists_at h (mq_heads A) (mq_map qs ms)"

lemma mq_map_simps [simp]:
  "mq_map qs ms Mqueue_list = map Mq_node qs" "mq_map qs ms (Mq_msgs q) = map Msg_node (ms q)"
  "(mq_map qs ms)(Mq_msgs q := map Msg_node xs) = mq_map qs (ms(q := xs))"
  "(mq_map qs ms)(Mqueue_list := map Mq_node qs') = mq_map qs' ms"
  "(mq_map qs ms)(Mq_msgs q := []) = mq_map qs (ms(q := []))"
  by (auto simp: mq_map_def fun_eq_iff split: mq_addr.splits)

lemma mq_heads_simps [simp]:
  "Mqueue_list \<in> mq_heads A" "Mq_msgs q \<in> mq_heads A \<longleftrightarrow> q \<in> A"
  "Mq_node q \<notin> mq_heads A" "Msg_node q \<notin> mq_heads A"
  "insert (Mq_msgs q) (mq_heads A) = mq_heads (insert q A)"
  by (auto simp: mq_heads_def)

lemma fresh_mq:
  "fresh_for (mq_heads A) (mq_map qs ms) (Mq_node q) \<longleftrightarrow> q \<notin> set qs"
  "fresh_for (mq_heads A) (mq_map qs ms) (Msg_node m) \<longleftrightarrow> (\<forall>q\<in>A. m \<notin> set (ms q))"
  "fresh_for (mq_heads A) (mq_map qs ms) (Mq_msgs q) \<longleftrightarrow> q \<notin> A"
  by (auto simp: fresh_for_def mq_heads_def)

lemma remove1_map_inj: "inj f \<Longrightarrow> remove1 (f x) (map f xs) = map f (remove1 x xs)"
  by (induction xs) (auto simp: inj_eq)

lemma inj_nodes [simp]: "inj Mq_node" "inj Msg_node"
  by (auto intro!: injI)

lemma mq_lists_mono: "mq_lists h qs A ms \<Longrightarrow> B \<subseteq> A \<Longrightarrow> mq_lists h qs B ms"
  by (auto simp: mq_lists_def mq_heads_def intro!: kl.rep_subset [of h "insert Mqueue_list (Mq_msgs ` A)"])

lemma mq_lists_cong: "mq_lists h qs A ms \<Longrightarrow> (\<And>q. q \<in> A \<Longrightarrow> ms' q = ms q) \<Longrightarrow> mq_lists h qs A ms'"
  unfolding mq_lists_def
  by (erule kl.rep_cong) (auto simp: mq_heads_def)

lemma mq_lists_distinct:
  assumes "mq_lists h qs A ms"
  shows "distinct qs" and "q \<in> A \<Longrightarrow> distinct (ms q)"
    and "q \<in> A \<Longrightarrow> p \<in> A \<Longrightarrow> q \<noteq> p \<Longrightarrow> set (ms q) \<inter> set (ms p) = {}"
proof -
  note r = assms [unfolded mq_lists_def]
  show "distinct qs" using kl.rep_distinct [OF r, of Mqueue_list] by (simp add: distinct_map)
  show "q \<in> A \<Longrightarrow> distinct (ms q)" using kl.rep_distinct [OF r, of "Mq_msgs q"] by (simp add: distinct_map)
  show "set (ms q) \<inter> set (ms p) = {}" if "q \<in> A" "p \<in> A" "q \<noteq> p"
    using kl.rep_disjoint [OF r, of "Mq_msgs q" "Mq_msgs p"] that by auto
qed

lemma mq_lists_create:
  assumes "mq_lists h qs A ms" and "q \<notin> A" and "q \<notin> set qs"
  shows "\<exists>h'. list_add (list_init h (Mq_msgs q)) (Mq_node q) Mqueue_list = Some h' \<and>
    mq_lists h' (q # qs) (insert q A) (ms(q := []))"
proof -
  from kl.rep_init [OF assms(1) [unfolded mq_lists_def], of "Mq_msgs q"] assms(2)
  have "lists_at (list_init h (Mq_msgs q)) (mq_heads (insert q A)) (mq_map qs (ms(q := [])))"
    by (simp add: fresh_mq)
  from kl.rep_add [OF this, of Mqueue_list "Mq_node q"] assms(3)
  have "\<exists>h'. list_add (list_init h (Mq_msgs q)) (Mq_node q) Mqueue_list = Some h' \<and>
    lists_at h' (mq_heads (insert q A)) ((mq_map qs (ms(q := [])))(Mqueue_list := map Mq_node (q # qs)))"
    by (simp add: fresh_mq)
  then show ?thesis unfolding mq_lists_def mq_map_simps .
qed

lemma mq_lists_relink:
  assumes "mq_lists h qs A ms" and "q \<notin> set qs"
  shows "\<exists>h'. list_add h (Mq_node q) Mqueue_list = Some h' \<and> mq_lists h' (q # qs) A ms"
proof -
  from kl.rep_add [OF assms(1) [unfolded mq_lists_def], of Mqueue_list "Mq_node q"] assms(2)
  have "\<exists>h'. list_add h (Mq_node q) Mqueue_list = Some h' \<and>
    lists_at h' (mq_heads A) ((mq_map qs ms)(Mqueue_list := map Mq_node (q # qs)))"
    by (simp add: fresh_mq)
  then show ?thesis unfolding mq_lists_def mq_map_simps .
qed

lemma mq_lists_unlink:
  assumes "mq_lists h qs A ms" and "q \<in> set qs"
  shows "\<exists>h'. list_del h (Mq_node q) = Some h' \<and> mq_lists h' (remove1 q qs) A ms"
proof -
  from kl.rep_del [OF assms(1) [unfolded mq_lists_def], of Mqueue_list "Mq_node q"] assms(2)
  have "\<exists>h'. list_del h (Mq_node q) = Some h' \<and>
    lists_at h' (mq_heads A) ((mq_map qs ms)(Mqueue_list := map Mq_node (remove1 q qs)))"
    by (simp add: remove1_map_inj)
  then show ?thesis unfolding mq_lists_def mq_map_simps .
qed

lemma mq_lists_insert:
  assumes "mq_lists h qs A ms" and "q \<in> A" and "\<forall>p\<in>A. m \<notin> set (ms p)" and "ms q = xs @ ys"
  shows "\<exists>h'. list_add_tail h (Msg_node m) (hd (map Msg_node ys @ [Mq_msgs q])) = Some h' \<and>
    mq_lists h' qs A (ms(q := xs @ m # ys))"
proof -
  from kl.rep_add_before [OF assms(1) [unfolded mq_lists_def], of "Mq_msgs q" "Msg_node m"
      "map Msg_node xs" "map Msg_node ys"] assms(2-4)
  have "\<exists>h'. list_add_tail h (Msg_node m) (hd (map Msg_node ys @ [Mq_msgs q])) = Some h' \<and>
    lists_at h' (mq_heads A) ((mq_map qs ms)(Mq_msgs q := map Msg_node (xs @ m # ys)))"
    by (simp add: fresh_mq)
  then show ?thesis unfolding mq_lists_def mq_map_simps .
qed

lemma mq_lists_first:
  assumes "mq_lists h qs A ms" and "q \<in> A"
  shows "nxt h (Mq_msgs q) = Some (hd (map Msg_node (ms q) @ [Mq_msgs q]))"
proof (cases "ms q")
  case Nil
  with assms kl.rep_empty [OF assms(1) [unfolded mq_lists_def], of "Mq_msgs q"] show ?thesis
    by (simp add: list_empty_def)
next
  case (Cons m xs)
  with assms kl.rep_first [OF assms(1) [unfolded mq_lists_def], of "Mq_msgs q"] show ?thesis by simp
qed

lemma mq_lists_next:
  assumes "mq_lists h qs A ms" and "q \<in> A" and "ms q = xs @ m # ys"
  shows "nxt h (Msg_node m) = Some (hd (map Msg_node ys @ [Mq_msgs q]))"
  using kl.rep_next [OF assms(1) [unfolded mq_lists_def], of "Mq_msgs q" "map Msg_node xs" "Msg_node m"
      "map Msg_node ys"] assms(2,3) by simp

lemma mq_lists_queues:
  assumes "mq_lists h qs A ms"
  shows "nxt h Mqueue_list = Some (hd (map Mq_node qs @ [Mqueue_list]))"
    and "qs = xs @ q # ys \<Longrightarrow> nxt h (Mq_node q) = Some (hd (map Mq_node ys @ [Mqueue_list]))"
proof -
  note r = assms [unfolded mq_lists_def]
  show "nxt h Mqueue_list = Some (hd (map Mq_node qs @ [Mqueue_list]))"
  proof (cases qs)
    case Nil
    with kl.rep_empty [OF r, of Mqueue_list] show ?thesis by (simp add: list_empty_def)
  next
    case (Cons q ys)
    with kl.rep_first [OF r, of Mqueue_list] show ?thesis by simp
  qed
  show "nxt h (Mq_node q) = Some (hd (map Mq_node ys @ [Mqueue_list]))" if "qs = xs @ q # ys"
    using kl.rep_next [OF r, of Mqueue_list "map Mq_node xs" "Mq_node q" "map Mq_node ys"] that by simp
qed

lemma mq_lists_remove_first:
  assumes "mq_lists h qs A ms" and "q \<in> A" and "ms q = m # xs"
  shows "\<exists>h'. list_del h (Msg_node m) = Some h' \<and> mq_lists h' qs A (ms(q := xs))"
proof -
  from kl.rep_del [OF assms(1) [unfolded mq_lists_def], of "Mq_msgs q" "Msg_node m"] assms(2,3)
  have "\<exists>h'. list_del h (Msg_node m) = Some h' \<and>
    lists_at h' (mq_heads A) ((mq_map qs ms)(Mq_msgs q := map Msg_node xs))" by simp
  then show ?thesis unfolding mq_lists_def mq_map_simps .
qed

section \<open>The loops\<close>

text \<open>\<^verbatim>\<open>mqueue_find\<close> returns the first queue of the list with the name.\<close>

lemma find_walk_lists:
  assumes "mq_lists (mq_links s) qs A ms" and "set qs \<subseteq> dom (mq_at s)"
  shows "qs = xs @ ys \<Longrightarrow>
    find_walk s name (hd (map Mq_node ys @ [Mqueue_list])) = Some (find (\<lambda>q. mq_name (the (mq_at s q)) = name) ys)"
proof (induction ys arbitrary: xs)
  case Nil
  then show ?case by (simp add: find_walk.simps)
next
  case (Cons q ys)
  from mq_lists_queues(2) [OF assms(1) Cons.prems]
  have "nxt (mq_links s) (Mq_node q) = Some (hd (map Mq_node ys @ [Mqueue_list]))" .
  moreover obtain mq where "mq_at s q = Some mq" using assms(2) Cons.prems by auto
  ultimately show ?case
    using Cons.IH [of "xs @ [q]"] Cons.prems by (simp add: find_walk.simps [of s name "Mq_node q"])
qed

lemma mqueue_find_lists:
  assumes "mq_lists (mq_links s) qs A ms" and "set qs \<subseteq> dom (mq_at s)"
  shows "mqueue_find s (Some name) = Some (find (\<lambda>q. mq_name (the (mq_at s q)) = name) qs)"
  using find_walk_lists [OF assms, of "[]" qs name] mq_lists_queues(1) [OF assms(1)]
  by (simp add: mqueue_find_def)

definition not_below :: "mq_state \<Rightarrow> u32 \<Rightarrow> nat \<Rightarrow> bool" where
  "not_below s prio m \<longleftrightarrow> prio \<le> msg_prio (the (msg_at s m))"

lemma send_pos_lists:
  assumes "mq_lists (mq_links s) qs A ms" and "q \<in> A" and "set (ms q) \<subseteq> dom (msg_at s)"
  shows "ms q = xs @ ys \<Longrightarrow>
    send_pos s q prio (hd (map Msg_node ys @ [Mq_msgs q])) =
      Some (hd (map Msg_node (dropWhile (not_below s prio) ys) @ [Mq_msgs q]))"
proof (induction ys arbitrary: xs)
  case Nil
  then show ?case by (simp add: send_pos.simps)
next
  case (Cons m ys)
  from mq_lists_next [OF assms(1,2) Cons.prems]
  have "nxt (mq_links s) (Msg_node m) = Some (hd (map Msg_node ys @ [Mq_msgs q]))" .
  moreover obtain msg where "msg_at s m = Some msg" using assms(3) Cons.prems by auto
  ultimately show ?case
    using Cons.IH [of "xs @ [m]"] Cons.prems
    by (auto simp: send_pos.simps [of s q prio "Msg_node m"] not_below_def not_less)
qed

lemma free_msgs_lists:
  assumes "mq_lists (mq_links s) qs A ms" and "q \<in> A"
  shows "\<exists>h. free_msgs s q (hd (map Msg_node (ms q) @ [Mq_msgs q])) =
      Some (s\<lparr>mq_links := h, msg_at := (msg_at s) |` (- set (ms q))\<rparr>) \<and>
    mq_lists h qs A (ms(q := []))"
  using assms(1)
proof (induction "ms q" arbitrary: s ms)
  case Nil
  then have "ms(q := []) = ms" by (simp add: fun_eq_iff)
  with Nil show ?case
    by (intro exI [of _ "mq_links s"]) (simp add: free_msgs.simps)
next
  case (Cons m xs)
  from mq_lists_remove_first [OF Cons.prems assms(2) Cons.hyps(2) [symmetric]] obtain h where
    h: "list_del (mq_links s) (Msg_node m) = Some h" "mq_lists h qs A (ms(q := xs))" by blast
  let ?s = "s\<lparr>mq_links := h, msg_at := (msg_at s)(m := None)\<rparr>"
  have "\<exists>h'. free_msgs ?s q (hd (map Msg_node xs @ [Mq_msgs q])) =
      Some (?s\<lparr>mq_links := h', msg_at := (msg_at ?s) |` (- set xs)\<rparr>) \<and> mq_lists h' qs A (ms(q := []))"
    using Cons.hyps(1) [of "ms(q := xs)" ?s] h(2) by simp
  moreover have "nxt (mq_links s) (Msg_node m) = Some (hd (map Msg_node xs @ [Mq_msgs q]))"
    by (rule mq_lists_next [OF Cons.prems assms(2), of "[]"]) (simp add: Cons.hyps(2) [symmetric])
  moreover have "(msg_at s)(m := None) |` (- set xs) = (msg_at s) |` (- set (ms q))"
    by (auto simp: restrict_map_def fun_eq_iff Cons.hyps(2) [symmetric])
  ultimately show ?case
    using h(1) by (simp add: Cons.hyps(2) [symmetric] free_msgs.simps [of s q "Msg_node m"])
qed

section \<open>The invariant\<close>

text \<open>
  The messages of a queue are in order of falling priority, its count is their number (in 32 bits),
  it is referenced, and no two queues have the same name.
\<close>

definition contents :: "mq_state \<Rightarrow> nat list \<Rightarrow> mq_msg list" where
  "contents s xs = map (\<lambda>m. the (msg_at s m)) xs"

definition falling :: "mq_msg list \<Rightarrow> bool" where
  "falling = sorted_wrt (\<lambda>a b. msg_prio b \<le> msg_prio a)"

definition queue_ok :: "mq_state \<Rightarrow> nat list \<Rightarrow> mqueue \<Rightarrow> bool" where
  "queue_ok s xs mq \<longleftrightarrow> set xs \<subseteq> dom (msg_at s) \<and> falling (contents s xs) \<and>
     mq_curmsgs (attr mq) = of_nat (length xs) \<and> 0 < sint (refcount mq)"

definition mq_shape :: "mq_state \<Rightarrow> nat list \<Rightarrow> (nat \<Rightarrow> nat list) \<Rightarrow> bool" where
  "mq_shape s qs ms \<longleftrightarrow>
     mq_lists (mq_links s) qs (set qs) ms \<and> dom (mq_at s) = set qs \<and>
     (\<forall>q mq. mq_at s q = Some mq \<longrightarrow> queue_ok s (ms q) mq) \<and>
     (\<forall>q mq p mp. mq_at s q = Some mq \<and> mq_at s p = Some mp \<and> mq_name mq = mq_name mp \<longrightarrow> q = p)"

definition mq_inv :: "mq_state \<Rightarrow> bool" where
  "mq_inv s \<longleftrightarrow> (\<exists>qs ms. mq_shape s qs ms)"

lemma mq_invI: "mq_shape s qs ms \<Longrightarrow> mq_inv s"
  by (auto simp: mq_inv_def)

lemma mq_shapeD:
  assumes "mq_shape s qs ms"
  shows "mq_lists (mq_links s) qs (set qs) ms" and "set qs = dom (mq_at s)"
    and "mq_at s q = Some mq \<Longrightarrow> queue_ok s (ms q) mq" and "mq_at s q = Some mq \<Longrightarrow> q \<in> set qs"
  using assms by (auto simp: mq_shape_def)

lemma queue_ok_frame:
  assumes "queue_ok s xs mq" and "\<And>m. m \<in> set xs \<Longrightarrow> msg_at s' m = msg_at s m"
  shows "queue_ok s' xs mq"
proof -
  have "contents s' xs = contents s xs" using assms(2) by (simp add: contents_def)
  with assms show ?thesis by (auto simp: queue_ok_def)
qed

text \<open>Changing the files, the wake-up log or a reference count keeps the invariant.\<close>

lemma mq_shape_frame [simp]:
  "mq_shape (s\<lparr>mq_files := f\<rparr>) qs ms \<longleftrightarrow> mq_shape s qs ms"
  "mq_shape (s\<lparr>mq_woken := w\<rparr>) qs ms \<longleftrightarrow> mq_shape s qs ms"
  by (simp_all add: mq_shape_def queue_ok_def contents_def)

text \<open>Replacing one queue object: only its own conditions have to be shown again.\<close>

lemma mq_shape_update:
  assumes "mq_shape s qs ms" and "mq_at s q = Some mq" and "mq_name mq' = mq_name mq"
    and "mq_lists h qs (set qs) (ms(q := xs))" and "queue_ok s' xs mq'"
    and "\<And>p m. p \<in> set qs \<Longrightarrow> p \<noteq> q \<Longrightarrow> m \<in> set (ms p) \<Longrightarrow> msg_at s' m = msg_at s m"
    and "mq_links s' = h" and "mq_at s' = (mq_at s)(q \<mapsto> mq')"
  shows "mq_shape s' qs (ms(q := xs))"
proof -
  have "queue_ok s' ((ms(q := xs)) p) mp" if "mq_at s' p = Some mp" for p mp
  proof (cases "p = q")
    case False
    with that assms(8) have p: "mq_at s p = Some mp" by simp
    from queue_ok_frame [OF mq_shapeD(3) [OF assms(1) p] assms(6) [OF mq_shapeD(4) [OF assms(1) p] False]]
    show ?thesis using False by simp
  qed (use that assms(5,8) in simp)
  moreover have "p = r" if "mq_at s' p = Some mp" "mq_at s' r = Some mr" "mq_name mp = mq_name mr" for p r mp mr
    using that assms(1-3,8) by (auto simp: mq_shape_def split: if_splits)
  moreover have "dom (mq_at s') = set qs" using assms(2,8) mq_shapeD(2) [OF assms(1)] by auto
  ultimately show ?thesis unfolding mq_shape_def using assms(4,7) by metis
qed

lemma set_refcount_shape:
  assumes "mq_shape s qs ms" and "mq_at s q = Some mq" and "0 < sint (f (refcount mq))"
  shows "set_refcount s q f = Some (s\<lparr>mq_at := (mq_at s)(q \<mapsto> mq\<lparr>refcount := f (refcount mq)\<rparr>)\<rparr>)"
    and "mq_shape (s\<lparr>mq_at := (mq_at s)(q \<mapsto> mq\<lparr>refcount := f (refcount mq)\<rparr>)\<rparr>) qs ms"
proof -
  show "set_refcount s q f = Some (s\<lparr>mq_at := (mq_at s)(q \<mapsto> mq\<lparr>refcount := f (refcount mq)\<rparr>)\<rparr>)"
    using assms(2) by (simp add: set_refcount_def)
  have "queue_ok s (ms q) mq" by (rule mq_shapeD(3) [OF assms(1,2)])
  then have "queue_ok (s\<lparr>mq_at := (mq_at s)(q \<mapsto> mq\<lparr>refcount := f (refcount mq)\<rparr>)\<rparr>) (ms q)
      (mq\<lparr>refcount := f (refcount mq)\<rparr>)"
    using assms(3) by (simp add: queue_ok_def contents_def)
  from mq_shape_update [OF assms(1,2) _ _ this] mq_shapeD(1) [OF assms(1)]
  show "mq_shape (s\<lparr>mq_at := (mq_at s)(q \<mapsto> mq\<lparr>refcount := f (refcount mq)\<rparr>)\<rparr>) qs ms" by simp
qed

section \<open>Sending and receiving\<close>

fun insert_prio :: "mq_msg \<Rightarrow> mq_msg list \<Rightarrow> mq_msg list" where
  "insert_prio m [] = [m]"
| "insert_prio m (x # xs) = (if msg_prio x < msg_prio m then m # x # xs else x # insert_prio m xs)"

lemma insert_prio_split:
  "insert_prio m xs = takeWhile (\<lambda>x. msg_prio m \<le> msg_prio x) xs @ m # dropWhile (\<lambda>x. msg_prio m \<le> msg_prio x) xs"
  by (induction xs) auto

lemma set_insert_prio [simp]: "set (insert_prio m xs) = insert m (set xs)"
  by (induction xs) auto

lemma falling_insert_prio: "falling xs \<Longrightarrow> falling (insert_prio m xs)"
  by (induction xs) (auto simp: falling_def)

lemma contents_insert:
  assumes "msg_at s m = Some msg"
  shows "contents s (takeWhile (not_below s (msg_prio msg)) xs @ m # dropWhile (not_below s (msg_prio msg)) xs) =
    insert_prio msg (contents s xs)"
  using assms
  by (simp add: insert_prio_split contents_def takeWhile_map dropWhile_map comp_def not_below_def [abs_def])

definition new_msg :: "(nat \<Rightarrow> u8) \<Rightarrow> u32 \<Rightarrow> u32 \<Rightarrow> mq_msg" where
  "new_msg msg_ptr len prio = \<lparr>msg_len = len, msg_prio = prio, msg_data = map msg_ptr [0..<unat len]\<rparr>"

definition count_changed :: "mqueue \<Rightarrow> u32 \<Rightarrow> mqueue" where
  "count_changed mq d = mq\<lparr>attr := (attr mq)\<lparr>mq_curmsgs := mq_curmsgs (attr mq) + d\<rparr>\<rparr>"

lemma send_commit_shape:
  assumes shape: "mq_shape s qs ms" and q: "mq_at s q = Some mq" and m: "msg_at s m = None"
    and fits: "\<not> sizeof_mq_msg + len < sizeof_mq_msg"
  shows "\<exists>h xs. send_commit (Some m) s q msg_ptr len prio =
      Some (s\<lparr>mq_links := h, msg_at := (msg_at s)(m \<mapsto> new_msg msg_ptr len prio),
         mq_at := (mq_at s)(q \<mapsto> count_changed mq 1), mq_woken := mq_woken s @ [Wake_read q]\<rparr>, 0) \<and>
    mq_shape (s\<lparr>mq_links := h, msg_at := (msg_at s)(m \<mapsto> new_msg msg_ptr len prio),
         mq_at := (mq_at s)(q \<mapsto> count_changed mq 1), mq_woken := mq_woken s @ [Wake_read q]\<rparr>) qs (ms(q := xs)) \<and>
    map ((msg_at s)(m \<mapsto> new_msg msg_ptr len prio)) xs =
      map Some (insert_prio (new_msg msg_ptr len prio) (contents s (ms q)))"
proof -
  note lists_s = mq_shapeD(1) [OF shape]
  have qin: "q \<in> set qs" by (rule mq_shapeD(4) [OF shape q])
  have ok: "queue_ok s (ms p) mp" if "mq_at s p = Some mp" for p mp using mq_shapeD(3) [OF shape that] .
  have fresh: "\<forall>p\<in>set qs. m \<notin> set (ms p)"
    using ok m mq_shapeD(2) [OF shape] by (fastforce simp: queue_ok_def)
  let ?new = "new_msg msg_ptr len prio"
  define s1 where "s1 = s\<lparr>msg_at := (msg_at s)(m \<mapsto> ?new)\<rparr>"
  let ?P = "not_below s1 prio"
  define xs where "xs = takeWhile ?P (ms q) @ m # dropWhile ?P (ms q)"
  have sub: "set (ms q) \<subseteq> dom (msg_at s)" using ok [OF q] by (simp add: queue_ok_def)
  have l1: "mq_lists (mq_links s1) qs (set qs) ms" using lists_s by (simp add: s1_def)
  have "set (ms q) \<subseteq> dom (msg_at s1)" using sub by (auto simp: s1_def)
  from send_pos_lists [OF l1 qin this, of "[]" "ms q" prio]
  have pos: "send_pos s1 q prio (hd (map Msg_node (ms q) @ [Mq_msgs q])) =
      Some (hd (map Msg_node (dropWhile ?P (ms q)) @ [Mq_msgs q]))" by simp
  from mq_lists_insert [OF l1 qin fresh, of "takeWhile ?P (ms q)" "dropWhile ?P (ms q)"] obtain h where
    h: "list_add_tail (mq_links s1) (Msg_node m) (hd (map Msg_node (dropWhile ?P (ms q)) @ [Mq_msgs q])) = Some h"
      "mq_lists h qs (set qs) (ms(q := xs))" by (auto simp: xs_def)
  let ?s = "s\<lparr>mq_links := h, msg_at := (msg_at s)(m \<mapsto> ?new),
     mq_at := (mq_at s)(q \<mapsto> count_changed mq 1), mq_woken := mq_woken s @ [Wake_read q]\<rparr>"
  have same: "contents s1 (ms q) = contents s (ms q)"
    using fresh qin by (auto simp: contents_def s1_def)
  have xs_new: "contents s1 xs = insert_prio ?new (contents s (ms q))"
    using contents_insert [of s1 m ?new "ms q"] same by (simp add: xs_def s1_def new_msg_def)
  have dom_xs: "set xs \<subseteq> dom (msg_at s1)"
    using sub by (auto simp: xs_def s1_def dest!: set_takeWhileD set_dropWhileD)
  have len_xs: "length xs = Suc (length (ms q))"
    by (simp add: xs_def) (metis length_append takeWhile_dropWhile_id)
  have okq: "queue_ok ?s xs (count_changed mq 1)"
    using ok [OF q] xs_new dom_xs len_xs falling_insert_prio [of "contents s (ms q)" ?new]
    by (simp add: queue_ok_def contents_def s1_def count_changed_def)
  have "mq_shape ?s qs (ms(q := xs))"
    by (rule mq_shape_update [OF shape q _ h(2) okq]) (use fresh in \<open>auto simp: count_changed_def\<close>)
  moreover have "map (msg_at s1) xs = map Some (insert_prio ?new (contents s (ms q)))"
    unfolding xs_new [symmetric] using dom_xs by (auto simp: contents_def)
  moreover have "send_commit (Some m) s q msg_ptr len prio = Some (?s, 0)"
    using pos h(1) fits mq_lists_first [OF l1 qin] q
    by (simp add: send_commit_def new_msg_def s1_def [unfolded new_msg_def, symmetric] count_changed_def)
      (simp add: s1_def new_msg_def)
  ultimately show ?thesis by (auto simp: s1_def)
qed

definition receipt :: "mq_msg \<Rightarrow> u32 \<Rightarrow> bool \<Rightarrow> mq_receipt" where
  "receipt msg len want_prio =
     \<lparr>rc_len = sint (msg_len msg), rc_data = take (unat (min len (msg_len msg))) (msg_data msg),
      rc_prio = (if want_prio then Some (msg_prio msg) else None)\<rparr>"

lemma receive_commit_shape:
  assumes shape: "mq_shape s qs ms" and q: "mq_at s q = Some mq" and m: "ms q = m # xs"
  shows "\<exists>h msg. msg_at s m = Some msg \<and> receive_commit s q len want_prio =
      Some (s\<lparr>mq_links := h, msg_at := (msg_at s)(m := None),
         mq_at := (mq_at s)(q \<mapsto> count_changed mq (-1)), mq_woken := mq_woken s @ [Wake_write q]\<rparr>,
        receipt msg len want_prio) \<and>
    mq_shape (s\<lparr>mq_links := h, msg_at := (msg_at s)(m := None),
         mq_at := (mq_at s)(q \<mapsto> count_changed mq (-1)), mq_woken := mq_woken s @ [Wake_write q]\<rparr>) qs (ms(q := xs))"
proof -
  note lists_s = mq_shapeD(1) [OF shape]
  have qin: "q \<in> set qs" by (rule mq_shapeD(4) [OF shape q])
  have ok: "queue_ok s (m # xs) mq" using mq_shapeD(3) [OF shape q] m by simp
  then obtain msg where msg: "msg_at s m = Some msg" by (auto simp: queue_ok_def)
  from mq_lists_remove_first [OF lists_s qin m] obtain h where
    h: "list_del (mq_links s) (Msg_node m) = Some h" "mq_lists h qs (set qs) (ms(q := xs))" by blast
  let ?s = "s\<lparr>mq_links := h, msg_at := (msg_at s)(m := None),
     mq_at := (mq_at s)(q \<mapsto> count_changed mq (-1)), mq_woken := mq_woken s @ [Wake_write q]\<rparr>"
  have notin: "m \<notin> set xs" using mq_lists_distinct(2) [OF lists_s qin] m by simp
  then have same: "contents ?s xs = contents s xs" by (auto simp: contents_def)
  have "falling (contents s xs)" using ok by (simp add: queue_ok_def contents_def falling_def)
  then have okq: "queue_ok ?s xs (count_changed mq (-1))"
    unfolding queue_ok_def same using ok notin by (auto simp: queue_ok_def count_changed_def)
  have "mq_shape ?s qs (ms(q := xs))"
    by (rule mq_shape_update [OF shape q _ h(2) okq])
      (use mq_lists_distinct(3) [OF lists_s qin] m in \<open>auto simp: count_changed_def\<close>)
  moreover have "receive_commit s q len want_prio = Some (?s, receipt msg len want_prio)"
    using mq_lists_first [OF lists_s qin] q m msg h(1)
    by (simp add: receive_commit_def receipt_def count_changed_def)
  ultimately show ?thesis using msg by blast
qed

text \<open>A message is taken only from a queue that has one: otherwise there is no result.\<close>

lemma receive_commit_empty:
  assumes "mq_shape s qs ms" and "mq_at s q = Some mq" and "ms q = []"
  shows "receive_commit s q len want_prio = None"
  using mq_lists_first [OF mq_shapeD(1) [OF assms(1)] mq_shapeD(4) [OF assms(1,2)]] assms(2,3)
  by (simp add: receive_commit_def)

section \<open>Creating, closing and unlinking\<close>

lemma mqueue_find_shape:
  assumes "mq_shape s qs ms"
  shows "mqueue_find s (Some name) = Some (Some q) \<longleftrightarrow> (\<exists>mq. mq_at s q = Some mq \<and> mq_name mq = name)"
    and "mqueue_find s (Some name) = Some None \<longleftrightarrow> (\<forall>q mq. mq_at s q = Some mq \<longrightarrow> mq_name mq \<noteq> name)"
    and "\<exists>r. mqueue_find s (Some name) = Some r"
proof -
  let ?P = "\<lambda>q. mq_name (the (mq_at s q)) = name"
  have dom_s: "dom (mq_at s) = set qs" using mq_shapeD(2) [OF assms] by simp
  have f: "mqueue_find s (Some name) = Some (find ?P qs)"
    using mqueue_find_lists [OF mq_shapeD(1) [OF assms]] mq_shapeD(2) [OF assms] by simp
  then show "\<exists>r. mqueue_find s (Some name) = Some r" by simp
  show none: "mqueue_find s (Some name) = Some None \<longleftrightarrow> (\<forall>q mq. mq_at s q = Some mq \<longrightarrow> mq_name mq \<noteq> name)"
    unfolding f using dom_s [symmetric] by (auto simp: find_None_iff) blast
  have uniq: "q = p" if P: "?P q" "?P p" and mem: "q \<in> set qs" "p \<in> set qs" for p
  proof -
    obtain mq mp where "mq_at s q = Some mq" "mq_at s p = Some mp" using mem dom_s by blast
    with P assms show ?thesis unfolding mq_shape_def by fastforce
  qed
  have hit: "?P p \<and> p \<in> set qs" if "find ?P qs = Some p" for p
    using that by (auto simp: find_Some_iff)
  show "mqueue_find s (Some name) = Some (Some q) \<longleftrightarrow> (\<exists>mq. mq_at s q = Some mq \<and> mq_name mq = name)"
  proof
    assume "mqueue_find s (Some name) = Some (Some q)"
    with f have "find ?P qs = Some q" by simp
    from hit [OF this] have "q \<in> dom (mq_at s)" "?P q" using dom_s by simp_all
    then show "\<exists>mq. mq_at s q = Some mq \<and> mq_name mq = name" by auto
  next
    assume "\<exists>mq. mq_at s q = Some mq \<and> mq_name mq = name"
    then have q: "?P q" "q \<in> set qs" using dom_s by auto
    then obtain p where p: "find ?P qs = Some p" by (cases "find ?P qs") (auto simp: find_None_iff)
    from hit [OF p] uniq [of p] q have "q = p" by simp
    with f p show "mqueue_find s (Some name) = Some (Some q)" by simp
  qed
qed

lemma mqueue_create_shape:
  assumes shape: "mq_shape s qs ms" and q: "mq_at s q = None"
    and name: "\<forall>p mp. mq_at s p = Some mp \<longrightarrow> mq_name mp \<noteq> name"
  shows "\<exists>s'. mqueue_create s q name at = Some s' \<and> mq_shape s' (q # qs) (ms(q := [])) \<and>
    mq_at s' = (mq_at s)(q \<mapsto> \<lparr>mq_name = name, attr = new_attr at, refcount = 1\<rparr>) \<and>
    msg_at s' = msg_at s \<and> mq_files s' = mq_files s"
proof -
  have notin: "q \<notin> set qs" using q mq_shapeD(2) [OF shape] by auto
  from mq_lists_create [OF mq_shapeD(1) [OF shape] notin notin] obtain h where
    h: "list_add (list_init (mq_links s) (Mq_msgs q)) (Mq_node q) Mqueue_list = Some h"
      "mq_lists h (q # qs) (set (q # qs)) (ms(q := []))" by auto
  let ?new = "\<lparr>mq_name = name, attr = new_attr at, refcount = 1\<rparr>"
  let ?s = "s\<lparr>mq_links := h, mq_at := (mq_at s)(q \<mapsto> ?new)\<rparr>"
  have "queue_ok ?s [] ?new"
    by (simp add: queue_ok_def contents_def falling_def new_attr_def split: option.split)
  moreover have "queue_ok ?s (ms p) mp" if "mq_at s p = Some mp" for p mp
    using mq_shapeD(3) [OF shape that] by (simp add: queue_ok_def contents_def)
  ultimately have "mq_shape ?s (q # qs) (ms(q := []))"
    using h(2) shape name by (auto simp: mq_shape_def)
  then show ?thesis using h(1) by (simp add: mqueue_create_def)
qed

text \<open>Removing a queue object that is on no list any more.\<close>

lemma mq_shape_drop:
  assumes "mq_shape s qs ms" and "q \<in> set qs" and "mq_lists h (remove1 q qs) (set qs) ms'"
    and "\<And>p. p \<noteq> q \<Longrightarrow> ms' p = ms p" and "mq_links s' = h" and "mq_at s' = (mq_at s)(q := None)"
    and "\<And>p m. p \<in> set qs \<Longrightarrow> p \<noteq> q \<Longrightarrow> m \<in> set (ms p) \<Longrightarrow> msg_at s' m = msg_at s m"
  shows "mq_shape s' (remove1 q qs) ms"
proof -
  have "distinct qs" by (rule mq_lists_distinct(1) [OF mq_shapeD(1) [OF assms(1)]])
  then have set_rm: "set (remove1 q qs) = set qs - {q}" by simp
  have "mq_lists h (remove1 q qs) (set (remove1 q qs)) ms"
    by (rule mq_lists_cong [OF mq_lists_mono [OF assms(3)]]) (use set_rm assms(4) in auto)
  moreover have "queue_ok s' (ms p) mp" if "mq_at s' p = Some mp" for p mp
  proof -
    from that assms(6) have p: "mq_at s p = Some mp" "p \<noteq> q" by (auto split: if_splits)
    show ?thesis
      by (rule queue_ok_frame [OF mq_shapeD(3) [OF assms(1) p(1)]])
        (rule assms(7) [OF mq_shapeD(4) [OF assms(1) p(1)] p(2)])
  qed
  moreover have "dom (mq_at s') = set (remove1 q qs)"
    using assms(6) mq_shapeD(2) [OF assms(1)] set_rm by auto
  moreover have "p = r" if "mq_at s' p = Some mp" "mq_at s' r = Some mr" "mq_name mp = mq_name mr" for p r mp mr
    using that assms(1,6) by (auto simp: mq_shape_def split: if_splits)
  ultimately show ?thesis unfolding mq_shape_def using assms(5) by metis
qed

lemma mqueue_remove_shape:
  assumes shape: "mq_shape s qs ms" and q: "mq_at s q = Some mq"
  shows "\<exists>h s'. list_del (mq_links s) (Mq_node q) = Some h \<and>
    mqueue_free (s\<lparr>mq_at := (mq_at s)(q \<mapsto> mq'), mq_links := h\<rparr>) q = Some s' \<and> mq_shape s' (remove1 q qs) ms \<and>
    mq_at s' = (mq_at s)(q := None) \<and> msg_at s' = (msg_at s) |` (- set (ms q)) \<and> mq_files s' = mq_files s"
proof -
  have qin: "q \<in> set qs" by (rule mq_shapeD(4) [OF shape q])
  from mq_lists_unlink [OF mq_shapeD(1) [OF shape] qin] obtain h where
    h: "list_del (mq_links s) (Mq_node q) = Some h" "mq_lists h (remove1 q qs) (set qs) ms" by blast
  let ?t = "s\<lparr>mq_at := (mq_at s)(q \<mapsto> mq'), mq_links := h\<rparr>"
  from free_msgs_lists [of ?t, OF _ qin] h(2) obtain h' where
    h': "free_msgs ?t q (hd (map Msg_node (ms q) @ [Mq_msgs q])) =
        Some (?t\<lparr>mq_links := h', msg_at := (msg_at s) |` (- set (ms q))\<rparr>)"
      "mq_lists h' (remove1 q qs) (set qs) (ms(q := []))" by auto
  let ?s = "s\<lparr>mq_links := h', msg_at := (msg_at s) |` (- set (ms q)), mq_at := (mq_at s)(q := None)\<rparr>"
  have "mqueue_free ?t q = Some ?s"
    using h'(1) mq_lists_first [OF h(2) qin] by (simp add: mqueue_free_def)
  moreover have "mq_shape ?s (remove1 q qs) ms"
    by (rule mq_shape_drop [OF shape qin h'(2)])
      (use mq_lists_distinct(3) [OF mq_shapeD(1) [OF shape] qin] in \<open>auto simp: restrict_map_def\<close>)
  ultimately show ?thesis using h(1) by auto
qed

end
