(* ===== verification/Mqueue_Props.thy ===== *)
theory Mqueue_Props
  imports Mqueue_Inv "HOL-Library.Multiset"
begin

text \<open>
  Message queues: the claims. The system starts with an empty list and makes the steps of the calls,
  in any order; a call that waits is two steps with any others between them, and so are the sections of
  an open. A queue is not opened when its reference count is at the largest \<^verbatim>\<open>int\<close>, since one more would make
  the count negative. \<open>queue_content s q\<close> reads the messages of a queue off the heap.
\<close>

section \<open>Runs\<close>

definition mq_boot :: "(nat \<rightharpoonup> mq_file) \<Rightarrow> mq_state" where
  "mq_boot files = \<lparr>mq_links = list_init \<lparr>nxt = Map.empty, prv = Map.empty\<rparr> Mqueue_list,
     mq_at = Map.empty, msg_at = Map.empty, mq_files = files, mq_woken = []\<rparr>"

definition refs_left :: "mq_state \<Rightarrow> bool" where
  "refs_left s \<longleftrightarrow> (\<forall>q mq. mq_at s q = Some mq \<longrightarrow> sint (refcount mq) < 2 ^ 31 - 1)"

inductive mq_step :: "mq_state \<Rightarrow> mq_state \<Rightarrow> bool" where
  step_open_ref: "mqueue_open_ref alloc name_alloc s name oflag at = Some (s', found) \<Longrightarrow>
    (\<forall>q. alloc = Some q \<longrightarrow> mq_at s q = None) \<Longrightarrow> refs_left s \<Longrightarrow> mq_step s s'"
| step_open_fd: "mqueue_open_fd anon_fd s q oflag = Some (s', fd) \<Longrightarrow> mq_step s s'"
| step_open_failed: "mqueue_open_failed s q = Some (s', r) \<Longrightarrow> mq_step s s'"
| step_close: "mqueue_close file_close s file = Some (s', r) \<Longrightarrow> mq_step s s'"
| step_unlink: "mqueue_unlink s name = Some (s', r) \<Longrightarrow> mq_step s s'"
| step_send: "send_commit alloc s q msg_ptr len prio = Some (s', r) \<Longrightarrow>
    (\<forall>m. alloc = Some m \<longrightarrow> msg_at s m = None) \<Longrightarrow> mq_step s s'"
| step_receive: "receive_commit s q len want_prio = Some (s', rc) \<Longrightarrow> mq_step s s'"
| step_setattr: "mqueue_setattr s file at want_old = Some (s', old, r) \<Longrightarrow> mq_step s s'"

inductive mq_reach :: "mq_state \<Rightarrow> bool" where
  reach_boot: "mq_reach (mq_boot files)"
| reach_step: "mq_reach s \<Longrightarrow> mq_step s s' \<Longrightarrow> mq_reach s'"

lemma mq_boot_shape: "mq_shape (mq_boot files) [] (\<lambda>_. [])"
  by (auto simp: mq_shape_def mq_boot_def mq_lists_def mq_heads_def lists_at_def dll_def list_init_def link_def)

lemma mq_inv_frame [simp]:
  "mq_inv (s\<lparr>mq_files := f\<rparr>) \<longleftrightarrow> mq_inv s" "mq_inv (s\<lparr>mq_woken := w\<rparr>) \<longleftrightarrow> mq_inv s"
  by (simp_all add: mq_inv_def)

lemma with_mqueue_Some:
  "with_mqueue s file r body = Some x \<longleftrightarrow>
     x = r \<and> (file = None \<or> (\<exists>f fl. file = Some f \<and> mq_files s f = Some fl \<and> private_data fl = None)) \<or>
     (\<exists>f fl q mq. file = Some f \<and> mq_files s f = Some fl \<and> private_data fl = Some q \<and>
        mq_at s q = Some mq \<and> body f fl q mq = Some x)"
  by (cases "mq_files s (the file)"; cases "private_data (the (mq_files s (the file)))")
    (auto simp: with_mqueue_def bind_eq_Some_conv split: option.splits)

section \<open>Every call keeps the invariant\<close>

lemma refcount_pos: "mq_shape s qs ms \<Longrightarrow> mq_at s q = Some mq \<Longrightarrow> 0 < sint (refcount mq)"
  by (drule (1) mq_shapeD(3)) (simp add: queue_ok_def)

lemma refcount_dec:
  assumes "mq_shape s qs ms" and "mq_at s q = Some mq" and "refcount mq \<noteq> 1"
  shows "0 < sint (refcount mq - 1)"
proof -
  have pos: "0 < sint (refcount mq)" by (rule refcount_pos [OF assms(1,2)])
  have "sint (refcount mq - 1) \<noteq> 0" using assms(3) sint_zero_iff [of "refcount mq - 1"] by simp
  with pos sint_pred [OF pos] show ?thesis by simp
qed

lemma open_failed_shape:
  assumes "mq_shape s qs ms" and "mq_at s q = Some mq"
  shows "\<exists>s'. mqueue_open_failed s q = Some (s', -1) \<and> mq_inv s'"
proof (cases "refcount mq = 1")
  case False
  from set_refcount_shape [OF assms, of "\<lambda>n. n - 1", OF refcount_dec [OF assms False]] show ?thesis
    using False by (auto simp: mqueue_open_failed_def mq_inv_def)
next
  case True
  have qin: "q \<in> set qs" by (rule mq_shapeD(4) [OF assms])
  from mq_lists_unlink [OF mq_shapeD(1) [OF assms(1)] qin] obtain h where
    h: "list_del (mq_links s) (Mq_node q) = Some h" "mq_lists h (remove1 q qs) (set qs) ms" by blast
  let ?s = "s\<lparr>mq_links := h, mq_at := (mq_at s)(q := None)\<rparr>"
  have "mq_shape ?s (remove1 q qs) ms"
    by (rule mq_shape_drop [OF assms(1) qin h(2)]) simp_all
  then show ?thesis
    using h(1) True assms(2) by (auto simp: mqueue_open_failed_def set_refcount_def mq_inv_def)
qed

lemma open_failed_inv:
  assumes "mq_inv s" and "mqueue_open_failed s q = Some (s', r)"
  shows "mq_inv s'"
proof -
  from assms(1) obtain qs ms where shape: "mq_shape s qs ms" by (auto simp: mq_inv_def)
  from assms(2) obtain mq where "mq_at s q = Some mq"
    by (auto simp: mqueue_open_failed_def set_refcount_def bind_eq_Some_conv)
  from open_failed_shape [OF shape this] assms(2) show ?thesis by auto
qed

lemma open_fd_inv: "mq_inv s \<Longrightarrow> mqueue_open_fd anon_fd s q oflag = Some (s', fd) \<Longrightarrow> mq_inv s'"
  by (auto simp: mqueue_open_fd_def bind_eq_Some_conv split: prod.splits if_splits)

lemma open_ref_inv:
  assumes "mq_inv s" and "mqueue_open_ref alloc name_alloc s name oflag at = Some (s', found)"
    and "\<forall>q. alloc = Some q \<longrightarrow> mq_at s q = None" and "refs_left s"
  shows "mq_inv s'"
proof (cases name)
  case None
  with assms(1,2) show ?thesis by (simp add: mqueue_open_ref_def)
next
  case (Some nm)
  from assms(1) obtain qs ms where shape: "mq_shape s qs ms" by (auto simp: mq_inv_def)
  from mqueue_find_shape(3) [OF shape] obtain found' where found: "mqueue_find s (Some nm) = Some found'" by blast
  show ?thesis
  proof (cases found')
    case (Some q)
    with found mqueue_find_shape(1) [OF shape] obtain mq where mq: "mq_at s q = Some mq" by auto
    have "sint (refcount mq + 1) = sint (refcount mq) + 1"
      using refcount_pos [OF shape mq] assms(4) mq by (intro sint_succ) (auto simp: refs_left_def)
    then have "0 < sint (refcount mq + 1)" using refcount_pos [OF shape mq] by simp
    from set_refcount_shape [OF shape mq, of "\<lambda>n. n + 1", OF this]
    show ?thesis
      using assms(1,2) found Some \<open>name = Some nm\<close>
      by (auto simp: mqueue_open_ref_def split: if_splits dest: mq_invI)
  next
    case None
    with found mqueue_find_shape(2) [OF shape] have free: "\<forall>p mp. mq_at s p = Some mp \<longrightarrow> mq_name mp \<noteq> nm" by simp
    show ?thesis
    proof (cases alloc)
      case (Some q)
      with mqueue_create_shape [OF shape _ free, of q at] assms(3) obtain s1 where
        s1: "mqueue_create s q nm at = Some s1" "mq_shape s1 (q # qs) (ms(q := []))" by auto
      show ?thesis
        using assms(1,2) found None Some s1(1) \<open>name = Some nm\<close> mq_invI [OF s1(2)]
        by (auto simp: mqueue_open_ref_def split: if_splits)
    qed (use assms(1,2) found None \<open>name = Some nm\<close> in \<open>auto simp: mqueue_open_ref_def split: if_splits\<close>)
  qed
qed

lemma mqueue_close_live:
  assumes "mq_inv s" and "mq_files s f = Some fl" and "private_data fl = Some q" and "mq_at s q = Some mq"
  shows "\<exists>s'. mqueue_close file_close s (Some f) = Some (s', 0) \<and> mq_inv s' \<and>
    (mq_at s' q = None \<longleftrightarrow> refcount mq = 1) \<and> (\<forall>p. p \<noteq> q \<longrightarrow> mq_at s' p = mq_at s p)"
proof -
  from assms(1) obtain qs ms where shape: "mq_shape s qs ms" by (auto simp: mq_inv_def)
  let ?t = "s\<lparr>mq_at := (mq_at s)(q \<mapsto> mq\<lparr>refcount := refcount mq - 1\<rparr>)\<rparr>"
  show ?thesis
  proof (cases "refcount mq = 1")
    case False
    from set_refcount_shape [OF shape assms(4), of "\<lambda>n. n - 1", OF refcount_dec [OF shape assms(4) False]]
    show ?thesis
      using False assms(2-4) by (auto simp: mqueue_close_def with_mqueue_def dest: mq_invI)
  next
    case True
    from mqueue_remove_shape [OF shape assms(4)] obtain h s' where
      h: "list_del (mq_links s) (Mq_node q) = Some h" "mqueue_free (?t\<lparr>mq_links := h\<rparr>) q = Some s'"
        "mq_shape s' (remove1 q qs) ms" "mq_at s' = (mq_at s)(q := None)" by blast
    with True assms(2-4) mq_invI [OF h(3)] show ?thesis
      by (auto simp: mqueue_close_def with_mqueue_def set_refcount_def)
  qed
qed

lemma mqueue_close_inv:
  assumes "mq_inv s" and "mqueue_close file_close s file = Some (s', r)"
  shows "mq_inv s'"
proof -
  from assms(2) have "s' = s \<or> (\<exists>f fl q mq. file = Some f \<and> mq_files s f = Some fl \<and> private_data fl = Some q \<and>
      mq_at s q = Some mq)"
    unfolding mqueue_close_def with_mqueue_Some by blast
  then show ?thesis
  proof (elim disjE exE conjE)
    fix f fl q mq
    assume "file = Some f" "mq_files s f = Some fl" "private_data fl = Some q" "mq_at s q = Some mq"
    with mqueue_close_live [OF assms(1), of f fl q mq file_close] assms(2) show ?thesis by auto
  qed (use assms(1) in simp)
qed

lemma mqueue_unlink_shape:
  assumes shape: "mq_shape s qs ms" and q: "mq_at s q = Some mq"
  shows "\<exists>h. mqueue_unlink s (Some (mq_name mq)) = Some (s\<lparr>mq_links := h\<rparr>, 0) \<and>
    mq_shape (s\<lparr>mq_links := h\<rparr>) (q # remove1 q qs) ms"
proof -
  have found: "mqueue_find s (Some (mq_name mq)) = Some (Some q)"
    using mqueue_find_shape(1) [OF shape] q by auto
  have qin: "q \<in> set qs" by (rule mq_shapeD(4) [OF shape q])
  have dist: "distinct qs" by (rule mq_lists_distinct(1) [OF mq_shapeD(1) [OF shape]])
  from mq_lists_unlink [OF mq_shapeD(1) [OF shape] qin] obtain h where
    h: "list_del (mq_links s) (Mq_node q) = Some h" "mq_lists h (remove1 q qs) (set qs) ms" by blast
  from mq_lists_relink [OF h(2), of q] dist obtain h' where
    h': "list_add h (Mq_node q) Mqueue_list = Some h'" "mq_lists h' (q # remove1 q qs) (set qs) ms" by auto
  have sets: "set (q # remove1 q qs) = set qs" using qin dist by auto
  have "0 < sint (refcount mq)" by (rule refcount_pos [OF shape q])
  then have "mqueue_unlink s (Some (mq_name mq)) = Some (s\<lparr>mq_links := h'\<rparr>, 0)"
    using found q h(1) h'(1) by (simp add: mqueue_unlink_def)
  moreover have "mq_shape (s\<lparr>mq_links := h'\<rparr>) (q # remove1 q qs) ms"
    using shape h'(2) unfolding mq_shape_def sets by (auto simp: queue_ok_def contents_def)
  ultimately show ?thesis by blast
qed

lemma mqueue_unlink_total:
  assumes "mq_inv s"
  shows "\<exists>s' r. mqueue_unlink s name = Some (s', r) \<and> mq_inv s' \<and> mq_at s' = mq_at s"
proof (cases name)
  case None
  with assms show ?thesis by (simp add: mqueue_unlink_def)
next
  case (Some nm)
  from assms obtain qs ms where shape: "mq_shape s qs ms" by (auto simp: mq_inv_def)
  from mqueue_find_shape(3) [OF shape] obtain found where found: "mqueue_find s (Some nm) = Some found" by blast
  show ?thesis
  proof (cases found)
    case None
    with found Some assms show ?thesis by (simp add: mqueue_unlink_def)
  next
    case (Some q)
    with found mqueue_find_shape(1) [OF shape] obtain mq where mq: "mq_at s q = Some mq" "mq_name mq = nm" by auto
    with mqueue_unlink_shape [OF shape mq(1)] \<open>name = Some nm\<close> show ?thesis
      by (auto dest: mq_invI)
  qed
qed

lemma mqueue_unlink_inv: "mq_inv s \<Longrightarrow> mqueue_unlink s name = Some (s', r) \<Longrightarrow> mq_inv s'"
  using mqueue_unlink_total [of s name] by auto

lemma send_commit_inv:
  assumes "mq_inv s" and "send_commit alloc s q msg_ptr len prio = Some (s', r)"
    and "\<forall>m. alloc = Some m \<longrightarrow> msg_at s m = None"
  shows "mq_inv s'"
proof (cases alloc)
  case None
  with assms show ?thesis by (auto simp: send_commit_def bind_eq_Some_conv)
next
  case (Some m)
  from assms(1) obtain qs ms where shape: "mq_shape s qs ms" by (auto simp: mq_inv_def)
  from assms(2) Some obtain mq where "mq_at s q = Some mq" "\<not> sizeof_mq_msg + len < sizeof_mq_msg"
    by (auto simp: send_commit_def bind_eq_Some_conv split: if_splits)
  from send_commit_shape [OF shape this(1) _ this(2), of m msg_ptr prio] assms(2,3) Some
  show ?thesis by (auto dest: mq_invI)
qed

lemma receive_commit_inv:
  assumes "mq_inv s" and "receive_commit s q len want_prio = Some (s', rc)"
  shows "mq_inv s'"
proof -
  from assms(1) obtain qs ms where shape: "mq_shape s qs ms" by (auto simp: mq_inv_def)
  from assms(2) obtain mq where mq: "mq_at s q = Some mq" by (auto simp: receive_commit_def bind_eq_Some_conv)
  show ?thesis
  proof (cases "ms q")
    case Nil
    with receive_commit_empty [OF shape mq] assms(2) show ?thesis by simp
  next
    case (Cons m xs)
    from receive_commit_shape [OF shape mq this, of len want_prio] assms(2)
    show ?thesis by (auto dest: mq_invI)
  qed
qed

lemma mqueue_setattr_inv:
  assumes "mq_inv s" and "mqueue_setattr s file at want_old = Some (s', old, r)"
  shows "mq_inv s'"
  using assms by (auto simp: mqueue_setattr_def with_mqueue_Some split: option.splits)

lemma mq_reach_inv: "mq_reach s \<Longrightarrow> mq_inv s"
proof (induction rule: mq_reach.induct)
  case (reach_boot files)
  show ?case by (rule mq_invI [OF mq_boot_shape])
next
  case (reach_step s s')
  from reach_step.hyps(2) reach_step.IH show ?case
    by (cases rule: mq_step.cases)
      (auto intro: open_ref_inv open_fd_inv open_failed_inv mqueue_close_inv send_commit_inv receive_commit_inv mqueue_setattr_inv
        mqueue_unlink_inv)
qed

text \<open>A whole call of \<^verbatim>\<open>mqueue_open\<close> is such a run, if the other threads run in its gaps.\<close>

lemma mqueue_open_run:
  assumes "mqueue_open anon_fd alloc name_alloc gap s name oflag at = Some (s', r)"
    and "\<forall>q. alloc = Some q \<longrightarrow> mq_at s q = None" and "refs_left s" and "\<And>i t. mq_step\<^sup>*\<^sup>* t (gap i t)"
  shows "mq_step\<^sup>*\<^sup>* s s'"
proof -
  from assms(1) obtain s1 found where o: "mqueue_open_ref alloc name_alloc s name oflag at = Some (s1, found)"
    by (auto simp: mqueue_open_def bind_eq_Some_conv)
  have run: "mq_step\<^sup>*\<^sup>* s s1" using step_open_ref [OF o assms(2,3)] by (rule r_into_rtranclp)
  show ?thesis
  proof (cases found)
    case None
    with assms(1) o run show ?thesis by (simp add: mqueue_open_def)
  next
    case (Some q)
    with assms(1) o obtain s2 fd where f: "mqueue_open_fd anon_fd (gap 0 s1) q oflag = Some (s2, fd)"
      "(if fd < 0 then mqueue_open_failed (gap 1 s2) q else Some (s2, fd)) = Some (s', r)"
      by (auto simp: mqueue_open_def bind_eq_Some_conv)
    have "mq_step\<^sup>*\<^sup>* s s2"
      using run assms(4) [of s1 0] step_open_fd [OF f(1)] by (meson rtranclp.rtrancl_into_rtrancl rtranclp_trans)
    then show ?thesis
      using f(2) assms(4) [of s2 1] step_open_failed [of "gap 1 s2" q s' r]
      by (cases "fd < 0") (auto intro: rtranclp.rtrancl_into_rtrancl rtranclp_trans)
  qed
qed

section \<open>The contents of a queue\<close>

definition queue_content :: "mq_state \<Rightarrow> nat \<Rightarrow> mq_msg list option" where
  "queue_content s q =
     Option.bind (list_for_each (mq_links s) (Mq_msgs q)) (\<lambda>ns.
       those (map (\<lambda>n. case n of Msg_node m \<Rightarrow> msg_at s m | _ \<Rightarrow> None) ns))"

lemma those_the: "set xs \<subseteq> dom f \<Longrightarrow> those (map f xs) = Some (map (\<lambda>x. the (f x)) xs)"
  by (induction xs) auto

lemma queue_content_shape:
  assumes "mq_shape s qs ms" and "mq_at s q = Some mq"
  shows "queue_content s q = Some (contents s (ms q))"
proof -
  have "list_for_each (mq_links s) (Mq_msgs q) = Some (map Msg_node (ms q))"
    using kl.rep_for_each [of "mq_links s" "mq_heads (set qs)" "mq_map qs ms" "Mq_msgs q"]
      mq_shapeD(1) [OF assms(1)] mq_shapeD(4) [OF assms] by (simp add: mq_lists_def)
  moreover have "set (ms q) \<subseteq> dom (msg_at s)" using mq_shapeD(3) [OF assms] by (simp add: queue_ok_def)
  ultimately show ?thesis by (simp add: queue_content_def contents_def comp_def those_the)
qed

lemma those_Some: "map f xs = map Some ys \<Longrightarrow> map (\<lambda>x. the (f x)) xs = ys"
  by (induction xs arbitrary: ys) auto

text \<open>A message that the length check accepted fits in 32 bits with its header.\<close>

lemma no_wrap:
  assumes "len \<le> sz" and "0 \<le> sint (sz :: u32)"
  shows "\<not> sizeof_mq_msg + len < sizeof_mq_msg"
proof -
  have "\<not> bit (uint sz) 31" using assms(2) by (simp add: sint_uint)
  then have "uint sz div 2 ^ 31 mod 2 = 0" by (simp add: bit_iff_odd even_iff_mod_2_eq_zero)
  moreover have "uint sz < 2 ^ 32" using uint_lt2p [of sz] by simp
  ultimately have "uint sz < 2 ^ 31"
    by (cases "uint sz < 2147483648") (auto simp: not_less div_pos_geq even_iff_mod_2_eq_zero)
  moreover have "uint len \<le> uint sz" using assms(1) by (simp add: word_le_def)
  ultimately have "uint (sizeof_mq_msg + len) = uint sizeof_mq_msg + uint len"
    by (simp add: sizeof_mq_msg_def uint_word_ariths)
  then show ?thesis by (simp add: word_less_def)
qed

lemma send_commit_content:
  assumes inv: "mq_inv s" and q: "mq_at s q = Some mq" and m: "msg_at s m = None"
    and fits: "\<not> sizeof_mq_msg + len < sizeof_mq_msg" and c: "queue_content s q = Some xs"
  shows "\<exists>s'. send_commit (Some m) s q msg_ptr len prio = Some (s', 0) \<and> mq_inv s' \<and>
    queue_content s' q = Some (insert_prio (new_msg msg_ptr len prio) xs) \<and>
    mq_at s' = (mq_at s)(q \<mapsto> count_changed mq 1) \<and> mq_files s' = mq_files s \<and>
    msg_at s' = (msg_at s)(m \<mapsto> new_msg msg_ptr len prio) \<and>
    (\<forall>p. p \<noteq> q \<and> mq_at s p \<noteq> None \<longrightarrow> queue_content s' p = queue_content s p)"
proof -
  from inv obtain qs ms where shape: "mq_shape s qs ms" by (auto simp: mq_inv_def)
  from send_commit_shape [OF shape q m fits, of msg_ptr prio] obtain h ys where
    send: "send_commit (Some m) s q msg_ptr len prio =
      Some (s\<lparr>mq_links := h, msg_at := (msg_at s)(m \<mapsto> new_msg msg_ptr len prio),
         mq_at := (mq_at s)(q \<mapsto> count_changed mq 1), mq_woken := mq_woken s @ [Wake_read q]\<rparr>, 0)"
    and shape': "mq_shape (s\<lparr>mq_links := h, msg_at := (msg_at s)(m \<mapsto> new_msg msg_ptr len prio),
         mq_at := (mq_at s)(q \<mapsto> count_changed mq 1), mq_woken := mq_woken s @ [Wake_read q]\<rparr>) qs (ms(q := ys))"
      (is "mq_shape ?s _ _")
    and ys: "map ((msg_at s)(m \<mapsto> new_msg msg_ptr len prio)) ys =
      map Some (insert_prio (new_msg msg_ptr len prio) (contents s (ms q)))" by blast
  have xs: "xs = contents s (ms q)" using queue_content_shape [OF shape q] c by simp
  have "contents ?s ys = insert_prio (new_msg msg_ptr len prio) xs"
    using those_Some [OF ys] by (simp add: contents_def xs)
  then have "queue_content ?s q = Some (insert_prio (new_msg msg_ptr len prio) xs)"
    using queue_content_shape [OF shape', of q] by simp
  moreover have "queue_content ?s p = queue_content s p" if "p \<noteq> q" "mq_at s p = Some mp" for p mp
  proof -
    have "set (ms p) \<subseteq> dom (msg_at s)" using mq_shapeD(3) [OF shape that(2)] by (simp add: queue_ok_def)
    then have "contents ?s (ms p) = contents s (ms p)" using m by (auto simp: contents_def)
    then show ?thesis
      using queue_content_shape [OF shape', of p mp] queue_content_shape [OF shape that(2)] that by simp
  qed
  ultimately show ?thesis using send mq_invI [OF shape'] by (intro exI [of _ ?s]) auto
qed

lemma receive_commit_content:
  assumes inv: "mq_inv s" and q: "mq_at s q = Some mq" and c: "queue_content s q = Some (x # xs)"
  shows "\<exists>s'. receive_commit s q len want_prio = Some (s', receipt x len want_prio) \<and> mq_inv s' \<and>
    queue_content s' q = Some xs \<and> mq_at s' = (mq_at s)(q \<mapsto> count_changed mq (-1)) \<and>
    mq_files s' = mq_files s \<and> (\<forall>y\<in>set xs. msg_prio y \<le> msg_prio x) \<and>
    (\<forall>m. msg_at s m = None \<longrightarrow> msg_at s' m = None)"
proof -
  from inv obtain qs ms where shape: "mq_shape s qs ms" by (auto simp: mq_inv_def)
  have xs: "x # xs = contents s (ms q)" using queue_content_shape [OF shape q] c by simp
  then obtain m ys where m: "ms q = m # ys" by (cases "ms q") (auto simp: contents_def)
  have "distinct (ms q)" using mq_lists_distinct(2) [OF mq_shapeD(1) [OF shape] mq_shapeD(4) [OF shape q]] .
  with m have notin: "m \<notin> set ys" by simp
  from receive_commit_shape [OF shape q m, of len want_prio] obtain h msg where
    rcv: "msg_at s m = Some msg" "receive_commit s q len want_prio =
      Some (s\<lparr>mq_links := h, msg_at := (msg_at s)(m := None),
         mq_at := (mq_at s)(q \<mapsto> count_changed mq (-1)), mq_woken := mq_woken s @ [Wake_write q]\<rparr>,
        receipt msg len want_prio)"
    and shape': "mq_shape (s\<lparr>mq_links := h, msg_at := (msg_at s)(m := None),
         mq_at := (mq_at s)(q \<mapsto> count_changed mq (-1)), mq_woken := mq_woken s @ [Wake_write q]\<rparr>) qs (ms(q := ys))"
      (is "mq_shape ?s _ _") by blast
  have "contents ?s ys = contents s ys" using notin by (auto simp: contents_def)
  then have "queue_content ?s q = Some xs"
    using queue_content_shape [OF shape', of q] xs m by (simp add: contents_def)
  moreover have "falling (x # xs)" using mq_shapeD(3) [OF shape q] xs by (simp add: queue_ok_def)
  moreover have "x = msg" using xs m rcv(1) by (simp add: contents_def)
  ultimately show ?thesis
    using rcv mq_invI [OF shape'] by (intro exI [of _ ?s]) (auto simp: falling_def)
qed

section \<open>Sequences of calls\<close>

text \<open>Sending a list of messages (address, buffer, length, priority), and receiving a number of them.\<close>

fun send_all :: "(mq_state \<Rightarrow> nat \<Rightarrow> mq_state \<times> int) \<Rightarrow> mq_state \<Rightarrow> nat \<Rightarrow>
    (nat \<times> (nat \<Rightarrow> u8) \<times> u32 \<times> u32) list \<Rightarrow> mq_state option" where
  "send_all wait s f [] = Some s"
| "send_all wait s f ((m, msg_ptr, len, prio) # rest) =
     Option.bind (mqueue_send wait (Some m) s (Some f) msg_ptr len prio) (\<lambda>(s', r).
       if r = 0 then send_all wait s' f rest else None)"

fun receive_all :: "(mq_state \<Rightarrow> nat \<Rightarrow> mq_state \<times> int) \<Rightarrow> mq_state \<Rightarrow> nat \<Rightarrow> u32 \<Rightarrow> nat \<Rightarrow>
    (mq_state \<times> mq_receipt list) option" where
  "receive_all wait s f len 0 = Some (s, [])"
| "receive_all wait s f len (Suc n) =
     Option.bind (mqueue_receive wait s (Some f) len True) (\<lambda>(s', rc).
     Option.bind (receive_all wait s' f len n) (\<lambda>(s'', rcs). Some (s'', rc # rcs)))"

definition message_of :: "nat \<times> (nat \<Rightarrow> u8) \<times> u32 \<times> u32 \<Rightarrow> mq_msg" where
  "message_of = (\<lambda>(m, msg_ptr, len, prio). new_msg msg_ptr len prio)"

text \<open>Insertion one after the other is the library's stable sort by falling priority.\<close>

definition neg_prio :: "mq_msg \<Rightarrow> int" where "neg_prio m = - uint (msg_prio m)"

lemma mset_insert_prio [simp]: "mset (insert_prio m xs) = add_mset m (mset xs)"
  by (induction xs) auto

lemma falling_sorted: "falling xs \<longleftrightarrow> sorted (map neg_prio xs)"
  by (induction xs) (auto simp: falling_def neg_prio_def word_le_def)

lemma filter_insert_prio:
  assumes "falling xs"
  shows "filter (\<lambda>x. neg_prio x = k) (insert_prio m xs) = filter (\<lambda>x. neg_prio x = k) (xs @ [m])"
  using assms
proof (induction xs)
  case (Cons x xs)
  show ?case
  proof (cases "msg_prio x < msg_prio m")
    case True
    then have "\<forall>y\<in>set (x # xs). neg_prio y \<noteq> neg_prio m"
      using Cons.prems by (fastforce simp: falling_def neg_prio_def word_le_def word_less_def)
    then have "neg_prio m = k \<Longrightarrow> filter (\<lambda>x. neg_prio x = k) (x # xs) = []"
      by (auto simp: filter_empty_conv)
    with True show ?thesis by (cases "neg_prio m = k") (simp_all split: if_splits)
  next
    case False
    have "falling xs" using Cons.prems by (simp add: falling_def)
    with Cons.IH False show ?thesis by simp
  qed
qed simp

definition insert_all :: "mq_msg list \<Rightarrow> mq_msg list \<Rightarrow> mq_msg list" where
  "insert_all acc ms = foldl (\<lambda>acc m. insert_prio m acc) acc ms"

lemma insert_all_Cons: "insert_all acc (m # ms) = insert_all (insert_prio m acc) ms"
  by (simp add: insert_all_def)

lemma insert_all_props:
  assumes "falling acc"
  shows "falling (insert_all acc ms)" and "mset (insert_all acc ms) = mset acc + mset ms"
    and "filter (\<lambda>x. neg_prio x = k) (insert_all acc ms) = filter (\<lambda>x. neg_prio x = k) (acc @ ms)"
  using assms
  by (induction ms arbitrary: acc)
    (simp_all add: insert_all_Cons falling_insert_prio filter_insert_prio, simp_all add: insert_all_def)

lemma insert_all_sort: "insert_all [] ms = sort_key neg_prio ms"
proof -
  have f: "falling []" by (simp add: falling_def)
  have stable: "filter (\<lambda>x. neg_prio k = neg_prio x) (insert_all [] ms) = filter (\<lambda>x. neg_prio k = neg_prio x) ms" for k
    using insert_all_props(3) [OF f, of "neg_prio k" ms] by (simp only: eq_commute [of "neg_prio k"]) simp
  have "sort_key neg_prio ms = insert_all [] ms"
    by (rule properties_for_sort_key)
      (simp_all add: insert_all_props(1,2) [OF f] stable falling_sorted [symmetric])
  then show ?thesis by simp
qed

lemma mqueue_send_room:
  assumes "mq_inv s" and "mq_files s f = Some fl" and "private_data fl = Some q" and "mq_at s q = Some mq"
    and "queue_content s q = Some xs" and "len \<le> mq_msgsize (attr mq)" and "0 \<le> sint (mq_msgsize (attr mq))"
    and "sint (mq_curmsgs (attr mq)) < sint (mq_maxmsg (attr mq))" and "msg_at s m = None"
  shows "\<exists>s'. mqueue_send wait (Some m) s (Some f) msg_ptr len prio = Some (s', 0) \<and> mq_inv s' \<and>
    queue_content s' q = Some (insert_prio (new_msg msg_ptr len prio) xs) \<and>
    mq_at s' = (mq_at s)(q \<mapsto> count_changed mq 1) \<and> mq_files s' = mq_files s \<and>
    msg_at s' = (msg_at s)(m \<mapsto> new_msg msg_ptr len prio) \<and>
    (\<forall>p. p \<noteq> q \<and> mq_at s p \<noteq> None \<longrightarrow> queue_content s' p = queue_content s p)"
proof -
  have "send_enter s (Some f) len = Some (Proceed q)"
    using assms(2-4,6,8) by (simp add: send_enter_def with_mqueue_def not_less not_le)
  then show ?thesis
    using send_commit_content [OF assms(1,4,9) no_wrap [OF assms(6,7)] assms(5), of msg_ptr prio]
    by (simp add: mqueue_send_def)
qed

lemma mqueue_receive_ready:
  assumes "mq_inv s" and "mq_files s f = Some fl" and "private_data fl = Some q" and "mq_at s q = Some mq"
    and "queue_content s q = Some (x # xs)" and "mq_msgsize (attr mq) \<le> len" and "mq_curmsgs (attr mq) \<noteq> 0"
  shows "\<exists>s'. mqueue_receive wait s (Some f) len want_prio = Some (s', receipt x len want_prio) \<and> mq_inv s' \<and>
    queue_content s' q = Some xs \<and> mq_at s' = (mq_at s)(q \<mapsto> count_changed mq (-1)) \<and>
    mq_files s' = mq_files s \<and> (\<forall>y\<in>set xs. msg_prio y \<le> msg_prio x) \<and>
    (\<forall>m. msg_at s m = None \<longrightarrow> msg_at s' m = None)"
proof -
  have "receive_enter s (Some f) len = Some (Proceed q)"
    using assms(2-4,6,7) by (simp add: receive_enter_def with_mqueue_def not_less)
  then show ?thesis
    using receive_commit_content [OF assms(1,4,5), of len want_prio] by (simp add: mqueue_receive_def)
qed

text \<open>The count of a queue is the length of its contents.\<close>

lemma curmsgs_content:
  assumes "mq_inv s" and "mq_at s q = Some mq"
  shows "\<exists>xs. queue_content s q = Some xs \<and> mq_curmsgs (attr mq) = of_nat (length xs) \<and> falling xs"
proof -
  from assms(1) obtain qs ms where shape: "mq_shape s qs ms" by (auto simp: mq_inv_def)
  from mq_shapeD(3) [OF shape assms(2)] queue_content_shape [OF shape assms(2)] show ?thesis
    by (auto simp: queue_ok_def contents_def)
qed

definition room_for :: "mq_state \<Rightarrow> nat \<Rightarrow> nat \<Rightarrow> mq_msg list \<Rightarrow> (nat \<times> (nat \<Rightarrow> u8) \<times> u32 \<times> u32) list \<Rightarrow> bool" where
  "room_for s f q xs batch \<longleftrightarrow>
     (\<exists>fl mq. mq_files s f = Some fl \<and> private_data fl = Some q \<and> mq_at s q = Some mq \<and>
        0 \<le> sint (mq_msgsize (attr mq)) \<and>
        int (length xs + length batch) \<le> sint (mq_maxmsg (attr mq)) \<and>
        (\<forall>(m, msg_ptr, len, prio)\<in>set batch. len \<le> mq_msgsize (attr mq) \<and> msg_at s m = None)) \<and>
     distinct (map fst batch) \<and> queue_content s q = Some xs"

lemma send_all_content:
  assumes "mq_inv s" and "room_for s f q xs batch"
  shows "\<exists>s'. send_all wait s f batch = Some s' \<and> mq_inv s' \<and> room_for s' f q (insert_all xs (map message_of batch)) [] \<and>
    mq_msgsize (attr (the (mq_at s' q))) = mq_msgsize (attr (the (mq_at s q)))"
  using assms
proof (induction batch arbitrary: s xs)
  case Nil
  then show ?case by (simp add: insert_all_def)
next
  case (Cons b batch)
  obtain m msg_ptr len prio where b: "b = (m, msg_ptr, len, prio)" by (metis prod_cases4)
  from Cons.prems(2) obtain fl mq where r: "mq_files s f = Some fl" "private_data fl = Some q" "mq_at s q = Some mq"
      "0 \<le> sint (mq_msgsize (attr mq))" "int (length xs + length (b # batch)) \<le> sint (mq_maxmsg (attr mq))"
      "\<forall>(m, msg_ptr, len, prio)\<in>set (b # batch). len \<le> mq_msgsize (attr mq) \<and> msg_at s m = None"
      "distinct (map fst (b # batch))" "queue_content s q = Some xs"
    unfolding room_for_def by blast
  have "length xs < 2 ^ 31" using r(5) sint_lt_2p31 [of "mq_maxmsg (attr mq)"] by simp
  moreover have "mq_curmsgs (attr mq) = of_nat (length xs)" using curmsgs_content [OF Cons.prems(1) r(3)] r(8) by simp
  ultimately have cur: "sint (mq_curmsgs (attr mq)) < sint (mq_maxmsg (attr mq))"
    using r(5) by (simp add: sint_of_nat_small)
  from mqueue_send_room [OF Cons.prems(1) r(1-3,8) _ r(4) cur, of len m wait msg_ptr prio] r(6) b obtain s' where
    s': "mqueue_send wait (Some m) s (Some f) msg_ptr len prio = Some (s', 0)" "mq_inv s'"
      "queue_content s' q = Some (insert_prio (new_msg msg_ptr len prio) xs)"
      "mq_at s' = (mq_at s)(q \<mapsto> count_changed mq 1)" "mq_files s' = mq_files s"
      "msg_at s' = (msg_at s)(m \<mapsto> new_msg msg_ptr len prio)" by auto
  have len_ins: "length (insert_prio (new_msg msg_ptr len prio) xs) = Suc (length xs)"
    using mset_insert_prio [of "new_msg msg_ptr len prio" xs] by (metis size_add_mset size_mset)
  have "room_for s' f q (insert_prio (new_msg msg_ptr len prio) xs) batch"
    unfolding room_for_def using r s'(3-6) b len_ins
    by (fastforce simp: count_changed_def image_iff)
  from Cons.IH [OF s'(2) this] s'(1,4) r(3) b show ?case
    by (auto simp: insert_all_Cons message_of_def count_changed_def)
qed

lemma receive_all_content:
  assumes "mq_inv s" and "mq_files s f = Some fl" and "private_data fl = Some q" and "mq_at s q = Some mq"
    and "queue_content s q = Some xs" and "mq_msgsize (attr mq) \<le> len" and "length xs < 2 ^ 31"
  shows "\<exists>s'. receive_all wait s f len (length xs) = Some (s', map (\<lambda>x. receipt x len True) xs) \<and> mq_inv s' \<and>
    queue_content s' q = Some []"
  using assms
proof (induction xs arbitrary: s mq)
  case (Cons x xs)
  have "mq_curmsgs (attr mq) = of_nat (Suc (length xs))"
    using curmsgs_content [OF Cons.prems(1,4)] Cons.prems(5) by simp
  then have "unat (mq_curmsgs (attr mq)) = Suc (length xs)"
    using Cons.prems(7) by (simp add: unsigned_of_nat take_bit_nat_eq_self del: of_nat_Suc)
  then have "mq_curmsgs (attr mq) \<noteq> 0" by auto
  from mqueue_receive_ready [OF Cons.prems(1-6) this, of wait True] obtain s' where
    s': "mqueue_receive wait s (Some f) len True = Some (s', receipt x len True)" "mq_inv s'"
      "queue_content s' q = Some xs" "mq_at s' = (mq_at s)(q \<mapsto> count_changed mq (-1))"
      "mq_files s' = mq_files s" by blast
  have "\<exists>t. receive_all wait s' f len (length xs) = Some (t, map (\<lambda>x. receipt x len True) xs) \<and> mq_inv t \<and>
      queue_content t q = Some []"
    by (rule Cons.IH [of s' "count_changed mq (-1)"])
      (use s' Cons.prems in \<open>simp_all add: count_changed_def\<close>)
  then show ?case using s'(1) by auto
qed simp

section \<open>A queue to try the claims on\<close>

definition sample_anon :: "nat \<Rightarrow> (nat \<rightharpoonup> mq_file) \<Rightarrow> int \<times> nat \<times> (nat \<rightharpoonup> mq_file)" where
  "sample_anon q files = (3, 0, files(0 \<mapsto> \<lparr>f_flags = 0, private_data = Some q\<rparr>))"

definition sample_attr :: mq_attr where
  "sample_attr = \<lparr>mq_flags = 0, mq_maxmsg = 2, mq_msgsize = 8, mq_curmsgs = 0\<rparr>"

definition sample_mq :: mq_state where
  "sample_mq = fst (the (mqueue_open sample_anon (Some 0) True (\<lambda>_ s. s) (mq_boot Map.empty) (Some ''q'') O_CREAT (Some sample_attr)))"

lemma sample_mq_open:
  "\<exists>h. mqueue_open sample_anon (Some 0) True (\<lambda>_ s. s) (mq_boot Map.empty) (Some ''q'') O_CREAT (Some sample_attr) =
     Some (\<lparr>mq_links = h, mq_at = [0 \<mapsto> \<lparr>mq_name = ''q'', attr = sample_attr, refcount = 1\<rparr>], msg_at = Map.empty,
       mq_files = [0 \<mapsto> \<lparr>f_flags = 0, private_data = Some 0\<rparr>], mq_woken = []\<rparr>, 3)"
  by (simp add: mqueue_open_def mqueue_open_ref_def mqueue_find_def mq_boot_def list_init_def find_walk.simps o_flag_defs
      mqueue_create_def list_add_def mqueue_open_fd_def sample_anon_def new_attr_def sample_attr_def)

lemma sample_mq_reach: "mq_reach sample_mq"
proof -
  have "mqueue_open sample_anon (Some 0) True (\<lambda>_ s. s) (mq_boot Map.empty) (Some ''q'') O_CREAT (Some sample_attr) = Some (sample_mq, 3)"
    using sample_mq_open by (auto simp: sample_mq_def)
  then have "mq_step\<^sup>*\<^sup>* (mq_boot Map.empty) sample_mq"
    by (rule mqueue_open_run) (simp_all add: mq_boot_def refs_left_def)
  then show ?thesis by (induction rule: rtranclp_induct) (auto intro: mq_reach.intros)
qed

lemma sample_mq_simps:
  "mq_at sample_mq 0 = Some \<lparr>mq_name = ''q'', attr = sample_attr, refcount = 1\<rparr>"
  "mq_files sample_mq 0 = Some \<lparr>f_flags = 0, private_data = Some 0\<rparr>" "msg_at sample_mq m = None"
  using sample_mq_open by (auto simp: sample_mq_def)

lemma sample_mq_content: "queue_content sample_mq 0 = Some []"
proof -
  from mq_reach_inv [OF sample_mq_reach] obtain qs ms where shape: "mq_shape sample_mq qs ms" by (auto simp: mq_inv_def)
  from mq_shapeD(3) [OF shape sample_mq_simps(1)] have "ms 0 = []"
    by (auto simp: queue_ok_def dom_def sample_mq_simps)
  with queue_content_shape [OF shape sample_mq_simps(1)] show ?thesis by (simp add: contents_def)
qed

section \<open>Claims\<close>

text \<open>
  C36. After any sequence of open, close, unlink, send, receive and attribute calls, interleaved at
  the waits and between the sections of an open in any way, every queue holds its messages in order of falling priority with the right
  count, is referenced, and is the only one of its name; then unlinking any name and closing any
  descriptor of a live queue run to their end without a fault, and the queue object goes exactly when
  its last reference does. The calls are those in which no queue is opened with \<open>2 ^ 31 - 1\<close> references
  already counted.
\<close>

theorem mqueue_safe:
  assumes "mq_reach s"
  shows "mq_inv s \<and> mqueue_unlink s name \<noteq> None \<and>
    (\<forall>f fl q mq. mq_files s f = Some fl \<and> private_data fl = Some q \<and> mq_at s q = Some mq \<longrightarrow>
      (\<exists>s'. mqueue_close file_close s (Some f) = Some (s', 0) \<and> mq_inv s' \<and>
        (mq_at s' q = None \<longleftrightarrow> refcount mq = 1) \<and> (\<forall>p. p \<noteq> q \<longrightarrow> mq_at s' p = mq_at s p)))"
  using mq_reach_inv [OF assms] mqueue_unlink_total [of s name] mqueue_close_live [of s] by blast

theorem mqueue_safe_witness:
  "mq_inv sample_mq \<and> (\<exists>s'. mqueue_close (\<lambda>f files. files(f := None)) sample_mq (Some 0) = Some (s', 0) \<and> mq_at s' 0 = None)"
proof -
  note safe = mqueue_safe [OF sample_mq_reach, of None "\<lambda>f files. files(f := None)"]
  from safe [THEN conjunct2, THEN conjunct2, rule_format, OF conjI [OF sample_mq_simps(2) conjI [OF _ sample_mq_simps(1)]]]
  have "\<exists>s'. mqueue_close (\<lambda>f files. files(f := None)) sample_mq (Some 0) = Some (s', 0) \<and> mq_at s' 0 = None" by auto
  with safe show ?thesis by blast
qed

text \<open>
  C37. A send to a queue with room succeeds whatever the other queues hold, and changes exactly that
  queue: the message is put behind all messages of the same or a higher priority, and the count is
  one more. No other queue's contents change.
\<close>

theorem mqueue_send_priority_order:
  assumes "mq_inv s" and "mq_files s f = Some fl" and "private_data fl = Some q" and "mq_at s q = Some mq"
    and "queue_content s q = Some xs" and "len \<le> mq_msgsize (attr mq)" and "0 \<le> sint (mq_msgsize (attr mq))"
    and "sint (mq_curmsgs (attr mq)) < sint (mq_maxmsg (attr mq))" and "msg_at s m = None"
  shows "\<exists>s'. mqueue_send wait (Some m) s (Some f) msg_ptr len prio = Some (s', 0) \<and> mq_inv s' \<and>
    queue_content s' q = Some (takeWhile (\<lambda>x. prio \<le> msg_prio x) xs @
      new_msg msg_ptr len prio # dropWhile (\<lambda>x. prio \<le> msg_prio x) xs) \<and>
    mq_at s' = (mq_at s)(q \<mapsto> count_changed mq 1) \<and>
    (\<forall>p. p \<noteq> q \<and> mq_at s p \<noteq> None \<longrightarrow> queue_content s' p = queue_content s p)"
  using mqueue_send_room [OF assms, of wait msg_ptr prio] by (auto simp: insert_prio_split new_msg_def)

theorem mqueue_send_priority_order_witness:
  "\<exists>s'. mqueue_send (\<lambda>s q. (s, 0)) (Some 7) sample_mq (Some 0) of_nat 2 5 = Some (s', 0) \<and>
     queue_content s' 0 = Some [\<lparr>msg_len = 2, msg_prio = 5, msg_data = [0, 1]\<rparr>]"
  using mqueue_send_priority_order [OF mq_reach_inv [OF sample_mq_reach] sample_mq_simps(2) _ sample_mq_simps(1)
      sample_mq_content, where len = 2 and prio = 5 and m = 7 and msg_ptr = of_nat and wait = "\<lambda>s q. (s, 0)"]
    sample_mq_simps(3) [of 7]
  by (auto simp: sample_attr_def new_msg_def upt_rec)

text \<open>
  C38. Sending a batch of messages to an empty queue with room for them and then receiving as many
  returns every one of them complete, sorted by falling priority and in the order sent within a
  priority: exactly the stable sort of the batch.
\<close>

theorem send_then_receive_sorts:
  assumes "mq_inv s" and "room_for s f q [] batch" and "mq_msgsize (attr (the (mq_at s q))) \<le> len"
  shows "\<exists>s1 s2. send_all wait s f batch = Some s1 \<and>
    receive_all wait s1 f len (length batch) =
      Some (s2, map (\<lambda>x. receipt x len True) (sort_key neg_prio (map message_of batch))) \<and>
    queue_content s2 q = Some [] \<and>
    (\<forall>x\<in>set (map message_of batch). rc_data (receipt x len True) = msg_data x)"
proof -
  from send_all_content [OF assms(1,2)] obtain s1 where
    s1: "send_all wait s f batch = Some s1" "mq_inv s1"
      "room_for s1 f q (sort_key neg_prio (map message_of batch)) []"
      "mq_msgsize (attr (the (mq_at s1 q))) = mq_msgsize (attr (the (mq_at s q)))"
    by (auto simp: insert_all_sort)
  from s1(3) obtain fl mq where r: "mq_files s1 f = Some fl" "private_data fl = Some q" "mq_at s1 q = Some mq"
      "int (length batch) \<le> sint (mq_maxmsg (attr mq))"
      "queue_content s1 q = Some (sort_key neg_prio (map message_of batch))" by (auto simp: room_for_def)
  have "length batch < 2 ^ 31" using r(4) sint_lt_2p31 [of "mq_maxmsg (attr mq)"] by simp
  with receive_all_content [OF s1(2) r(1-3,5), of len wait] s1(4) assms(3) r(3) obtain s2 where
    "receive_all wait s1 f len (length batch) =
      Some (s2, map (\<lambda>x. receipt x len True) (sort_key neg_prio (map message_of batch)))"
    "queue_content s2 q = Some []" by auto
  moreover have "rc_data (receipt x len True) = msg_data x" if "x \<in> set (map message_of batch)" for x
  proof -
    from that assms(2,3) have "x \<in> message_of ` set batch" "msg_len x \<le> len"
      by (fastforce simp: room_for_def message_of_def new_msg_def)+
    then show ?thesis by (auto simp: receipt_def message_of_def new_msg_def min_def)
  qed
  ultimately show ?thesis using s1(1) by blast
qed

theorem send_then_receive_sorts_witness:
  "\<exists>s1 s2. send_all (\<lambda>s q. (s, 0)) sample_mq 0 [(1, of_nat, 1, 3), (2, of_nat, 2, 9)] = Some s1 \<and>
     receive_all (\<lambda>s q. (s, 0)) s1 0 8 (Suc (Suc 0)) =
       Some (s2, [\<lparr>rc_len = 2, rc_data = [0, 1], rc_prio = Some 9\<rparr>, \<lparr>rc_len = 1, rc_data = [0], rc_prio = Some 3\<rparr>])"
proof -
  have room: "room_for sample_mq 0 0 [] [(1, of_nat, 1, 3), (2, of_nat, 2, 9)]"
    by (simp add: room_for_def sample_mq_simps sample_mq_content sample_attr_def)
  show ?thesis
    using send_then_receive_sorts [OF mq_reach_inv [OF sample_mq_reach] room, of 8 "\<lambda>s q. (s, 0)"]
    by (simp add: sample_mq_simps sample_attr_def message_of_def new_msg_def receipt_def neg_prio_def
        sort_key_def upt_rec del: send_all.simps receive_all.simps) blast
qed

text \<open>
  Unlinking the name of a queue that exists returns \<^verbatim>\<open>0\<close> but removes nothing: the queue is
  referenced as long as it exists, so it is put back on the list, and looking the name up afterwards
  still finds it.
\<close>

theorem unlink_keeps_queue:
  assumes "mq_inv s" and "mq_at s q = Some mq"
  shows "\<exists>s'. mqueue_unlink s (Some (mq_name mq)) = Some (s', 0) \<and>
    mqueue_find s' (Some (mq_name mq)) = Some (Some q) \<and> mq_at s' = mq_at s"
proof -
  from assms(1) obtain qs ms where shape: "mq_shape s qs ms" by (auto simp: mq_inv_def)
  from mqueue_unlink_shape [OF shape assms(2)] obtain h where
    h: "mqueue_unlink s (Some (mq_name mq)) = Some (s\<lparr>mq_links := h\<rparr>, 0)"
      "mq_shape (s\<lparr>mq_links := h\<rparr>) (q # remove1 q qs) ms" by blast
  with mqueue_find_shape(1) [OF h(2), of "mq_name mq" q] assms(2) show ?thesis by auto
qed

theorem unlink_keeps_queue_witness:
  "\<exists>s'. mqueue_unlink sample_mq (Some ''q'') = Some (s', 0) \<and> mqueue_find s' (Some ''q'') = Some (Some 0)"
  using unlink_keeps_queue [OF mq_reach_inv [OF sample_mq_reach] sample_mq_simps(1)] by auto

text \<open>
  The limit on the number of messages is not kept: two senders blocked on a full queue are both
  released by one receive, since neither looks at the count again after its wait, and the queue then
  holds one message more than its maximum.
\<close>

theorem blocked_senders_overfill:
  assumes "mq_inv s" and "mq_files s f = Some fl" and "private_data fl = Some q" and "mq_at s q = Some mq"
    and "f_flags fl AND O_NONBLOCK = 0" and "queue_content s q = Some (x # xs)"
    and "mq_curmsgs (attr mq) = mq_maxmsg (attr mq)" and "0 < sint (mq_maxmsg (attr mq))"
    and "sint (mq_maxmsg (attr mq)) < 2 ^ 31 - 1" and "0 \<le> sint (mq_msgsize (attr mq))"
    and "len1 \<le> mq_msgsize (attr mq)" and "len2 \<le> mq_msgsize (attr mq)" and "mq_msgsize (attr mq) \<le> len"
    and "msg_at s m1 = None" and "msg_at s m2 = None" and "m1 \<noteq> m2"
  shows "\<exists>s1 s2 s3 rc mq'. mqueue_receive wait s (Some f) len True = Some (s1, rc) \<and>
    mqueue_send (\<lambda>_ _. (s1, 0)) (Some m1) s (Some f) p1 len1 prio1 = Some (s2, 0) \<and>
    mqueue_send (\<lambda>_ _. (s2, 0)) (Some m2) s (Some f) p2 len2 prio2 = Some (s3, 0) \<and>
    mq_at s3 q = Some mq' \<and> mq_maxmsg (attr mq') = mq_maxmsg (attr mq) \<and>
    sint (mq_curmsgs (attr mq')) = sint (mq_maxmsg (attr mq')) + 1"
proof -
  have nz: "mq_curmsgs (attr mq) \<noteq> 0" using assms(7,8) by auto
  from mqueue_receive_ready [OF assms(1-4,6,13) nz, of wait True] obtain s1 where
    s1: "mqueue_receive wait s (Some f) len True = Some (s1, receipt x len True)" "mq_inv s1"
      "queue_content s1 q = Some xs" "mq_at s1 = (mq_at s)(q \<mapsto> count_changed mq (-1))"
      "\<forall>m. msg_at s m = None \<longrightarrow> msg_at s1 m = None" by blast
  have enter: "send_enter s (Some f) l = Some (Block q)" if "l \<le> mq_msgsize (attr mq)" for l
    using that assms(2-5,7) by (simp add: send_enter_def with_mqueue_def not_less)
  from send_commit_content [OF s1(2) _ _ no_wrap [OF assms(11,10)] s1(3), of "count_changed mq (-1)" m1 p1 prio1] s1(4,5) assms(14)
  obtain s2 where s2: "send_commit (Some m1) s1 q p1 len1 prio1 = Some (s2, 0)" "mq_inv s2"
      "queue_content s2 q = Some (insert_prio (new_msg p1 len1 prio1) xs)"
      "mq_at s2 q = Some (count_changed (count_changed mq (-1)) 1)"
      "msg_at s2 = (msg_at s1)(m1 \<mapsto> new_msg p1 len1 prio1)" by auto
  from send_commit_content [OF s2(2,4) _ no_wrap [OF assms(12,10)] s2(3), of m2 p2 prio2] s1(5) s2(5) assms(15,16)
  obtain s3 where s3: "send_commit (Some m2) s2 q p2 len2 prio2 = Some (s3, 0)"
      "mq_at s3 q = Some (count_changed (count_changed (count_changed mq (-1)) 1) 1)" by auto
  have "sint (mq_maxmsg (attr mq) + 1) = sint (mq_maxmsg (attr mq)) + 1"
    by (rule sint_succ) (use assms(8,9) in simp_all)
  then show ?thesis
    using s1(1) s2(1) s3 enter assms(7,11,12) by (simp add: mqueue_send_def count_changed_def)
qed

text \<open>The sample queue, filled up to its maximum of two messages.\<close>

lemma sample_mq_full:
  "\<exists>s x xs. mq_inv s \<and> mq_files s 0 = Some \<lparr>f_flags = 0, private_data = Some 0\<rparr> \<and>
     mq_at s 0 = Some \<lparr>mq_name = ''q'', attr = sample_attr\<lparr>mq_curmsgs := 2\<rparr>, refcount = 1\<rparr> \<and>
     queue_content s 0 = Some (x # xs) \<and> msg_at s 3 = None \<and> msg_at s 4 = None"
proof -
  let ?w = "\<lambda>s q. (s, 0 :: int)" and ?z = "new_msg of_nat 0 0"
  from mqueue_send_room [OF mq_reach_inv [OF sample_mq_reach] sample_mq_simps(2) _ sample_mq_simps(1) sample_mq_content,
      where m = 1 and len = 0 and wait = ?w and msg_ptr = of_nat and prio = 0]
  obtain s1 where "mq_inv s1" "queue_content s1 0 = Some (insert_prio ?z [])" "mq_files s1 = mq_files sample_mq"
      "msg_at s1 = (msg_at sample_mq)(1 \<mapsto> ?z)"
      "mq_at s1 = (mq_at sample_mq)(0 \<mapsto> count_changed \<lparr>mq_name = ''q'', attr = sample_attr, refcount = 1\<rparr> 1)"
    by (auto simp: sample_attr_def sample_mq_simps)
  then have s1: "mq_inv s1" "queue_content s1 0 = Some [?z]" "msg_at s1 m = (if m = 1 then Some ?z else None)"
      "mq_files s1 0 = Some \<lparr>f_flags = 0, private_data = Some 0\<rparr>"
      "mq_at s1 0 = Some \<lparr>mq_name = ''q'', attr = sample_attr\<lparr>mq_curmsgs := 1\<rparr>, refcount = 1\<rparr>" for m
    by (simp_all add: sample_mq_simps count_changed_def sample_attr_def)
  from mqueue_send_room [OF s1(1,4) _ s1(5,2), where m = 2 and len = 0 and wait = ?w and msg_ptr = of_nat and prio = 0]
  obtain s2 where "mq_inv s2" "queue_content s2 0 = Some (insert_prio ?z [?z])" "mq_files s2 = mq_files s1"
      "msg_at s2 = (msg_at s1)(2 \<mapsto> ?z)"
      "mq_at s2 = (mq_at s1)(0 \<mapsto> count_changed \<lparr>mq_name = ''q'', attr = sample_attr\<lparr>mq_curmsgs := 1\<rparr>, refcount = 1\<rparr> 1)"
    by (auto simp: sample_attr_def s1(3))
  then show ?thesis
    by (intro exI [of _ s2] exI [of _ ?z] exI [of _ "[?z]"]) (simp add: s1(3,4) count_changed_def sample_attr_def)
qed

theorem blocked_senders_overfill_witness:
  "\<exists>s s3 mq' s1 s2 rc. mqueue_receive (\<lambda>s q. (s, 0)) s (Some 0) 8 True = Some (s1, rc) \<and>
     mqueue_send (\<lambda>_ _. (s1, 0)) (Some 3) s (Some 0) of_nat 1 1 = Some (s2, 0) \<and>
     mqueue_send (\<lambda>_ _. (s2, 0)) (Some 4) s (Some 0) of_nat 1 1 = Some (s3, 0) \<and>
     mq_at s3 0 = Some mq' \<and> mq_maxmsg (attr mq') = 2 \<and> sint (mq_curmsgs (attr mq')) = 3"
proof -
  from sample_mq_full obtain s x xs where s: "mq_inv s" "mq_files s 0 = Some \<lparr>f_flags = 0, private_data = Some 0\<rparr>"
     "mq_at s 0 = Some \<lparr>mq_name = ''q'', attr = sample_attr\<lparr>mq_curmsgs := 2\<rparr>, refcount = 1\<rparr>"
     "queue_content s 0 = Some (x # xs)" "msg_at s 3 = None" "msg_at s 4 = None" by blast
  have "\<exists>s1 s2 s3 rc mq'. mqueue_receive (\<lambda>s q. (s, 0)) s (Some 0) 8 True = Some (s1, rc) \<and>
     mqueue_send (\<lambda>_ _. (s1, 0)) (Some 3) s (Some 0) of_nat 1 1 = Some (s2, 0) \<and>
     mqueue_send (\<lambda>_ _. (s2, 0)) (Some 4) s (Some 0) of_nat 1 1 = Some (s3, 0) \<and>
     mq_at s3 0 = Some mq' \<and> mq_maxmsg (attr mq') = mq_maxmsg sample_attr \<and>
     sint (mq_curmsgs (attr mq')) = sint (mq_maxmsg (attr mq')) + 1"
    using blocked_senders_overfill [OF s(1,2) _ s(3) _ s(4), where len = 8 and ?len1.0 = 1 and ?len2.0 = 1
        and ?m1.0 = 3 and ?m2.0 = 4 and wait = "\<lambda>s q. (s, 0)" and ?p1.0 = of_nat and ?p2.0 = of_nat
        and ?prio1.0 = 1 and ?prio2.0 = 1] s(5,6)
    by (simp add: sample_attr_def)
  then obtain s1 s2 s3 rc mq' where "mqueue_receive (\<lambda>s q. (s, 0)) s (Some 0) 8 True = Some (s1, rc)"
     "mqueue_send (\<lambda>_ _. (s1, 0)) (Some 3) s (Some 0) of_nat 1 1 = Some (s2, 0)"
     "mqueue_send (\<lambda>_ _. (s2, 0)) (Some 4) s (Some 0) of_nat 1 1 = Some (s3, 0)"
     "mq_at s3 0 = Some mq'" "mq_maxmsg (attr mq') = 2" "sint (mq_curmsgs (attr mq')) = 3"
    by (auto simp: sample_attr_def)
  then show ?thesis by blast
qed

end
