(* ===== verification/File_Table.thy ===== *)
theory File_Table
  imports Horizon_Prelude
begin

text \<open>
  The table of open file descriptors of a task, \<^verbatim>\<open>kernel/fs/file_table.c\<close>. A table is a record; the
  three arrays it points to are lists of their real length, and an access outside one is a fault.
  \<open>embedded\<close> says that \<^verbatim>\<open>fdt\<close> still points to the table inside \<^verbatim>\<open>files_struct\<close>, whose bit arrays
  have one 32-bit word each. A C \<^verbatim>\<open>int\<close> is an \<open>int\<close>, and its comparison with an unsigned field is made
  in 32 bits.

  The outcomes of the allocations are arguments (\<open>alloc i\<close> for the \<open>i\<close>-th one of a call), and so are
  \<^verbatim>\<open>vfs_read\<close> and \<^verbatim>\<open>vfs_write\<close>. The files handed to \<^verbatim>\<open>vfs_close\<close> are logged in order. The current
  task's table is the field \<open>ft_files\<close> of the state.
\<close>

section \<open>Data\<close>

record fdtable =
  max_fds :: u32
  fds :: "nat option list"
  close_on_exec :: "u32 list"
  open_fds :: "u32 list"

record files_struct =
  fs_count :: int
  fdt :: fdtable
  embedded :: bool
  next_fd :: int

record file_obj =
  fo_flags :: u32
  fo_pos :: u64
  fo_size :: u64

record ft_state =
  ft_files :: "files_struct option"
  ft_file :: "nat \<Rightarrow> file_obj"
  ft_closed :: "nat list"

definition NR_OPEN_DEFAULT :: nat where "NR_OPEN_DEFAULT = 64"
definition NR_OPEN_MAX :: int where "NR_OPEN_MAX = 1024"
definition O_CLOEXEC :: u32 where "O_CLOEXEC = 0x80000"
definition O_ACCMODE :: u32 where "O_ACCMODE = 3"
definition FD_CLOEXEC :: u32 where "FD_CLOEXEC = 1"

lemmas ft_consts = NR_OPEN_DEFAULT_def NR_OPEN_MAX_def O_CLOEXEC_def O_ACCMODE_def FD_CLOEXEC_def

section \<open>Arrays\<close>

definition arr_get :: "'a list \<Rightarrow> int \<Rightarrow> 'a option" where
  "arr_get xs i = (if 0 \<le> i \<and> i < int (length xs) then Some (xs ! nat i) else None)"

definition arr_set :: "'a list \<Rightarrow> int \<Rightarrow> 'a \<Rightarrow> 'a list option" where
  "arr_set xs i v = (if 0 \<le> i \<and> i < int (length xs) then Some (xs[nat i := v]) else None)"

fun copy_loop :: "'a list \<Rightarrow> 'a list \<Rightarrow> int \<Rightarrow> nat \<Rightarrow> 'a list option" where
  "copy_loop dst src i 0 = Some dst"
| "copy_loop dst src i (Suc n) =
     Option.bind (arr_get src i) (\<lambda>v. Option.bind (arr_set dst i v) (\<lambda>dst'. copy_loop dst' src (i + 1) n))"

definition fd_bit :: "int \<Rightarrow> u32" where
  "fd_bit fd = push_bit (nat (fd mod 32)) 1"

definition set_fd_bit :: "u32 list \<Rightarrow> int \<Rightarrow> u32 list option" where
  "set_fd_bit ws fd = Option.bind (arr_get ws (fd div 32)) (\<lambda>w. arr_set ws (fd div 32) (w OR fd_bit fd))"

definition clear_fd_bit :: "u32 list \<Rightarrow> int \<Rightarrow> u32 list option" where
  "clear_fd_bit ws fd = Option.bind (arr_get ws (fd div 32)) (\<lambda>w. arr_set ws (fd div 32) (w AND NOT (fd_bit fd)))"

text \<open>The comparison of an \<^verbatim>\<open>int\<close> with the unsigned size of the table.\<close>

definition below :: "int \<Rightarrow> fdtable \<Rightarrow> bool" where
  "below fd t \<longleftrightarrow> (word_of_int fd :: u32) < max_fds t"

definition bit_words :: "u32 \<Rightarrow> nat" where
  "bit_words n = unat ((n + 31) div 32)"

section \<open>Tables\<close>

definition files_alloc :: "bool \<Rightarrow> files_struct option" where
  "files_alloc alloc =
     (if alloc then
        Some \<lparr>fs_count = 1,
          fdt = \<lparr>max_fds = of_nat NR_OPEN_DEFAULT, fds = replicate NR_OPEN_DEFAULT None,
                 close_on_exec = [0], open_fds = [0]\<rparr>,
          embedded = True, next_fd = 0\<rparr>
      else None)"

fun close_loop :: "nat option list \<Rightarrow> int \<Rightarrow> nat \<Rightarrow> nat list option" where
  "close_loop fs i 0 = Some []"
| "close_loop fs i (Suc n) =
     Option.bind (arr_get fs i) (\<lambda>f.
     Option.bind (close_loop fs (i + 1) n) (\<lambda>cs.
       Some (case f of None \<Rightarrow> cs | Some x \<Rightarrow> x # cs)))"

text \<open>The table that is left, if any, and the files closed.\<close>

definition files_free :: "files_struct option \<Rightarrow> (files_struct option \<times> nat list) option" where
  "files_free files =
     (case files of
        None \<Rightarrow> Some (None, [])
      | Some fs \<Rightarrow>
          let fs1 = fs\<lparr>fs_count := fs_count fs - 1\<rparr>
          in if fs_count fs1 > 0 then Some (Some fs1, [])
             else Option.bind (close_loop (fds (fdt fs1)) 0 (unat (max_fds (fdt fs1)))) (\<lambda>cs. Some (None, cs)))"

fun clone_loop :: "nat option list \<Rightarrow> nat option list \<Rightarrow> int \<Rightarrow> nat \<Rightarrow> nat option list option" where
  "clone_loop new old i 0 = Some new"
| "clone_loop new old i (Suc n) =
     Option.bind (arr_get old i) (\<lambda>f.
       case f of
         None \<Rightarrow> clone_loop new old (i + 1) n
       | Some x \<Rightarrow> Option.bind (arr_set new i (Some x)) (\<lambda>new'. clone_loop new' old (i + 1) n))"

text \<open>The inner option is the pointer returned.\<close>

definition files_clone :: "bool \<Rightarrow> files_struct option \<Rightarrow> files_struct option option" where
  "files_clone alloc old_files =
     (case old_files of
        None \<Rightarrow> Some None
      | Some old \<Rightarrow>
          (case files_alloc alloc of
             None \<Rightarrow> Some None
           | Some new \<Rightarrow>
               let ot = fdt old; nt = fdt new
               in Option.bind (clone_loop (fds nt) (fds ot) 0 (unat (max_fds ot))) (\<lambda>f.
                  Option.bind (copy_loop (close_on_exec nt) (close_on_exec ot) 0 (bit_words (max_fds ot))) (\<lambda>ce.
                  Option.bind (copy_loop (open_fds nt) (open_fds ot) 0 (bit_words (max_fds ot))) (\<lambda>op.
                    Some (Some (new\<lparr>fdt := nt\<lparr>fds := f, close_on_exec := ce, open_fds := op\<rparr>,
                      next_fd := next_fd old\<rparr>)))))))"

text \<open>The rounding loop on a 32-bit \<^verbatim>\<open>int\<close>; the shift loses the top bit.\<close>

partial_function (option) round_up :: "u32 \<Rightarrow> int \<Rightarrow> u32 option" where
  "round_up nfds nr = (if sint nfds < nr then round_up (push_bit 1 nfds) nr else Some nfds)"

definition expand_files :: "(nat \<Rightarrow> bool) \<Rightarrow> files_struct option \<Rightarrow> int \<Rightarrow> (files_struct option \<times> int) option" where
  "expand_files alloc files nr =
     (case files of
        None \<Rightarrow> Some (None, -1)
      | Some fs \<Rightarrow>
          let t = fdt fs
          in if (word_of_int nr :: u32) \<le> max_fds t then Some (files, -1)
             else Option.bind (round_up 1 nr) (\<lambda>w.
               let nfds = (if sint w > NR_OPEN_MAX then NR_OPEN_MAX else sint w)
               in if \<not> alloc 0 then Some (files, -1)
                  else if \<not> alloc 1 then Some (files, -1)
                  else if \<not> alloc 2 then Some (files, -1)
                  else if \<not> alloc 3 then Some (files, -1)
                  else
                    Option.bind (copy_loop (replicate (nat nfds) None) (fds t) 0 (unat (max_fds t))) (\<lambda>f.
                    Option.bind (copy_loop (replicate (nat ((nfds + 31) div 32)) 0) (close_on_exec t) 0 (bit_words (max_fds t))) (\<lambda>ce.
                    Option.bind (copy_loop (replicate (nat ((nfds + 31) div 32)) 0) (open_fds t) 0 (bit_words (max_fds t))) (\<lambda>op.
                      Some (Some (fs\<lparr>fdt := \<lparr>max_fds = word_of_int nfds, fds = f, close_on_exec = ce, open_fds = op\<rparr>,
                        embedded := False\<rparr>), 0))))))"

section \<open>Descriptors\<close>

text \<open>The bits of a descriptor that is taken, and the hint for the next one.\<close>

definition mark_fd :: "files_struct \<Rightarrow> int \<Rightarrow> u32 \<Rightarrow> files_struct option" where
  "mark_fd fs fd flags =
     (let t = fdt fs
      in Option.bind (set_fd_bit (open_fds t) fd) (\<lambda>op.
         Option.bind (if flags AND O_CLOEXEC \<noteq> 0 then set_fd_bit (close_on_exec t) fd
                      else clear_fd_bit (close_on_exec t) fd) (\<lambda>ce.
           Some (fs\<lparr>fdt := t\<lparr>open_fds := op, close_on_exec := ce\<rparr>,
             next_fd := (if fd \<ge> next_fd fs then fd + 1 else next_fd fs)\<rparr>))))"

partial_function (option) alloc_scan :: "fdtable \<Rightarrow> int \<Rightarrow> int option" where
  "alloc_scan t fd =
     (if below fd t then
        Option.bind (arr_get (fds t) fd) (\<lambda>f. if f = None then Some fd else alloc_scan t (fd + 1))
      else Some fd)"

definition alloc_fd :: "(nat \<Rightarrow> bool) \<Rightarrow> files_struct option \<Rightarrow> int \<Rightarrow> u32 \<Rightarrow> (files_struct option \<times> int) option" where
  "alloc_fd alloc files start flags =
     (case files of
        None \<Rightarrow> Some (None, -1)
      | Some fs \<Rightarrow>
          Option.bind (alloc_scan (fdt fs) start) (\<lambda>fd.
            if below fd (fdt fs) then
              Option.bind (mark_fd fs fd flags) (\<lambda>fs'. Some (Some fs', fd))
            else
              Option.bind (expand_files alloc files (fd + 1)) (\<lambda>(files1, r).
                if r < 0 then Some (files1, -1)
                else Option.bind files1 (\<lambda>fs1.
                  Option.bind (mark_fd fs1 fd flags) (\<lambda>fs'. Some (Some fs', fd))))))"

definition free_fd :: "files_struct option \<Rightarrow> int \<Rightarrow> (files_struct option \<times> nat list) option" where
  "free_fd files fd =
     (case files of
        None \<Rightarrow> Some (None, [])
      | Some fs \<Rightarrow>
          let t = fdt fs
          in if fd < 0 \<or> \<not> below fd t then Some (files, [])
             else
               Option.bind (arr_get (fds t) fd) (\<lambda>f.
               Option.bind (if f \<noteq> None then arr_set (fds t) fd None else Some (fds t)) (\<lambda>fl.
               Option.bind (clear_fd_bit (open_fds t) fd) (\<lambda>op.
               Option.bind (clear_fd_bit (close_on_exec t) fd) (\<lambda>ce.
                 Some (Some (fs\<lparr>fdt := t\<lparr>fds := fl, open_fds := op, close_on_exec := ce\<rparr>,
                         next_fd := (if fd < next_fd fs then fd else next_fd fs)\<rparr>),
                       case f of None \<Rightarrow> [] | Some x \<Rightarrow> [x]))))))"

definition fget :: "ft_state \<Rightarrow> int \<Rightarrow> nat option option" where
  "fget s fd =
     (case ft_files s of
        None \<Rightarrow> Some None
      | Some fs \<Rightarrow>
          if fd < 0 \<or> \<not> below fd (fdt fs) then Some None
          else arr_get (fds (fdt fs)) fd)"

section \<open>System calls\<close>

definition sys_close :: "ft_state \<Rightarrow> int \<Rightarrow> (ft_state \<times> int) option" where
  "sys_close s fd =
     (case ft_files s of
        None \<Rightarrow> Some (s, -1)
      | Some fs \<Rightarrow>
          if fd < 0 \<or> \<not> below fd (fdt fs) then Some (s, -1)
          else Option.bind (free_fd (Some fs) fd) (\<lambda>(files', cs).
            Some (s\<lparr>ft_files := files', ft_closed := ft_closed s @ cs\<rparr>, 0)))"

text \<open>\<open>vfs_read\<close> and \<open>vfs_write\<close> take the file and return the state they leave and their result.\<close>

definition sys_read :: "(nat \<Rightarrow> ft_state \<Rightarrow> ft_state \<times> int) \<Rightarrow> ft_state \<Rightarrow> int \<Rightarrow> (ft_state \<times> int) option" where
  "sys_read vfs_read s fd =
     Option.bind (fget s fd) (\<lambda>f. Some (case f of None \<Rightarrow> (s, -1) | Some x \<Rightarrow> vfs_read x s))"

definition sys_write :: "(nat \<Rightarrow> ft_state \<Rightarrow> ft_state \<times> int) \<Rightarrow> ft_state \<Rightarrow> int \<Rightarrow> (ft_state \<times> int) option" where
  "sys_write vfs_write s fd =
     Option.bind (fget s fd) (\<lambda>f. Some (case f of None \<Rightarrow> (s, -1) | Some x \<Rightarrow> vfs_write x s))"

text \<open>The position is 64 bits wide and the value returned 32.\<close>

definition sys_lseek :: "ft_state \<Rightarrow> int \<Rightarrow> u32 \<Rightarrow> int \<Rightarrow> (ft_state \<times> int) option" where
  "sys_lseek s fd off whence =
     Option.bind (fget s fd) (\<lambda>f.
       case f of
         None \<Rightarrow> Some (s, -1)
       | Some x \<Rightarrow>
           let fo = ft_file s x;
               target = (if whence = 0 then Some (scast off)
                         else if whence = 1 then Some (fo_pos fo + scast off)
                         else if whence = 2 then Some (fo_size fo + scast off) else None)
           in Some (case target of
                None \<Rightarrow> (s, -1)
              | Some pos \<Rightarrow>
                  if sint pos < 0 then (s, -1)
                  else (s\<lparr>ft_file := (ft_file s)(x := fo\<lparr>fo_pos := pos\<rparr>)\<rparr>, sint (ucast pos :: u32))))"

definition sys_dup :: "(nat \<Rightarrow> bool) \<Rightarrow> ft_state \<Rightarrow> int \<Rightarrow> (ft_state \<times> int) option" where
  "sys_dup alloc s oldfd =
     (case ft_files s of
        None \<Rightarrow> Some (s, -1)
      | Some fs \<Rightarrow>
          if oldfd < 0 \<or> \<not> below oldfd (fdt fs) then Some (s, -1)
          else
            Option.bind (arr_get (fds (fdt fs)) oldfd) (\<lambda>f.
              if f = None then Some (s, -1)
              else
                Option.bind (alloc_fd alloc (Some fs) 0 0) (\<lambda>(files1, newfd).
                  if newfd < 0 then Some (s\<lparr>ft_files := files1\<rparr>, -1)
                  else Option.bind files1 (\<lambda>fs1.
                    Option.bind (arr_set (fds (fdt fs1)) newfd f) (\<lambda>fl.
                      Some (s\<lparr>ft_files := Some (fs1\<lparr>fdt := (fdt fs1)\<lparr>fds := fl\<rparr>\<rparr>)\<rparr>, newfd))))))"

text \<open>The end of \<^verbatim>\<open>sys_dup2\<close>, on a table that is large enough or was expanded.\<close>

definition dup2_install :: "ft_state \<Rightarrow> files_struct \<Rightarrow> nat option \<Rightarrow> int \<Rightarrow> (ft_state \<times> int) option" where
  "dup2_install s fs f newfd =
     Option.bind (arr_get (fds (fdt fs)) newfd) (\<lambda>old.
     Option.bind (if old \<noteq> None then free_fd (Some fs) newfd else Some (Some fs, [])) (\<lambda>(files1, cs).
     Option.bind files1 (\<lambda>fs1.
     Option.bind (arr_set (fds (fdt fs1)) newfd f) (\<lambda>fl.
     Option.bind (set_fd_bit (open_fds (fdt fs1)) newfd) (\<lambda>op.
     Option.bind (clear_fd_bit (close_on_exec (fdt fs1)) newfd) (\<lambda>ce.
       Some (s\<lparr>ft_files := Some (fs1\<lparr>fdt := (fdt fs1)\<lparr>fds := fl, open_fds := op, close_on_exec := ce\<rparr>,
                 next_fd := (if newfd \<ge> next_fd fs1 then newfd + 1 else next_fd fs1)\<rparr>),
               ft_closed := ft_closed s @ cs\<rparr>, newfd)))))))"

text \<open>\<^verbatim>\<open>newfd + 1\<close> is computed in an \<^verbatim>\<open>int\<close>.\<close>

definition int_succ :: "int \<Rightarrow> int" where
  "int_succ n = sint (word_of_int (n + 1) :: u32)"

definition sys_dup2 :: "(nat \<Rightarrow> bool) \<Rightarrow> ft_state \<Rightarrow> int \<Rightarrow> int \<Rightarrow> (ft_state \<times> int) option" where
  "sys_dup2 alloc s oldfd newfd =
     (case ft_files s of
        None \<Rightarrow> Some (s, -1)
      | Some fs \<Rightarrow>
          if oldfd < 0 \<or> \<not> below oldfd (fdt fs) \<or> newfd < 0 then Some (s, -1)
          else
            Option.bind (arr_get (fds (fdt fs)) oldfd) (\<lambda>f.
              if f = None then Some (s, -1)
              else if oldfd = newfd then Some (s, newfd)
              else if \<not> below newfd (fdt fs) then
                Option.bind (expand_files alloc (Some fs) (int_succ newfd)) (\<lambda>(files1, r).
                  if r < 0 then Some (s\<lparr>ft_files := files1\<rparr>, -1)
                  else Option.bind files1 (\<lambda>fs1. dup2_install s fs1 f newfd))
              else dup2_install s fs f newfd))"

definition sys_fcntl :: "(nat \<Rightarrow> bool) \<Rightarrow> ft_state \<Rightarrow> int \<Rightarrow> int \<Rightarrow> u32 \<Rightarrow> (ft_state \<times> int) option" where
  "sys_fcntl alloc s fd cmd arg =
     (case ft_files s of
        None \<Rightarrow> Some (s, -1)
      | Some fs \<Rightarrow>
          if fd < 0 \<or> \<not> below fd (fdt fs) then Some (s, -1)
          else
            Option.bind (arr_get (fds (fdt fs)) fd) (\<lambda>f.
              case f of
                None \<Rightarrow> Some (s, -1)
              | Some x \<Rightarrow>
                  if cmd = 0 then sys_dup2 alloc s fd (sint arg)
                  else if cmd = 1 then
                    Option.bind (arr_get (close_on_exec (fdt fs)) (fd div 32)) (\<lambda>w.
                      Some (s, if w AND fd_bit fd \<noteq> 0 then uint FD_CLOEXEC else 0))
                  else if cmd = 2 then
                    Option.bind (if arg AND FD_CLOEXEC \<noteq> 0 then set_fd_bit (close_on_exec (fdt fs)) fd
                                 else clear_fd_bit (close_on_exec (fdt fs)) fd) (\<lambda>ce.
                      Some (s\<lparr>ft_files := Some (fs\<lparr>fdt := (fdt fs)\<lparr>close_on_exec := ce\<rparr>\<rparr>)\<rparr>, 0))
                  else if cmd = 3 then Some (s, sint (fo_flags (ft_file s x)))
                  else if cmd = 4 then
                    Some (s\<lparr>ft_file := (ft_file s)(x := (ft_file s x)\<lparr>fo_flags :=
                      (fo_flags (ft_file s x) AND NOT O_ACCMODE) OR (arg AND O_ACCMODE)\<rparr>)\<rparr>, 0)
                  else Some (s, -1)))"

end
