(* ===== verification/File_Table_Props.thy ===== *)
theory File_Table_Props
  imports File_Table
begin

text \<open>
  File descriptors: the lemmas and claims. Every table the operations can produce is a \<open>default_table\<close>:
  its bit arrays have one word, so descriptors from 32 on and every expansion are out of range.
\<close>

section \<open>Loops over arrays\<close>

lemma copy_loop_range: "copy_loop dst src i n = Some r \<Longrightarrow> n \<noteq> 0 \<Longrightarrow> 0 \<le> i \<and> i + int n \<le> int (length src)"
proof (induction dst src i n arbitrary: r rule: copy_loop.induct)
  case (2 dst src i n)
  from 2(2) obtain v dst' where v: "arr_get src i = Some v" "arr_set dst i v = Some dst'"
      "copy_loop dst' src (i + 1) n = Some r" by (auto simp: bind_eq_Some_conv)
  have "0 \<le> i \<and> i < int (length src)" using v(1) by (simp add: arr_get_def split: if_splits)
  moreover have "n \<noteq> 0 \<Longrightarrow> i + 1 + int n \<le> int (length src)" using 2(1) [OF v(1,2,3)] by simp
  ultimately show ?case by (cases n) simp_all
qed simp

lemma copy_loop_fault: "length src < n \<Longrightarrow> copy_loop dst src 0 n = None"
  using copy_loop_range [of dst src 0 n] by (cases "copy_loop dst src 0 n") auto

section \<open>Tables that were never expanded\<close>

definition default_table :: "files_struct \<Rightarrow> bool" where
  "default_table fs \<longleftrightarrow> embedded fs \<and> max_fds (fdt fs) = 64 \<and> length (fds (fdt fs)) = 64 \<and>
     length (close_on_exec (fdt fs)) = 1 \<and> length (open_fds (fdt fs)) = 1"

lemma bit_words_64 [simp]: "bit_words 64 = 2"
  by (simp add: bit_words_def unat_div)

lemma below_64:
  "max_fds t = 64 \<Longrightarrow> below (int i) t \<longleftrightarrow> i mod 2 ^ 32 < 64"
  by (simp add: below_def word_less_nat_alt unat_of_nat)

lemma below_default:
  assumes "default_table fs" and "0 \<le> fd" and "fd < 2 ^ 32"
  shows "below fd (fdt fs) \<longleftrightarrow> fd < 64"
proof -
  obtain i where i: "fd = int i" using assms(2) nonneg_int_cases by blast
  with assms(3) have "i < 2 ^ 32" by simp
  then show ?thesis using assms(1) below_64 [of "fdt fs" i] i by (simp add: default_table_def)
qed

lemma files_alloc_default: "files_alloc alloc = Some fs \<Longrightarrow> default_table fs"
  by (auto simp: files_alloc_def default_table_def ft_consts split: if_splits)

lemma expand_default:
  assumes "default_table fs" and "expand_files alloc (Some fs) nr = Some (files', r)"
  shows "files' = Some fs \<and> r = -1"
proof -
  have "copy_loop dst (close_on_exec (fdt fs)) 0 (bit_words (max_fds (fdt fs))) = None" for dst
    using assms(1) copy_loop_fault [of "close_on_exec (fdt fs)" 2 dst] by (simp add: default_table_def)
  then show ?thesis
    using assms(2) by (auto simp: expand_files_def Let_def bind_eq_Some_conv split: if_splits)
qed

lemma clone_loop_default:
  "length new = length old \<Longrightarrow> i + n \<le> length old \<Longrightarrow> \<exists>r. clone_loop new old (int i) n = Some r"
proof (induction n arbitrary: new i)
  case (Suc n)
  have "old ! i = None \<or> (\<exists>x. old ! i = Some x)" by (cases "old ! i") auto
  with Suc.IH [of new "Suc i"] Suc.IH [of "new[i := old ! i]" "Suc i"] Suc.prems show ?case
    by (auto simp: arr_get_def arr_set_def add.commute)
qed simp

section \<open>Taking and giving back a descriptor\<close>

lemma alloc_scan_default:
  assumes "default_table fs" and "i \<le> j" and "j < 64" and "\<And>k. i \<le> k \<Longrightarrow> k < j \<Longrightarrow> fds (fdt fs) ! k \<noteq> None"
    and "fds (fdt fs) ! j = None"
  shows "alloc_scan (fdt fs) (int i) = Some (int j)"
  using assms(2,4)
proof (induction "j - i" arbitrary: i)
  case 0
  then have "i = j" by simp
  moreover have "below (int j) (fdt fs)" using below_default [OF assms(1), of "int j"] assms(3) by simp
  ultimately show ?case
    using assms by (simp add: alloc_scan.simps [of "fdt fs" "int j"] arr_get_def default_table_def)
next
  case (Suc n)
  have "below (int i) (fdt fs)" using below_default [OF assms(1), of "int i"] Suc.hyps(2) Suc.prems(1) assms(3) by simp
  moreover have "alloc_scan (fdt fs) (int (Suc i)) = Some (int j)"
    using Suc.hyps(2) Suc.prems by (intro Suc.hyps(1)) auto
  moreover have "fds (fdt fs) ! i \<noteq> None" using Suc.hyps(2) Suc.prems by auto
  ultimately show ?case
    using assms(1,3) Suc.hyps(2) Suc.prems(1)
    by (auto simp: alloc_scan.simps [of "fdt fs" "int i"] arr_get_def default_table_def add.commute)
qed

lemma set_bit_one: "set_fd_bit [w] (int i) = (if i < 32 then Some [w OR push_bit i 1] else None)"
  by (auto simp: set_fd_bit_def arr_get_def arr_set_def fd_bit_def zdiv_int [symmetric] zmod_int [symmetric])

lemma clear_bit_one: "clear_fd_bit [w] (int i) = (if i < 32 then Some [w AND NOT (push_bit i 1)] else None)"
  by (auto simp: clear_fd_bit_def arr_get_def arr_set_def fd_bit_def zdiv_int [symmetric] zmod_int [symmetric])

lemma default_bits:
  assumes "default_table fs"
  obtains c p where "close_on_exec (fdt fs) = [c]" and "open_fds (fdt fs) = [p]"
  using assms by (auto simp: default_table_def length_Suc_conv)

text \<open>The invariant: the table is a default one, descriptors from 32 on are unused, and the bit of
  every used descriptor is set.\<close>

definition table_inv :: "files_struct \<Rightarrow> bool" where
  "table_inv fs \<longleftrightarrow> default_table fs \<and> (\<forall>i. 32 \<le> i \<and> i < 64 \<longrightarrow> fds (fdt fs) ! i = None) \<and>
     (\<forall>i<32. fds (fdt fs) ! i \<noteq> None \<longrightarrow> bit (open_fds (fdt fs) ! 0) i)"

definition ft_inv :: "ft_state \<Rightarrow> bool" where
  "ft_inv s \<longleftrightarrow> (case ft_files s of None \<Rightarrow> True | Some fs \<Rightarrow> table_inv fs)"

lemma ft_inv_Some: "ft_files s = Some fs \<Longrightarrow> ft_inv s \<longleftrightarrow> table_inv fs"
  by (simp add: ft_inv_def)

lemma fget_default:
  assumes "ft_files s = Some fs" and "default_table fs" and "i < 64"
  shows "fget s (int i) = Some (fds (fdt fs) ! i)"
  using assms below_default [OF assms(2), of "int i"] by (simp add: fget_def arr_get_def default_table_def)

lemma mark_fd_default:
  assumes "default_table fs" and "open_fds (fdt fs) = [p]" and "close_on_exec (fdt fs) = [c]" and "i < 32"
  shows "mark_fd fs (int i) flags = Some (fs\<lparr>fdt := (fdt fs)\<lparr>open_fds := [p OR push_bit i 1],
      close_on_exec := [if flags AND O_CLOEXEC \<noteq> 0 then c OR push_bit i 1 else c AND NOT (push_bit i 1)]\<rparr>,
    next_fd := (if int i \<ge> next_fd fs then int i + 1 else next_fd fs)\<rparr>)"
  using assms by (simp add: mark_fd_def Let_def set_bit_one clear_bit_one)

lemma mark_fd_high:
  assumes "default_table fs" and "32 \<le> i"
  shows "mark_fd fs (int i) flags = None"
  using assms by (auto elim!: default_bits simp: mark_fd_def Let_def set_bit_one)

text \<open>Putting a file at a free descriptor below 32 and setting its bit keeps the invariant.\<close>

lemma table_inv_install:
  assumes "table_inv fs" and "open_fds (fdt fs) = [p]" and "i < 32" and "length ce = 1"
  shows "table_inv (fs\<lparr>fdt := (fdt fs)\<lparr>fds := (fds (fdt fs))[i := f], open_fds := [p OR push_bit i 1], close_on_exec := ce\<rparr>,
    next_fd := n\<rparr>)"
  using assms by (auto simp: table_inv_def default_table_def nth_list_update bit_or_iff bit_exp_iff possible_bit_word)

lemma table_inv_remove:
  assumes "table_inv fs" and "open_fds (fdt fs) = [p]" and "i < 32" and "length ce = 1"
  shows "table_inv (fs\<lparr>fdt := (fdt fs)\<lparr>fds := (fds (fdt fs))[i := None], open_fds := [p AND NOT (push_bit i 1)],
    close_on_exec := ce\<rparr>, next_fd := n\<rparr>)"
  using assms by (auto simp: table_inv_def default_table_def nth_list_update bit_and_iff bit_not_iff bit_exp_iff possible_bit_word)

text \<open>The table with descriptor \<open>i\<close> given back.\<close>

definition freed :: "files_struct \<Rightarrow> nat \<Rightarrow> files_struct" where
  "freed fs i = fs\<lparr>fdt := (fdt fs)\<lparr>fds := (fds (fdt fs))[i := None],
      open_fds := [hd (open_fds (fdt fs)) AND NOT (push_bit i 1)],
      close_on_exec := [hd (close_on_exec (fdt fs)) AND NOT (push_bit i 1)]\<rparr>,
    next_fd := (if int i < next_fd fs then int i else next_fd fs)\<rparr>"

lemma freed_inv: "table_inv fs \<Longrightarrow> i < 32 \<Longrightarrow> table_inv (freed fs i)"
  unfolding freed_def
  by (rule table_inv_remove) (auto simp: table_inv_def elim!: default_bits)

lemma free_fd_default:
  assumes "default_table fs" and "i < 32"
  shows "free_fd (Some fs) (int i) =
    Some (Some (freed fs i), case fds (fdt fs) ! i of None \<Rightarrow> [] | Some x \<Rightarrow> [x])"
proof -
  obtain c p where cp: "close_on_exec (fdt fs) = [c]" "open_fds (fdt fs) = [p]" using assms(1) by (rule default_bits)
  have "below (int i) (fdt fs)" using below_default [OF assms(1), of "int i"] assms(2) by simp
  moreover have "(fds (fdt fs))[i := None] = fds (fdt fs)" if "fds (fdt fs) ! i = None"
    using that by (metis list_update_id)
  ultimately show ?thesis
    using assms cp
    by (auto simp: free_fd_def Let_def arr_get_def arr_set_def clear_bit_one default_table_def freed_def)
qed

lemma sys_close_default:
  assumes "ft_files s = Some fs" and "default_table fs" and "i < 32"
  shows "sys_close s (int i) = Some (s\<lparr>ft_files := Some (freed fs i),
      ft_closed := ft_closed s @ (case fds (fdt fs) ! i of None \<Rightarrow> [] | Some x \<Rightarrow> [x])\<rparr>, 0)"
  using assms below_default [OF assms(2), of "int i"] by (simp add: sys_close_def free_fd_default)

text \<open>The table with file \<open>f\<close> put at descriptor \<open>i\<close>.\<close>

definition installed :: "files_struct \<Rightarrow> nat \<Rightarrow> nat option \<Rightarrow> files_struct" where
  "installed fs i f = fs\<lparr>fdt := (fdt fs)\<lparr>fds := (fds (fdt fs))[i := f],
      open_fds := [hd (open_fds (fdt fs)) OR push_bit i 1],
      close_on_exec := [hd (close_on_exec (fdt fs)) AND NOT (push_bit i 1)]\<rparr>,
    next_fd := (if int i \<ge> next_fd fs then int i + 1 else next_fd fs)\<rparr>"

lemma installed_inv: "table_inv fs \<Longrightarrow> i < 32 \<Longrightarrow> table_inv (installed fs i f)"
  unfolding installed_def
  by (rule table_inv_install) (auto simp: table_inv_def elim!: default_bits)

lemma installed_fds [simp]: "fds (fdt (installed fs i f)) = (fds (fdt fs))[i := f]"
  and freed_fds [simp]: "fds (fdt (freed fs i)) = (fds (fdt fs))[i := None]"
  by (simp_all add: installed_def freed_def)

lemma sys_dup_default:
  assumes s: "ft_files s = Some fs" and inv: "default_table fs" and old: "old < 64" "fds (fdt fs) ! old = Some x"
    and free: "i < 64" "fds (fdt fs) ! i = None" "\<And>k. k < i \<Longrightarrow> fds (fdt fs) ! k \<noteq> None"
  shows "sys_dup alloc s (int old) =
    (if i < 32 then Some (s\<lparr>ft_files := Some (installed fs i (Some x))\<rparr>, int i) else None)"
proof -
  obtain c p where cp: "close_on_exec (fdt fs) = [c]" "open_fds (fdt fs) = [p]" using inv by (rule default_bits)
  have b: "below (int old) (fdt fs)" "below (int i) (fdt fs)"
    using below_default [OF inv, of "int old"] below_default [OF inv, of "int i"] old(1) free(1) by simp_all
  have scan: "alloc_scan (fdt fs) 0 = Some (int i)"
    using alloc_scan_default [OF inv, of 0 i] free by simp
  show ?thesis
  proof (cases "i < 32")
    case True
    from mark_fd_default [OF inv cp(2,1) True, of 0]
    show ?thesis using s old b scan True inv cp
      by (simp add: sys_dup_def alloc_fd_def arr_get_def arr_set_def default_table_def installed_def)
  next
    case False
    with mark_fd_high [OF inv, of i 0] s old b scan inv show ?thesis
      by (simp add: sys_dup_def alloc_fd_def arr_get_def default_table_def)
  qed
qed

lemma install_steps:
  assumes "default_table t" and "i < 32"
  shows "arr_set (fds (fdt t)) (int i) f = Some ((fds (fdt t))[i := f])"
    and "set_fd_bit (open_fds (fdt t)) (int i) = Some [hd (open_fds (fdt t)) OR push_bit i 1]"
    and "clear_fd_bit (close_on_exec (fdt t)) (int i) = Some [hd (close_on_exec (fdt t)) AND NOT (push_bit i 1)]"
proof -
  show "arr_set (fds (fdt t)) (int i) f = Some ((fds (fdt t))[i := f])"
    using assms by (simp add: arr_set_def default_table_def)
  show "set_fd_bit (open_fds (fdt t)) (int i) = Some [hd (open_fds (fdt t)) OR push_bit i 1]"
    "clear_fd_bit (close_on_exec (fdt t)) (int i) = Some [hd (close_on_exec (fdt t)) AND NOT (push_bit i 1)]"
    using assms by (auto elim!: default_bits simp: set_bit_one clear_bit_one)
qed

lemma dup2_install_default:
  assumes "table_inv fs" and "i < 32"
  shows "dup2_install s fs f (int i) =
    Some (s\<lparr>ft_files := Some (installed (if fds (fdt fs) ! i = None then fs else freed fs i) i f),
      ft_closed := ft_closed s @ (case fds (fdt fs) ! i of None \<Rightarrow> [] | Some x \<Rightarrow> [x])\<rparr>, int i)"
proof -
  have dt: "default_table fs" using assms(1) by (simp add: table_inv_def)
  have dt': "default_table (freed fs i)" using freed_inv [OF assms] by (simp add: table_inv_def)
  have get: "arr_get (fds (fdt fs)) (int i) = Some (fds (fdt fs) ! i)"
    using dt assms(2) by (simp add: arr_get_def default_table_def)
  show ?thesis
  proof (cases "fds (fdt fs) ! i")
    case None
    with get install_steps [OF dt assms(2)] show ?thesis by (simp add: dup2_install_def installed_def)
  next
    case (Some x)
    with get install_steps [OF dt' assms(2)] free_fd_default [OF dt assms(2)] show ?thesis
      by (simp add: dup2_install_def installed_def)
  qed
qed

lemma sys_dup2_default:
  assumes s: "ft_files s = Some fs" and inv: "table_inv fs" and old: "old < 64" "fds (fdt fs) ! old = Some x"
    and new: "new < 32" "new \<noteq> old"
  shows "sys_dup2 alloc s (int old) (int new) =
    Some (s\<lparr>ft_files := Some (installed (if fds (fdt fs) ! new = None then fs else freed fs new) new (Some x)),
      ft_closed := ft_closed s @ (case fds (fdt fs) ! new of None \<Rightarrow> [] | Some y \<Rightarrow> [y])\<rparr>, int new)"
proof -
  have dt: "default_table fs" using inv by (simp add: table_inv_def)
  have "below (int old) (fdt fs)" "below (int new) (fdt fs)"
    using below_default [OF dt, of "int old"] below_default [OF dt, of "int new"] old(1) new(1) by simp_all
  then show ?thesis
    using s old new dt dup2_install_default [OF inv new(1), of s "Some x"]
    by (simp add: sys_dup2_def arr_get_def default_table_def)
qed

lemma dup2_high_faults:
  assumes s: "ft_files s = Some fs" and dt: "default_table fs" and old: "old < 32" "fds (fdt fs) ! old = Some x"
    and k: "32 \<le> k" "k < 64"
  shows "sys_dup2 alloc s (int old) (int k) = None"
proof -
  have len: "length (fds (fdt fs)) = 64" "length (open_fds (fdt fs)) = 1" using dt by (simp_all add: default_table_def)
  have "int k div 32 = 1" using k by simp
  then have bits: "set_fd_bit (open_fds (fdt fs)) (int k) = None" "clear_fd_bit (open_fds (fdt fs)) (int k) = None"
    using len(2) by (simp_all add: set_fd_bit_def clear_fd_bit_def arr_get_def)
  have low: "below (int old) (fdt fs)" "below (int k) (fdt fs)"
    using below_default [OF dt, of "int old"] below_default [OF dt, of "int k"] old(1) k by simp_all
  have "dup2_install s fs (Some x) (int k) = None"
    using bits low(2) by (cases "arr_get (fds (fdt fs)) (int k)") (auto simp: dup2_install_def free_fd_def Let_def bind_eq_None_conv)
  then show ?thesis
    using s old k len(1) low by (simp add: sys_dup2_def arr_get_def)
qed

section \<open>The rounding loop\<close>

lemma round_up_step:
  assumes "k < 31"
  shows "sint (2 ^ k :: u32) = 2 ^ k" and "push_bit 1 (2 ^ k :: u32) = 2 ^ Suc k"
proof -
  have "(2 :: int) ^ k < 2 ^ 31" by (rule power_strict_increasing) (use assms in simp_all)
  then have "signed_take_bit 31 (2 ^ k :: int) = 2 ^ k" by (intro signed_take_bit_int_eq_self) (auto intro: order_trans [of _ 0])
  moreover have "uint (2 ^ k :: u32) = 2 ^ k" using assms by (intro uint_2p) (simp add: word_less_nat_alt unat_eq_0 exp_eq_zero_iff flip: neq0_conv)
  ultimately show "sint (2 ^ k :: u32) = 2 ^ k" by (simp add: sint_uint)
  show "push_bit 1 (2 ^ k :: u32) = 2 ^ Suc k" by (simp add: push_bit_eq_mult)
qed

lemma round_up_power:
  assumes "k \<le> 30" and "nr \<le> 2 ^ 30" and "k = 0 \<or> 2 ^ (k - 1) < nr"
  shows "\<exists>j\<le>30. round_up (2 ^ k) nr = Some (2 ^ j) \<and> nr \<le> 2 ^ j \<and> (j = 0 \<or> 2 ^ (j - 1) < nr)"
  using assms
proof (induction "30 - k" arbitrary: k)
  case 0
  then have "k = 30" by simp
  then show ?case using 0 round_up_step [of 30] by (intro exI [of _ 30]) (simp add: round_up.simps [of _ nr])
next
  case (Suc n)
  show ?case
  proof (cases "2 ^ k < nr")
    case True
    then show ?thesis
      using Suc.hyps(1) [of "Suc k"] Suc.hyps(2) Suc.prems round_up_step [of k]
      by (simp add: round_up.simps [of "2 ^ k" nr] mult.commute [of _ 2])
  next
    case False
    then show ?thesis
      using Suc.prems Suc.hyps(2) round_up_step [of k] by (intro exI [of _ k]) (simp add: round_up.simps [of "2 ^ k" nr])
  qed
qed

lemma sint_power_bound: "sint (2 ^ k :: u32) \<le> 2 ^ 30"
proof -
  consider "k < 31" | "k = 31" | "32 \<le> k" by linarith
  then show ?thesis
  proof cases
    case 1
    then have "(2 :: int) ^ k \<le> 2 ^ 30" by (intro power_increasing) auto
    with 1 round_up_step(1) [of k] show ?thesis by simp
  next
    case 2
    then show ?thesis by simp
  next
    case 3
    then have zero: "(2 :: u32) ^ k = 0" by (simp add: exp_eq_zero_iff)
    show ?thesis unfolding zero by simp
  qed
qed

lemma round_up_diverges:
  assumes "2 ^ 30 < nr"
  shows "round_up (2 ^ k) nr = None"
proof -
  have "2 ^ 30 < nr \<longrightarrow> (\<forall>k. w \<noteq> 2 ^ k)" if "round_up w nr = Some r" for w r
  proof (rule round_up.raw_induct [of "\<lambda>w nr r. 2 ^ 30 < nr \<longrightarrow> (\<forall>k. w \<noteq> 2 ^ k)", OF _ that])
    fix loop :: "u32 \<Rightarrow> int \<Rightarrow> u32 option" and w nr r
    assume IH: "\<And>w nr r. loop w nr = Some r \<Longrightarrow> 2 ^ 30 < nr \<longrightarrow> (\<forall>k. w \<noteq> 2 ^ k)"
      and body: "(if sint w < nr then loop (push_bit 1 w) nr else Some w) = Some r"
    show "2 ^ 30 < nr \<longrightarrow> (\<forall>k. w \<noteq> 2 ^ k)"
    proof (intro impI allI notI)
      fix k
      assume nr: "2 ^ 30 < nr" and w: "w = 2 ^ k"
      with sint_power_bound [of k] have "sint w < nr" by simp
      with body have "loop (push_bit 1 w) nr = Some r" by simp
      from IH [OF this] nr have "push_bit 1 w \<noteq> 2 ^ Suc k" by blast
      then show False using w by (simp add: push_bit_eq_mult)
    qed
  qed
  with assms show ?thesis by (cases "round_up (2 ^ k) nr") auto
qed

section \<open>Claims\<close>

definition sample_files :: files_struct where
  "sample_files = installed (the (files_alloc True)) 0 (Some 5)"

definition sample_ft :: ft_state where
  "sample_ft = \<lparr>ft_files = Some sample_files, ft_file = (\<lambda>_. \<lparr>fo_flags = 0, fo_pos = 0, fo_size = 0\<rparr>), ft_closed = []\<rparr>"

lemma sample_files_inv: "table_inv sample_files"
  unfolding sample_files_def
  by (rule installed_inv) (auto simp: table_inv_def default_table_def files_alloc_def ft_consts)

lemma sample_files_fds [simp]: "fds (fdt sample_files) = Some 5 # replicate 63 None"
  by (simp add: sample_files_def files_alloc_def ft_consts numeral_eq_Suc)

text \<open>
  C34. Duplicating an open descriptor returns the lowest descriptor not in use and makes it refer to
  the same file, with no other descriptor, no close and the invariant changed; but only below 32: with
  the first 32 descriptors in use it is a fault, since the bit arrays have one word for 64 descriptors.
\<close>

theorem dup_returns_lowest:
  assumes "ft_inv s" and "ft_files s = Some fs" and "old < 64" and "fds (fdt fs) ! old = Some x"
  shows "(\<forall>i<32. fds (fdt fs) ! i = None \<and> (\<forall>k<i. fds (fdt fs) ! k \<noteq> None) \<longrightarrow>
      (\<exists>s'. sys_dup alloc s (int old) = Some (s', int i) \<and> ft_inv s' \<and> fget s' (int i) = Some (Some x) \<and>
        (\<forall>j<64. j \<noteq> i \<longrightarrow> fget s' (int j) = fget s (int j)) \<and> ft_closed s' = ft_closed s)) \<and>
    ((\<forall>i<32. fds (fdt fs) ! i \<noteq> None) \<longrightarrow> sys_dup alloc s (int old) = None)"
proof (intro conjI allI impI)
  have inv: "table_inv fs" using assms(1,2) by (simp add: ft_inv_def)
  then have dt: "default_table fs" by (simp add: table_inv_def)
  fix i :: nat
  assume i: "i < 32" and free: "fds (fdt fs) ! i = None \<and> (\<forall>k<i. fds (fdt fs) ! k \<noteq> None)"
  let ?s = "s\<lparr>ft_files := Some (installed fs i (Some x))\<rparr>"
  have "sys_dup alloc s (int old) = Some (?s, int i)"
    using sys_dup_default [OF assms(2) dt assms(3,4), of i alloc] i free by simp
  moreover have inv': "table_inv (installed fs i (Some x))" by (rule installed_inv [OF inv i])
  moreover have "fget ?s (int j) = Some ((fds (fdt fs))[i := Some x] ! j)" if "j < 64" for j
    using fget_default [of ?s "installed fs i (Some x)" j] inv' that by (simp add: table_inv_def)
  ultimately show "\<exists>s'. sys_dup alloc s (int old) = Some (s', int i) \<and> ft_inv s' \<and> fget s' (int i) = Some (Some x) \<and>
        (\<forall>j<64. j \<noteq> i \<longrightarrow> fget s' (int j) = fget s (int j)) \<and> ft_closed s' = ft_closed s"
    using i fget_default [OF assms(2) dt] dt
    by (intro exI [of _ ?s]) (simp add: ft_inv_def default_table_def)
next
  have inv: "table_inv fs" using assms(1,2) by (simp add: ft_inv_def)
  then have dt: "default_table fs" by (simp add: table_inv_def)
  assume "\<forall>i<32. fds (fdt fs) ! i \<noteq> None"
  moreover have "fds (fdt fs) ! 32 = None" using inv by (simp add: table_inv_def)
  ultimately show "sys_dup alloc s (int old) = None"
    using sys_dup_default [OF assms(2) dt assms(3,4), of 32 alloc] by simp
qed

theorem dup_returns_lowest_witness:
  "\<exists>s'. sys_dup (\<lambda>_. True) sample_ft 0 = Some (s', 1) \<and> fget s' 1 = Some (Some 5)"
  using dup_returns_lowest [of sample_ft sample_files 0 5 "\<lambda>_. True"] sample_files_inv
  by (auto simp: sample_ft_def ft_inv_def dest!: spec [of _ 1])

text \<open>
  C35. \<^verbatim>\<open>dup2\<close> to a descriptor below 32 makes it refer to the file of the old one and closes exactly the
  file that was there; but a duplicated file has no reference count, so closing the two descriptors
  closes the same file twice. \<^verbatim>\<open>dup2\<close> to the same descriptor changes nothing, and to a descriptor from 32 to 63
  it is a fault, since the arrays of bits have one word.
\<close>

theorem dup2_then_close_twice:
  assumes "ft_inv s" and "ft_files s = Some fs" and "old < 32" and "fds (fdt fs) ! old = Some x"
    and "new < 32" and "new \<noteq> old"
  shows "(\<exists>s1 s2 s3. sys_dup2 alloc s (int old) (int new) = Some (s1, int new) \<and> ft_inv s1 \<and>
    fget s1 (int new) = Some (Some x) \<and> fget s1 (int old) = Some (Some x) \<and>
    (\<forall>j<64. j \<noteq> new \<longrightarrow> fget s1 (int j) = fget s (int j)) \<and>
    ft_closed s1 = ft_closed s @ (case fds (fdt fs) ! new of None \<Rightarrow> [] | Some y \<Rightarrow> [y]) \<and>
    sys_close s1 (int new) = Some (s2, 0) \<and> sys_close s2 (int old) = Some (s3, 0) \<and>
    ft_closed s3 = ft_closed s1 @ [x, x] \<and> ft_inv s3) \<and>
    sys_dup2 alloc s (int old) (int old) = Some (s, int old) \<and>
    (\<forall>k. 32 \<le> k \<and> k < 64 \<longrightarrow> sys_dup2 alloc s (int old) (int k) = None)"
proof -
  have inv: "table_inv fs" using assms(1,2) by (simp add: ft_inv_def)
  then have dt: "default_table fs" by (simp add: table_inv_def)
  define t where "t = installed (if fds (fdt fs) ! new = None then fs else freed fs new) new (Some x)"
  have t: "table_inv t" unfolding t_def
    using inv freed_inv [OF inv assms(5)] by (intro installed_inv [OF _ assms(5)]) simp
  then have dt_t: "default_table t" by (simp add: table_inv_def)
  have t_fds: "fds (fdt t) = (fds (fdt fs))[new := Some x]" by (simp add: t_def)
  let ?s1 = "s\<lparr>ft_files := Some t, ft_closed := ft_closed s @ (case fds (fdt fs) ! new of None \<Rightarrow> [] | Some y \<Rightarrow> [y])\<rparr>"
  let ?s2 = "?s1\<lparr>ft_files := Some (freed t new), ft_closed := ft_closed ?s1 @ [x]\<rparr>"
  let ?s3 = "?s2\<lparr>ft_files := Some (freed (freed t new) old), ft_closed := ft_closed ?s2 @ [x]\<rparr>"
  have len: "length (fds (fdt fs)) = 64" using dt by (simp add: default_table_def)
  have i2: "table_inv (freed t new)" by (rule freed_inv [OF t assms(5)])
  have "sys_dup2 alloc s (int old) (int new) = Some (?s1, int new)"
    using sys_dup2_default [OF assms(2) inv _ assms(4,5,6), of alloc] assms(3) by (simp add: t_def)
  moreover have "sys_close ?s1 (int new) = Some (?s2, 0)"
    using sys_close_default [of ?s1 t new] dt_t assms(5) t_fds len by simp
  moreover have "sys_close ?s2 (int old) = Some (?s3, 0)"
    using sys_close_default [of ?s2 "freed t new" old] i2 assms(3,4,6) t_fds by (simp add: table_inv_def)
  moreover have "table_inv (freed (freed t new) old)" by (rule freed_inv [OF i2 assms(3)])
  moreover have "fget ?s1 (int j) = Some ((fds (fdt fs))[new := Some x] ! j)" if "j < 64" for j
    using fget_default [of ?s1 t j] dt_t that t_fds by simp
  moreover have "sys_dup2 alloc s (int old) (int old) = Some (s, int old)"
    using assms(2-4) below_default [OF dt, of "int old"] len by (simp add: sys_dup2_def arr_get_def)
  ultimately show ?thesis
    using t fget_default [OF assms(2) dt] len assms(3-6) dup2_high_faults [OF assms(2) dt _ assms(4)]
    by (intro conjI exI [of _ ?s1] exI [of _ ?s2] exI [of _ ?s3]) (simp_all add: ft_inv_def)
qed

theorem dup2_then_close_twice_witness:
  "\<exists>s1 s2 s3. sys_dup2 (\<lambda>_. True) sample_ft 0 7 = Some (s1, 7) \<and> sys_close s1 7 = Some (s2, 0) \<and>
     sys_close s2 0 = Some (s3, 0) \<and> ft_closed s3 = [5, 5]"
  using dup2_then_close_twice [of sample_ft sample_files 0 5 7 "\<lambda>_. True"] sample_files_inv
  by (auto simp: sample_ft_def ft_inv_def)

text \<open>
  A table can be neither copied nor enlarged: on every table in the invariant \<^verbatim>\<open>files_clone\<close>
  reads and writes outside the bit arrays, and \<^verbatim>\<open>expand_files\<close> fails or does the same. So no table ever
  leaves the one built by \<^verbatim>\<open>files_alloc\<close>, and \<^verbatim>\<open>dup2\<close> to a descriptor from 64 on never succeeds.
\<close>

theorem table_never_grows:
  assumes "ft_inv s" and "ft_files s = Some fs"
  shows "files_clone True (Some fs) = None \<and>
    (expand_files alloc (Some fs) nr = Some (files', r) \<longrightarrow> files' = Some fs \<and> r = -1) \<and>
    (64 \<le> new \<and> new < 2 ^ 31 \<and> 0 \<le> old \<and> old < 64 \<and> new \<noteq> old \<and> sys_dup2 alloc s old new = Some (s', r') \<longrightarrow>
      s' = s \<and> r' = -1)"
proof (intro conjI impI)
  have dt: "default_table fs" using assms by (simp add: ft_inv_def table_inv_def)
  have "copy_loop dst (close_on_exec (fdt fs)) 0 (bit_words (max_fds (fdt fs))) = None" for dst
    using dt copy_loop_fault [of "close_on_exec (fdt fs)" 2 dst] by (simp add: default_table_def)
  then show "files_clone True (Some fs) = None"
    by (auto simp: files_clone_def files_alloc_def Let_def bind_eq_None_conv)
  show "files' = Some fs" "r = -1" if "expand_files alloc (Some fs) nr = Some (files', r)"
    using expand_default [OF dt that] by simp_all
  assume a: "64 \<le> new \<and> new < 2 ^ 31 \<and> 0 \<le> old \<and> old < 64 \<and> new \<noteq> old \<and> sys_dup2 alloc s old new = Some (s', r')"
  have below: "\<not> below new (fdt fs)" using below_default [OF dt, of new] a by simp
  have s: "s\<lparr>ft_files := Some fs\<rparr> = s" using assms(2) by simp
  show "s' = s" "r' = -1"
    using a below assms(2) expand_default [OF dt, of alloc "int_succ new"] s
    by (auto simp: sys_dup2_def bind_eq_Some_conv split: if_splits)
qed

theorem table_never_grows_witness:
  "files_clone True (Some sample_files) = None"
  using table_never_grows [of sample_ft sample_files] sample_files_inv
  by (simp add: sample_ft_def ft_inv_def)

text \<open>
  The loop that rounds a number of descriptors up to a power of two returns the least power of two
  not below it when the number is at most \<open>2 ^ 30\<close>, and does not end for any larger one.
\<close>

theorem round_up_terminates:
  "(nr \<le> 2 ^ 30 \<longrightarrow> (\<exists>j\<le>30. round_up 1 nr = Some (2 ^ j) \<and> nr \<le> 2 ^ j \<and> (\<forall>i<j. 2 ^ i < nr))) \<and>
   (2 ^ 30 < nr \<longrightarrow> round_up 1 nr = None)"
proof (intro conjI impI)
  assume "nr \<le> 2 ^ 30"
  from round_up_power [of 0 nr, OF _ this] obtain j where
    j: "j \<le> 30" "round_up 1 nr = Some (2 ^ j)" "nr \<le> 2 ^ j" "j = 0 \<or> 2 ^ (j - 1) < nr" by auto
  have "2 ^ i < nr" if "i < j" for i
  proof -
    have "(2 :: int) ^ i \<le> 2 ^ (j - 1)" using that by (intro power_increasing) auto
    moreover have "2 ^ (j - 1) < nr" using j(4) that by auto
    ultimately show ?thesis by (rule order.strict_trans1)
  qed
  with j(1-3) show "\<exists>j\<le>30. round_up 1 nr = Some (2 ^ j) \<and> nr \<le> 2 ^ j \<and> (\<forall>i<j. 2 ^ i < nr)" by blast
next
  assume "2 ^ 30 < nr"
  from round_up_diverges [OF this, of 0] show "round_up 1 nr = None" by simp
qed

theorem round_up_terminates_witness:
  "(\<exists>j\<le>30. round_up 1 100 = Some (2 ^ j) \<and> (100 :: int) \<le> 2 ^ j) \<and> round_up 1 (2 ^ 30 + 1) = None"
  using round_up_terminates [of 100] round_up_terminates [of "2 ^ 30 + 1"] by auto

end
