(* ===== verification/Rwlock.thy ===== *)
theory Rwlock
  imports Horizon_Prelude
begin

text \<open>
  Read-write locks, \<^verbatim>\<open>kernel/rwlock.c\<close> and \<^verbatim>\<open>include/horizon/rwlock.h\<close>. The inner spin lock makes each
  stretch between \<^verbatim>\<open>spin_lock\<close> and \<^verbatim>\<open>spin_unlock\<close> one step; a lock function that finds the lock taken
  leaves that step to spin, which is the result \<^const>\<open>None\<close>. The header switches the debugging variants
  on (\<^verbatim>\<open>__read_lock\<close> and so on, here \<open>dbg_read_lock\<close>); the plain ones are modelled beside them. The
  threads that use a lock are a step relation over all interleavings. The number of readers is a C
  \<^verbatim>\<open>int\<close>: a 32-bit word that wraps around and is read with its sign. It counts threads, so the claims
  are about fewer than \<open>2 ^ 31\<close> of them.
\<close>

section \<open>Locks\<close>

record rwlock =
  rw_readers :: u32
  rw_writer :: int
  rw_file :: string
  rw_line :: int
  rw_owner :: u32
  rw_owner_pc :: u32
  rw_held_count :: u32
  rw_contention_count :: u32

text \<open>Where a lock is taken: the file, the line and the return address.\<close>

record rw_site =
  site_file :: string
  site_line :: int
  site_pc :: u32

definition rwlock_init :: rwlock where
  "rwlock_init = \<lparr>rw_readers = 0, rw_writer = 0, rw_file = [], rw_line = 0, rw_owner = 0,
     rw_owner_pc = 0, rw_held_count = 0, rw_contention_count = 0\<rparr>"

definition debug_held :: "rw_site \<Rightarrow> rwlock \<Rightarrow> rwlock" where
  "debug_held site l = l\<lparr>rw_file := site_file site, rw_line := site_line site, rw_owner := 0,
     rw_owner_pc := site_pc site, rw_held_count := rw_held_count l + 1\<rparr>"

definition debug_contended :: "bool \<Rightarrow> rwlock \<Rightarrow> rwlock" where
  "debug_contended contended l =
     (if contended then l\<lparr>rw_contention_count := rw_contention_count l + 1\<rparr> else l)"

definition dbg_read_lock :: "rw_site \<Rightarrow> bool \<Rightarrow> rwlock \<Rightarrow> rwlock option" where
  "dbg_read_lock site contended l =
     (if rw_writer l \<noteq> 0 then None
      else Some (debug_contended contended (debug_held site (l\<lparr>rw_readers := rw_readers l + 1\<rparr>))))"

definition read_lock :: "rwlock \<Rightarrow> rwlock option" where
  "read_lock l = (if rw_writer l \<noteq> 0 then None else Some (l\<lparr>rw_readers := rw_readers l + 1\<rparr>))"

definition dbg_read_trylock :: "rw_site \<Rightarrow> rwlock \<Rightarrow> rwlock \<times> int" where
  "dbg_read_trylock site l =
     (if rw_writer l = 0 then (debug_held site (l\<lparr>rw_readers := rw_readers l + 1\<rparr>), 1) else (l, 0))"

definition read_trylock :: "rwlock \<Rightarrow> rwlock \<times> int" where
  "read_trylock l = (if rw_writer l = 0 then (l\<lparr>rw_readers := rw_readers l + 1\<rparr>, 1) else (l, 0))"

text \<open>The unlock functions with debugging also return whether they printed their warning.\<close>

definition dbg_read_unlock :: "rwlock \<Rightarrow> rwlock \<times> bool" where
  "dbg_read_unlock l =
     (if rw_readers l = 0 then (l, True) else (l\<lparr>rw_readers := rw_readers l - 1\<rparr>, False))"

definition read_unlock :: "rwlock \<Rightarrow> rwlock" where
  "read_unlock l = (if sint (rw_readers l) > 0 then l\<lparr>rw_readers := rw_readers l - 1\<rparr> else l)"

definition dbg_write_lock :: "rw_site \<Rightarrow> bool \<Rightarrow> rwlock \<Rightarrow> rwlock option" where
  "dbg_write_lock site contended l =
     (if sint (rw_readers l) > 0 \<or> rw_writer l \<noteq> 0 then None
      else Some (debug_contended contended (debug_held site (l\<lparr>rw_writer := 1\<rparr>))))"

definition write_lock :: "rwlock \<Rightarrow> rwlock option" where
  "write_lock l = (if sint (rw_readers l) > 0 \<or> rw_writer l \<noteq> 0 then None else Some (l\<lparr>rw_writer := 1\<rparr>))"

definition dbg_write_trylock :: "rw_site \<Rightarrow> rwlock \<Rightarrow> rwlock \<times> int" where
  "dbg_write_trylock site l =
     (if rw_readers l = 0 \<and> rw_writer l = 0 then (debug_held site (l\<lparr>rw_writer := 1\<rparr>), 1) else (l, 0))"

definition write_trylock :: "rwlock \<Rightarrow> rwlock \<times> int" where
  "write_trylock l =
     (if rw_readers l = 0 \<and> rw_writer l = 0 then (l\<lparr>rw_writer := 1\<rparr>, 1) else (l, 0))"

definition dbg_write_unlock :: "rwlock \<Rightarrow> rwlock \<times> bool" where
  "dbg_write_unlock l = (if rw_writer l = 0 then (l, True) else (l\<lparr>rw_writer := 0\<rparr>, False))"

definition write_unlock :: "rwlock \<Rightarrow> rwlock" where
  "write_unlock l = l\<lparr>rw_writer := 0\<rparr>"

lemma debug_simps [simp]:
  "rw_readers (debug_held site l) = rw_readers l" "rw_writer (debug_held site l) = rw_writer l"
  "rw_readers (debug_contended c l) = rw_readers l" "rw_writer (debug_contended c l) = rw_writer l"
  "rw_held_count (debug_held site l) = rw_held_count l + 1"
  "rw_held_count (debug_contended c l) = rw_held_count l"
  by (simp_all add: debug_held_def debug_contended_def)

section \<open>Threads using a lock\<close>

text \<open>
  What a thread is doing; the flag of a waiting thread is its local variable \<^verbatim>\<open>contended\<close>. A thread
  releases only what it holds.
\<close>

datatype rw_thread = Idle | Want_read bool | Want_write bool | Reading | Writing

record rw_sys =
  lk :: rwlock
  th :: "nat \<Rightarrow> rw_thread"

definition move :: "rw_sys \<Rightarrow> rwlock \<Rightarrow> nat \<Rightarrow> rw_thread \<Rightarrow> rw_sys" where
  "move s l t a = \<lparr>lk = l, th = (th s)(t := a)\<rparr>"

text \<open>The steps of \<open>n\<close> threads, which are numbered from 0.\<close>

inductive rw_step :: "nat \<Rightarrow> rw_sys \<Rightarrow> rw_sys \<Rightarrow> bool" for n where
  call_read: "t < n \<Longrightarrow> th s t = Idle \<Longrightarrow> rw_step n s (move s (lk s) t (Want_read False))"
| spin_read: "th s t = Want_read c \<Longrightarrow> dbg_read_lock site c (lk s) = None \<Longrightarrow>
    rw_step n s (move s (lk s) t (Want_read True))"
| take_read: "th s t = Want_read c \<Longrightarrow> dbg_read_lock site c (lk s) = Some l \<Longrightarrow>
    rw_step n s (move s l t Reading)"
| try_read: "t < n \<Longrightarrow> th s t = Idle \<Longrightarrow> dbg_read_trylock site (lk s) = (l, r) \<Longrightarrow>
    rw_step n s (move s l t (if r = 1 then Reading else Idle))"
| end_read: "th s t = Reading \<Longrightarrow> dbg_read_unlock (lk s) = (l, w) \<Longrightarrow> rw_step n s (move s l t Idle)"
| call_write: "t < n \<Longrightarrow> th s t = Idle \<Longrightarrow> rw_step n s (move s (lk s) t (Want_write False))"
| spin_write: "th s t = Want_write c \<Longrightarrow> dbg_write_lock site c (lk s) = None \<Longrightarrow>
    rw_step n s (move s (lk s) t (Want_write True))"
| take_write: "th s t = Want_write c \<Longrightarrow> dbg_write_lock site c (lk s) = Some l \<Longrightarrow>
    rw_step n s (move s l t Writing)"
| try_write: "t < n \<Longrightarrow> th s t = Idle \<Longrightarrow> dbg_write_trylock site (lk s) = (l, r) \<Longrightarrow>
    rw_step n s (move s l t (if r = 1 then Writing else Idle))"
| end_write: "th s t = Writing \<Longrightarrow> dbg_write_unlock (lk s) = (l, w) \<Longrightarrow> rw_step n s (move s l t Idle)"

inductive rw_reach :: "nat \<Rightarrow> rw_sys \<Rightarrow> bool" for n where
  rw_start: "rw_reach n \<lparr>lk = rwlock_init, th = \<lambda>_. Idle\<rparr>"
| rw_next: "rw_reach n s \<Longrightarrow> rw_step n s s' \<Longrightarrow> rw_reach n s'"

section \<open>The invariant\<close>

text \<open>The reader count is the number of readers, the writer flag says whether there is a writer, there is
  at most one, and none beside readers.\<close>

definition readers_of :: "rw_sys \<Rightarrow> nat set" where "readers_of s = {t. th s t = Reading}"
definition writers_of :: "rw_sys \<Rightarrow> nat set" where "writers_of s = {t. th s t = Writing}"

definition rw_inv :: "nat \<Rightarrow> rw_sys \<Rightarrow> bool" where
  "rw_inv n s \<longleftrightarrow> (\<forall>t. th s t \<noteq> Idle \<longrightarrow> t < n) \<and> rw_readers (lk s) = of_nat (card (readers_of s)) \<and>
     (rw_writer (lk s) = 0 \<and> writers_of s = {} \<or>
      rw_writer (lk s) = 1 \<and> readers_of s = {} \<and> (\<exists>t. writers_of s = {t}))"

lemma readers_move:
  "readers_of (move s l t a) = (if a = Reading then insert t (readers_of s) else readers_of s - {t})"
  and writers_move:
  "writers_of (move s l t a) = (if a = Writing then insert t (writers_of s) else writers_of s - {t})"
  and lk_move [simp]: "lk (move s l t a) = l"
  by (auto simp: readers_of_def writers_of_def move_def)

lemma in_readers: "t \<in> readers_of s \<longleftrightarrow> th s t = Reading"
  and in_writers: "t \<in> writers_of s \<longleftrightarrow> th s t = Writing"
  by (simp_all add: readers_of_def writers_of_def)

lemma active_move: "t < n \<Longrightarrow> rw_inv n s \<Longrightarrow> \<forall>u. th (move s l t a) u \<noteq> Idle \<longrightarrow> u < n"
  by (simp add: move_def rw_inv_def)

text \<open>The readers are some of the threads, so their number is read back from the count.\<close>

lemma readers_count:
  assumes "rw_inv n s" and "n < 2 ^ 31"
  shows "finite (readers_of s)" and "card (readers_of s) \<le> n"
    and "sint (rw_readers (lk s)) = int (card (readers_of s))"
    and "rw_readers (lk s) = 0 \<longleftrightarrow> readers_of s = {}"
proof -
  have sub: "readers_of s \<subseteq> {..<n}" using assms(1) by (auto simp: rw_inv_def readers_of_def)
  then show fin: "finite (readers_of s)" by (rule finite_subset) simp
  show le: "card (readers_of s) \<le> n" using card_mono [OF _ sub] by simp
  show count: "sint (rw_readers (lk s)) = int (card (readers_of s))"
    using assms le by (simp add: rw_inv_def sint_of_nat_small)
  then show "rw_readers (lk s) = 0 \<longleftrightarrow> readers_of s = {}"
    using fin sint_zero_iff [of "rw_readers (lk s)"] by simp
qed

text \<open>A thread that is neither reader nor writer, before and after: nothing changes.\<close>

lemma inv_neutral:
  assumes "rw_inv n s" and "t < n" and "th s t \<notin> {Reading, Writing}" and "a \<notin> {Reading, Writing}"
  shows "rw_inv n (move s (lk s) t a)"
proof -
  have "readers_of (move s (lk s) t a) = readers_of s" "writers_of (move s (lk s) t a) = writers_of s"
    using assms(3,4) by (auto simp: readers_move writers_move in_readers in_writers)
  with assms(1) active_move [OF assms(2,1)] show ?thesis by (simp add: rw_inv_def)
qed

lemma inv_add_reader:
  assumes "rw_inv n s" and "n < 2 ^ 31" and "t < n" and "th s t \<notin> {Reading, Writing}" and "rw_writer (lk s) = 0"
    and "rw_readers l = rw_readers (lk s) + 1" and "rw_writer l = rw_writer (lk s)"
  shows "rw_inv n (move s l t Reading)"
proof -
  have "t \<notin> readers_of s" "writers_of (move s l t Reading) = {}"
    using assms(1,4,5) by (auto simp: in_readers writers_move rw_inv_def)
  with assms(1,5-7) active_move [OF assms(3,1)] readers_count(1) [OF assms(1,2)] show ?thesis by (simp add: rw_inv_def readers_move)
qed

lemma inv_add_writer:
  assumes "rw_inv n s" and "n < 2 ^ 31" and "t < n" and "th s t \<notin> {Reading, Writing}" and "rw_readers (lk s) = 0"
    and "rw_writer (lk s) = 0" and "rw_readers l = rw_readers (lk s)" and "rw_writer l = 1"
  shows "rw_inv n (move s l t Writing)"
proof -
  have "readers_of s = {}" "writers_of s = {}"
    using assms(1,5,6) readers_count(4) [OF assms(1,2)] by (auto simp: rw_inv_def)
  with assms(5-8) active_move [OF assms(3,1)] show ?thesis by (simp add: rw_inv_def readers_move writers_move)
qed

lemma inv_end_read:
  assumes "rw_inv n s" and "n < 2 ^ 31" and "th s t = Reading" and "dbg_read_unlock (lk s) = (l, w)"
  shows "rw_inv n (move s l t Idle) \<and> \<not> w"
proof -
  note fin = readers_count [OF assms(1,2)]
  have t: "t \<in> readers_of s" "t < n" using assms(1,3) by (auto simp: in_readers rw_inv_def)
  then have ne: "rw_readers (lk s) \<noteq> 0" using fin(4) by auto
  then have l: "l = (lk s)\<lparr>rw_readers := rw_readers (lk s) - 1\<rparr>" "\<not> w"
    using assms(4) by (simp_all add: dbg_read_unlock_def)
  have "card (readers_of s) = Suc (card (readers_of s - {t}))" by (rule card.remove [OF fin(1) t(1)])
  then have "rw_readers l = of_nat (card (readers_of s - {t}))" using assms(1) l(1) by (simp add: rw_inv_def)
  moreover have "rw_writer l = 0" "writers_of s = {}" using assms(1) t(1) l(1) by (auto simp: rw_inv_def)
  ultimately show ?thesis
    using active_move [OF t(2) assms(1)] l(2) by (simp add: rw_inv_def readers_move writers_move)
qed

lemma inv_end_write:
  assumes "rw_inv n s" and "th s t = Writing" and "dbg_write_unlock (lk s) = (l, w)"
  shows "rw_inv n (move s l t Idle) \<and> \<not> w"
proof -
  have t: "t \<in> writers_of s" "t < n" using assms(1,2) by (auto simp: in_writers rw_inv_def)
  with assms(1) have w1: "rw_writer (lk s) = 1" "readers_of s = {}" "writers_of s = {t}" "rw_readers (lk s) = 0"
    by (auto simp: rw_inv_def)
  then have "l = (lk s)\<lparr>rw_writer := 0\<rparr>" "\<not> w" using assms(3) by (simp_all add: dbg_write_unlock_def)
  with w1 active_move [OF t(2) assms(1)] show ?thesis by (simp add: rw_inv_def readers_move writers_move)
qed

lemma rw_step_inv: "rw_step n s s' \<Longrightarrow> n < 2 ^ 31 \<Longrightarrow> rw_inv n s \<Longrightarrow> rw_inv n s'"
proof (induction rule: rw_step.induct)
  case (take_read s t c site l)
  then have "t < n" by (simp add: rw_inv_def)
  with take_read show ?case by (intro inv_add_reader) (auto simp: dbg_read_lock_def split: if_splits)
next
  case (try_read t s site l r)
  show ?case
  proof (cases "rw_writer (lk s) = 0")
    case True
    with try_read show ?thesis by (auto simp: dbg_read_trylock_def intro!: inv_add_reader)
  next
    case False
    with try_read show ?thesis by (auto simp: dbg_read_trylock_def intro!: inv_neutral)
  qed
next
  case (end_read s t l w)
  then show ?case using inv_end_read by blast
next
  case (take_write s t c site l)
  then have "t < n" by (simp add: rw_inv_def)
  moreover have "\<not> sint (rw_readers (lk s)) > 0" "rw_writer (lk s) = 0"
    and l: "l = debug_contended c (debug_held site ((lk s)\<lparr>rw_writer := 1\<rparr>))"
    using take_write(2) by (auto simp: dbg_write_lock_def split: if_splits)
  moreover from this(1) have "rw_readers (lk s) = 0"
    using readers_count(3) [OF take_write(4,3)] sint_zero_iff by simp
  ultimately show ?case using take_write(1,3,4) by (intro inv_add_writer) auto
next
  case (try_write t s site l r)
  show ?case
  proof (cases "rw_readers (lk s) = 0 \<and> rw_writer (lk s) = 0")
    case True
    with try_write show ?thesis by (auto simp: dbg_write_trylock_def intro!: inv_add_writer)
  next
    case False
    with try_write show ?thesis by (auto simp: dbg_write_trylock_def intro!: inv_neutral)
  qed
next
  case (end_write s t l w)
  then show ?case using inv_end_write by blast
next
  case (spin_read s t c site)
  then have "t < n" by (simp add: rw_inv_def)
  with spin_read show ?case by (simp add: inv_neutral)
next
  case (spin_write s t c site)
  then have "t < n" by (simp add: rw_inv_def)
  with spin_write show ?case by (simp add: inv_neutral)
qed (simp_all add: inv_neutral)

lemma rw_reach_inv: "rw_reach n s \<Longrightarrow> n < 2 ^ 31 \<Longrightarrow> rw_inv n s"
proof (induction rule: rw_reach.induct)
  case rw_start
  show ?case by (simp add: rw_inv_def readers_of_def writers_of_def rwlock_init_def)
next
  case (rw_next s s')
  then show ?case using rw_step_inv by blast
qed

section \<open>The plain variants\<close>

text \<open>Without the debugging fields the two variants of each function do the same.\<close>

definition core :: "rwlock \<Rightarrow> u32 \<times> int" where "core l = (rw_readers l, rw_writer l)"

lemma plain_variants:
  "map_option core (dbg_read_lock site c l) = map_option core (read_lock l)"
  "map_option core (dbg_write_lock site c l) = map_option core (write_lock l)"
  "map_prod core id (dbg_read_trylock site l) = map_prod core id (read_trylock l)"
  "map_prod core id (dbg_write_trylock site l) = map_prod core id (write_trylock l)"
  "0 \<le> sint (rw_readers l) \<Longrightarrow> core (fst (dbg_read_unlock l)) = core (read_unlock l)"
  "core (fst (dbg_write_unlock l)) = core (write_unlock l)"
  using sint_zero_iff [of "rw_readers l"]
  by (auto simp: core_def dbg_read_lock_def read_lock_def dbg_write_lock_def write_lock_def
      dbg_read_trylock_def read_trylock_def dbg_write_trylock_def write_trylock_def
      dbg_read_unlock_def read_unlock_def dbg_write_unlock_def write_unlock_def)

section \<open>Two readers in turn\<close>

text \<open>The steps in which thread \<open>w\<close>, waiting to write, keeps waiting.\<close>

definition kept_waiting :: "nat \<Rightarrow> nat \<Rightarrow> rw_sys \<Rightarrow> rw_sys \<Rightarrow> bool" where
  "kept_waiting n w s s' \<longleftrightarrow> rw_step n s s' \<and> (\<exists>c. th s' w = Want_write c)"

definition overlapping :: "nat \<Rightarrow> nat \<Rightarrow> nat \<Rightarrow> nat \<Rightarrow> rw_sys \<Rightarrow> bool" where
  "overlapping n a b w s \<longleftrightarrow> rw_reach n s \<and> th s a = Reading \<and> th s b = Idle \<and> (\<exists>c. th s w = Want_write c)"

lemma overlapping_swap:
  assumes o: "overlapping n a b w s" and d: "distinct [a, b, w]" and n: "n < 2 ^ 31" and b: "b < n"
  shows "\<exists>s'. (kept_waiting n w)\<^sup>+\<^sup>+ s s' \<and> overlapping n b a w s' \<and> rw_held_count (lk s') = rw_held_count (lk s) + 1"
proof -
  let ?site = "\<lparr>site_file = [], site_line = 0, site_pc = 0\<rparr>"
  have inv: "rw_inv n s" using o n by (simp add: overlapping_def rw_reach_inv)
  have a: "th s a = Reading" "th s b = Idle" using o by (simp_all add: overlapping_def)
  obtain c where w: "th s w = Want_write c" using o by (auto simp: overlapping_def)
  have "readers_of s \<noteq> {}" using a(1) in_readers [of a s] by blast
  with inv have nw: "rw_writer (lk s) = 0" and pos: "0 < sint (rw_readers (lk s))"
    using readers_count [OF inv n] by (auto simp: rw_inv_def card_gt_0_iff)
  define s1 where "s1 = move s (lk s) w (Want_write True)"
  define s2 where "s2 = move s1 (lk s1) b (Want_read False)"
  define l where "l = debug_held ?site ((lk s)\<lparr>rw_readers := rw_readers (lk s) + 1\<rparr>)"
  define s3 where "s3 = move s2 l b Reading"
  define s4 where "s4 = move s3 (l\<lparr>rw_readers := rw_readers l - 1\<rparr>) a Idle"
  have "rw_readers l \<noteq> 0"
  proof
    assume "rw_readers l = 0"
    then have "rw_readers (lk s) = -1" by (simp add: l_def eq_neg_iff_add_eq_0)
    with pos show False by simp
  qed
  note readers_pos = this
  have "rw_step n s s1"
    unfolding s1_def using w pos by (intro spin_write [of s w c ?site]) (simp_all add: dbg_write_lock_def)
  moreover have "rw_step n s1 s2"
    unfolding s2_def using a b d by (intro call_read) (simp_all add: s1_def move_def)
  moreover have "rw_step n s2 s3"
    unfolding s3_def
    by (rule take_read [of s2 b False ?site]) (simp_all add: s2_def s1_def move_def l_def dbg_read_lock_def debug_contended_def nw)
  moreover have "rw_step n s3 s4"
    unfolding s4_def using a d pos readers_pos
    by (intro end_read [of s3 a _ False]) (simp_all add: s3_def s2_def s1_def move_def dbg_read_unlock_def l_def)
  moreover have "th s1 w = Want_write True" "th s2 w = Want_write True" "th s3 w = Want_write True"
      "th s4 w = Want_write True" "th s4 b = Reading" "th s4 a = Idle"
    using d by (auto simp: s4_def s3_def s2_def s1_def move_def)
  ultimately have steps: "kept_waiting n w s s1" "kept_waiting n w s1 s2" "kept_waiting n w s2 s3" "kept_waiting n w s3 s4"
    and ends: "th s4 w = Want_write True" "th s4 b = Reading" "th s4 a = Idle" by (auto simp: kept_waiting_def)
  have "rw_reach n s" using o by (simp add: overlapping_def)
  then have "rw_reach n s4"
    using rw_next [of n s s1] rw_next [of n s1 s2] rw_next [of n s2 s3] rw_next [of n s3 s4] steps
    by (simp add: kept_waiting_def)
  moreover have "(kept_waiting n w)\<^sup>+\<^sup>+ s s4"
    using tranclp.r_into_trancl [of "kept_waiting n w" s s1] tranclp.trancl_into_trancl [of "kept_waiting n w" s s1 s2]
      tranclp.trancl_into_trancl [of "kept_waiting n w" s s2 s3] tranclp.trancl_into_trancl [of "kept_waiting n w" s s3 s4]
      steps by blast
  moreover have "rw_held_count (lk s4) = rw_held_count (lk s) + 1" by (simp add: s4_def l_def debug_held_def)
  ultimately show ?thesis using ends by (auto simp: overlapping_def)
qed

lemma overlapping_rounds:
  assumes "overlapping n a b w s" and "distinct [a, b, w]" and "n < 2 ^ 31" and "a < n" and "b < n"
  shows "\<exists>s'. (kept_waiting n w)\<^sup>*\<^sup>* s s' \<and> (overlapping n a b w s' \<or> overlapping n b a w s') \<and>
    rw_held_count (lk s') = rw_held_count (lk s) + of_nat m"
proof (induction m)
  case 0
  show ?case using assms(1) by (intro exI [of _ s]) simp
next
  case (Suc m)
  then obtain s' where s': "(kept_waiting n w)\<^sup>*\<^sup>* s s'" "overlapping n a b w s' \<or> overlapping n b a w s'"
      "rw_held_count (lk s') = rw_held_count (lk s) + of_nat m" by blast
  have "\<exists>t. (kept_waiting n w)\<^sup>+\<^sup>+ s' t \<and> (overlapping n a b w t \<or> overlapping n b a w t) \<and>
      rw_held_count (lk t) = rw_held_count (lk s') + 1"
    using s'(2) overlapping_swap [of n a b w s'] overlapping_swap [of n b a w s'] assms(2-) by auto
  then obtain t where t: "(kept_waiting n w)\<^sup>+\<^sup>+ s' t" "overlapping n a b w t \<or> overlapping n b a w t"
      "rw_held_count (lk t) = rw_held_count (lk s') + 1" by blast
  have "(kept_waiting n w)\<^sup>*\<^sup>* s t" by (rule rtranclp_trans [OF s'(1) tranclp_into_rtranclp [OF t(1)]])
  with t(2,3) s'(3) show ?case by (intro exI [of _ t]) simp
qed

section \<open>Claims\<close>

text \<open>
  C39. Under every interleaving of any number of threads below \<open>2 ^ 31\<close> that lock, try to lock and unlock, and
  unlock only what they hold, a writer is alone: there is never a second writer or a reader beside it. The
  reader count, read as a C \<^verbatim>\<open>int\<close>, is the number of readers, a release by a holder never prints the
  warning, and a try succeeds exactly when the rule allows it.
\<close>

theorem rwlock_exclusion:
  assumes "rw_reach n s" and "n < 2 ^ 31"
  shows "(th s t = Writing \<and> (th s u = Writing \<or> th s u = Reading) \<longrightarrow> t = u) \<and>
    sint (rw_readers (lk s)) = int (card {t. th s t = Reading}) \<and>
    (th s t = Reading \<longrightarrow> \<not> snd (dbg_read_unlock (lk s))) \<and>
    (th s t = Writing \<longrightarrow> \<not> snd (dbg_write_unlock (lk s))) \<and>
    (snd (dbg_read_trylock site (lk s)) = 1 \<longleftrightarrow> (\<forall>t. th s t \<noteq> Writing)) \<and>
    (snd (dbg_write_trylock site (lk s)) = 1 \<longleftrightarrow> (\<forall>t. th s t \<noteq> Writing \<and> th s t \<noteq> Reading))"
proof -
  have inv: "rw_inv n s" by (rule rw_reach_inv [OF assms])
  note count = readers_count [OF inv assms(2)]
  have ex: "t = u" if "th s t = Writing" "th s u = Writing \<or> th s u = Reading"
    using inv that in_readers [of u s] in_writers [of u s] in_writers [of t s] by (auto simp: rw_inv_def)
  have r: "\<not> snd (dbg_read_unlock (lk s))" if "th s t = Reading"
    using inv_end_read [OF inv assms(2) that] by (metis prod.collapse)
  have w: "\<not> snd (dbg_write_unlock (lk s))" if "th s t = Writing"
    using inv_end_write [OF inv that] by (metis prod.collapse)
  have "rw_writer (lk s) = 0 \<longleftrightarrow> writers_of s = {}" using inv by (auto simp: rw_inv_def)
  moreover note count(4)
  ultimately show ?thesis
    using count(3) ex r w
    by (auto simp: readers_of_def writers_of_def dbg_read_trylock_def dbg_write_trylock_def)
qed

lemma reach_reading:
  "rw_reach 3 \<lparr>lk = debug_held site (rwlock_init\<lparr>rw_readers := 1\<rparr>), th = (\<lambda>_. Idle)(0 := Reading)\<rparr>"
proof -
  have "rw_step 3 \<lparr>lk = rwlock_init, th = \<lambda>_. Idle\<rparr> (move \<lparr>lk = rwlock_init, th = \<lambda>_. Idle\<rparr>
      (debug_held site (rwlock_init\<lparr>rw_readers := 1\<rparr>)) 0 (if (1 :: int) = 1 then Reading else Idle))"
    by (rule try_read [of _ _ _ site]) (simp_all add: dbg_read_trylock_def rwlock_init_def)
  from rw_next [OF rw_start this] show ?thesis by (simp add: move_def)
qed

theorem rwlock_exclusion_witness:
  "\<exists>s. rw_reach 3 s \<and> th s 0 = Reading \<and> rw_readers (lk s) = 1 \<and> \<not> snd (dbg_read_unlock (lk s)) \<and>
     snd (dbg_write_trylock \<lparr>site_file = [], site_line = 0, site_pc = 0\<rparr> (lk s)) \<noteq> 1"
proof -
  let ?site = "\<lparr>site_file = [], site_line = 0, site_pc = 0\<rparr>"
  let ?s = "\<lparr>lk = debug_held ?site (rwlock_init\<lparr>rw_readers := 1\<rparr>), th = (\<lambda>_. Idle)(0 := Reading)\<rparr>"
  have "rw_reach 3 ?s" by (rule reach_reading)
  from rwlock_exclusion [OF this _, of 0 0 ?site]
  have "\<not> snd (dbg_read_unlock (lk ?s))" "snd (dbg_write_trylock ?site (lk ?s)) \<noteq> 1" by simp_all
  with \<open>rw_reach 3 ?s\<close> show ?thesis by (intro exI [of _ ?s]) (simp add: rwlock_init_def)
qed

text \<open>
  A waiting writer can be kept out for ever: from any reachable state in which one thread reads, one
  is idle and a third waits to write, the two others can take the lock in turn \<open>m\<close> times, for every
  \<open>m\<close>, and the writer is still waiting after every single step.
\<close>

theorem writer_starves:
  assumes "overlapping n a b w s" and "distinct [a, b, w]" and "n < 2 ^ 31" and "a < n" and "b < n"
  shows "\<exists>s'. (kept_waiting n w)\<^sup>*\<^sup>* s s' \<and> (overlapping n a b w s' \<or> overlapping n b a w s') \<and>
    rw_held_count (lk s') = rw_held_count (lk s) + of_nat m"
  by (rule overlapping_rounds [OF assms])

theorem writer_starves_witness:
  "\<exists>s s'. rw_held_count (lk s) = 1 \<and> (kept_waiting 3 2)\<^sup>*\<^sup>* s s' \<and> rw_held_count (lk s') = 101 \<and> (\<exists>c. th s' 2 = Want_write c)"
proof -
  let ?site = "\<lparr>site_file = [], site_line = 0, site_pc = 0\<rparr>"
  let ?s = "\<lparr>lk = debug_held ?site (rwlock_init\<lparr>rw_readers := 1\<rparr>), th = (\<lambda>_. Idle)(0 := Reading)\<rparr>"
  let ?t = "move ?s (lk ?s) 2 (Want_write False)"
  have "rw_reach 3 ?t" by (rule rw_next [OF reach_reading call_write]) simp_all
  then have "overlapping 3 0 1 2 ?t" by (auto simp: overlapping_def move_def)
  from writer_starves [OF this, where m = 100] obtain s' where
    "(kept_waiting 3 2)\<^sup>*\<^sup>* ?t s'" "overlapping 3 0 1 2 s' \<or> overlapping 3 1 0 2 s'"
    "rw_held_count (lk s') = rw_held_count (lk ?t) + of_nat 100" by auto
  then show ?thesis
    by (intro exI [of _ ?t] exI [of _ s']) (auto simp: overlapping_def rwlock_init_def)
qed

end
