(* ===== verification/Eventfd.thy ===== *)
theory Eventfd
  imports Mqueue File_Table
begin

text \<open>
  Event counters, \<^verbatim>\<open>kernel/io/eventfd.c\<close>: the table of counters, creation, reading, writing, polling and
  release. As for message queues, the outcome of an allocation, \<^verbatim>\<open>file_anon_fd\<close> and what happens during a
  wait are arguments, a freed counter is absent and an access to it is a fault, and a blocking call is two
  steps with the wait between them. Open files are those of theory \<open>Mqueue\<close>. The wait queues have no
  state here: a wake-up is what ends a wait.
\<close>

section \<open>Data\<close>

record eventfd =
  efd_count :: u64
  efd_flags :: u32

record efd_state =
  eventfd_table :: "nat option list"
  efd_at :: "nat \<rightharpoonup> eventfd"
  efd_files :: "nat \<rightharpoonup> mq_file"

definition EFD_SEMAPHORE :: u32 where "EFD_SEMAPHORE = 1"
definition EFD_CLOEXEC :: u32 where "EFD_CLOEXEC = 2"
definition EFD_NONBLOCK :: u32 where "EFD_NONBLOCK = 4"
definition MAX_EVENTFD :: nat where "MAX_EVENTFD = 1024"
definition UINT64_MAX :: u64 where "UINT64_MAX = - 1"

lemmas efd_consts = EFD_SEMAPHORE_def EFD_CLOEXEC_def EFD_NONBLOCK_def MAX_EVENTFD_def UINT64_MAX_def

definition eventfd_init :: "efd_state \<Rightarrow> efd_state" where
  "eventfd_init s = s\<lparr>eventfd_table := replicate MAX_EVENTFD None\<rparr>"

section \<open>Creation\<close>

text \<open>The search of both loops over the table: the first slot with the given contents.\<close>

fun slot_loop :: "nat option list \<Rightarrow> nat option \<Rightarrow> nat \<Rightarrow> nat \<Rightarrow> int option" where
  "slot_loop tab x i 0 = Some (-1)"
| "slot_loop tab x i (Suc n) =
     (if i < length tab then if tab ! i = x then Some (int i) else slot_loop tab x (Suc i) n else None)"

definition open_flags :: "u32 \<Rightarrow> u32 \<Rightarrow> u32" where
  "open_flags flags f =
     (let f1 = (if flags AND EFD_NONBLOCK \<noteq> 0 then f OR O_NONBLOCK else f)
      in if flags AND EFD_CLOEXEC \<noteq> 0 then f1 OR O_CLOEXEC else f1)"

definition eventfd_create :: "(nat \<Rightarrow> (nat \<rightharpoonup> mq_file) \<Rightarrow> int \<times> nat \<times> (nat \<rightharpoonup> mq_file)) \<Rightarrow> nat option \<Rightarrow> efd_state \<Rightarrow>
    u32 \<Rightarrow> u32 \<Rightarrow> (efd_state \<times> int) option" where
  "eventfd_create anon_fd alloc s initval flags =
     (if flags AND NOT (EFD_SEMAPHORE OR EFD_CLOEXEC OR EFD_NONBLOCK) \<noteq> 0 then Some (s, -1)
      else
        Option.bind (slot_loop (eventfd_table s) None 0 MAX_EVENTFD) (\<lambda>id.
          if id = -1 then Some (s, -1)
          else case alloc of
            None \<Rightarrow> Some (s, -1)
          | Some e \<Rightarrow>
              let s1 = s\<lparr>efd_at := (efd_at s)(e \<mapsto> \<lparr>efd_count = ucast initval, efd_flags = flags\<rparr>),
                         eventfd_table := (eventfd_table s)[nat id := Some e]\<rparr>
              in case anon_fd e (efd_files s1) of
                   (fd, f, files) \<Rightarrow>
                     if fd < 0 then
                       Some (s1\<lparr>eventfd_table := (eventfd_table s1)[nat id := None],
                               efd_at := (efd_at s1)(e := None), efd_files := files\<rparr>, -1)
                     else if flags AND (EFD_NONBLOCK OR EFD_CLOEXEC) = 0 then Some (s1\<lparr>efd_files := files\<rparr>, fd)
                     else Option.bind (files f) (\<lambda>fl.
                       Some (s1\<lparr>efd_files := files(f \<mapsto> fl\<lparr>f_flags := open_flags flags (f_flags fl)\<rparr>)\<rparr>, fd))))"

section \<open>Reading and writing\<close>

definition with_eventfd :: "efd_state \<Rightarrow> nat \<Rightarrow> 'r \<Rightarrow> (mq_file \<Rightarrow> nat \<Rightarrow> eventfd \<Rightarrow> 'r option) \<Rightarrow> 'r option" where
  "with_eventfd s file r body =
     Option.bind (efd_files s file) (\<lambda>fl.
       case private_data fl of
         None \<Rightarrow> Some r
       | Some e \<Rightarrow> Option.bind (efd_at s e) (body fl e))"

definition read_enter :: "efd_state \<Rightarrow> nat \<Rightarrow> u32 \<Rightarrow> mq_entry option" where
  "read_enter s file count =
     with_eventfd s file (Return (-1)) (\<lambda>fl e efd.
       if count < 8 then Some (Return (-1))
       else if efd_count efd = 0 then
         Some (if f_flags fl AND O_NONBLOCK \<noteq> 0 then Return (-1) else Block e)
       else Some (Proceed e))"

text \<open>The value read and the number of bytes.\<close>

definition read_commit :: "efd_state \<Rightarrow> nat \<Rightarrow> (efd_state \<times> u64 option \<times> int) option" where
  "read_commit s e =
     Option.bind (efd_at s e) (\<lambda>efd.
       if efd_flags efd AND EFD_SEMAPHORE \<noteq> 0 then
         Some (s\<lparr>efd_at := (efd_at s)(e \<mapsto> efd\<lparr>efd_count := efd_count efd - 1\<rparr>)\<rparr>, Some 1, 8)
       else Some (s\<lparr>efd_at := (efd_at s)(e \<mapsto> efd\<lparr>efd_count := 0\<rparr>)\<rparr>, Some (efd_count efd), 8))"

definition eventfd_read :: "(efd_state \<Rightarrow> nat \<Rightarrow> efd_state \<times> int) \<Rightarrow> efd_state \<Rightarrow> nat \<Rightarrow> u32 \<Rightarrow>
    (efd_state \<times> u64 option \<times> int) option" where
  "eventfd_read wait s file count =
     Option.bind (read_enter s file count) (\<lambda>en.
       case en of
         Return r \<Rightarrow> Some (s, None, r)
       | Proceed e \<Rightarrow> read_commit s e
       | Block e \<Rightarrow> (case wait s e of (s', ret) \<Rightarrow> if ret \<noteq> 0 then Some (s', None, -1) else read_commit s' e))"

definition write_enter :: "efd_state \<Rightarrow> nat \<Rightarrow> u64 \<Rightarrow> u32 \<Rightarrow> mq_entry option" where
  "write_enter s file val count =
     with_eventfd s file (Return (-1)) (\<lambda>fl e efd.
       if count < 8 then Some (Return (-1))
       else if val = UINT64_MAX then Some (Return (-1))
       else if UINT64_MAX - efd_count efd < val then
         Some (if f_flags fl AND O_NONBLOCK \<noteq> 0 then Return (-1) else Block e)
       else Some (Proceed e))"

definition write_commit :: "efd_state \<Rightarrow> nat \<Rightarrow> u64 \<Rightarrow> (efd_state \<times> int) option" where
  "write_commit s e val =
     Option.bind (efd_at s e) (\<lambda>efd.
       Some (s\<lparr>efd_at := (efd_at s)(e \<mapsto> efd\<lparr>efd_count := efd_count efd + val\<rparr>)\<rparr>, 8))"

definition eventfd_write :: "(efd_state \<Rightarrow> nat \<Rightarrow> efd_state \<times> int) \<Rightarrow> efd_state \<Rightarrow> nat \<Rightarrow> u64 \<Rightarrow> u32 \<Rightarrow>
    (efd_state \<times> int) option" where
  "eventfd_write wait s file val count =
     Option.bind (write_enter s file val count) (\<lambda>en.
       case en of
         Return r \<Rightarrow> Some (s, r)
       | Proceed e \<Rightarrow> write_commit s e val
       | Block e \<Rightarrow> (case wait s e of (s', ret) \<Rightarrow> if ret \<noteq> 0 then Some (s', -1) else write_commit s' e val))"

section \<open>Polling and release\<close>

definition POLLIN :: u32 where "POLLIN = 0x0001"
definition POLLOUT :: u32 where "POLLOUT = 0x0004"
definition POLLERR :: u32 where "POLLERR = 0x0008"
definition POLLRDNORM :: u32 where "POLLRDNORM = 0x0040"
definition POLLWRNORM :: u32 where "POLLWRNORM = 0x0100"

definition eventfd_poll :: "efd_state \<Rightarrow> nat \<Rightarrow> u32 option" where
  "eventfd_poll s file =
     with_eventfd s file POLLERR (\<lambda>fl e efd.
       Some ((if efd_count efd > 0 then POLLIN OR POLLRDNORM else 0) OR
             (if UINT64_MAX - efd_count efd > 0 then POLLOUT OR POLLWRNORM else 0)))"

definition eventfd_release :: "efd_state \<Rightarrow> nat \<Rightarrow> (efd_state \<times> int) option" where
  "eventfd_release s file =
     Option.bind (efd_files s file) (\<lambda>fl.
       case private_data fl of
         None \<Rightarrow> Some (s, 0)
       | Some e \<Rightarrow>
           Option.bind (slot_loop (eventfd_table s) (Some e) 0 MAX_EVENTFD) (\<lambda>id.
             let s1 = (if id \<noteq> -1 then s\<lparr>eventfd_table := (eventfd_table s)[nat id := None]\<rparr> else s)
             in Some (s1\<lparr>efd_at := (efd_at s1)(e := None)\<rparr>, 0)))"

section \<open>Lemmas\<close>

text \<open>A sequence of writes, every one of which must succeed.\<close>

fun write_all :: "(efd_state \<Rightarrow> nat \<Rightarrow> efd_state \<times> int) \<Rightarrow> efd_state \<Rightarrow> nat \<Rightarrow> u64 list \<Rightarrow> efd_state option" where
  "write_all wait s file [] = Some s"
| "write_all wait s file (v # vs) =
     Option.bind (eventfd_write wait s file v 8) (\<lambda>(s', r). if r = 8 then write_all wait s' file vs else None)"

definition set_count :: "efd_state \<Rightarrow> nat \<Rightarrow> eventfd \<Rightarrow> u64 \<Rightarrow> efd_state" where
  "set_count s e efd c = s\<lparr>efd_at := (efd_at s)(e \<mapsto> efd\<lparr>efd_count := c\<rparr>)\<rparr>"

lemma set_count_simps [simp]:
  "efd_at (set_count s e efd c) e = Some (efd\<lparr>efd_count := c\<rparr>)"
  "efd_files (set_count s e efd c) = efd_files s"
  "set_count (set_count s e efd c) e (efd\<lparr>efd_count := c'\<rparr>) d = set_count s e efd d"
  by (simp_all add: set_count_def)

lemma fits_in_64:
  assumes "unat (c :: u64) + unat v < 2 ^ 64"
  shows "\<not> UINT64_MAX - c < v" and "unat (c + v) = unat c + unat v"
proof -
  have "unat (UINT64_MAX - c) = unat UINT64_MAX - unat c"
    by (rule unat_sub) (simp add: UINT64_MAX_def)
  moreover have "unat UINT64_MAX = 2 ^ 64 - 1"
    by (simp add: UINT64_MAX_def unsigned_minus_1_eq_mask mask_eq_exp_minus_1)
  ultimately have "unat (UINT64_MAX - c) = 2 ^ 64 - 1 - unat c" by simp
  then show "\<not> UINT64_MAX - c < v" using assms by (simp add: word_less_nat_alt)
  show "unat (c + v) = unat c + unat v" using assms by (simp add: unat_word_ariths)
qed

lemma eventfd_write_fits:
  assumes "efd_files s file = Some fl" and "private_data fl = Some e" and "efd_at s e = Some efd"
    and "v \<noteq> UINT64_MAX" and "unat (efd_count efd) + unat v < 2 ^ 64"
  shows "eventfd_write wait s file v 8 = Some (set_count s e efd (efd_count efd + v), 8)"
  using assms fits_in_64(1) [OF assms(5)]
  by (simp add: eventfd_write_def write_enter_def with_eventfd_def write_commit_def set_count_def)

lemma write_all_sum:
  assumes "efd_files s file = Some fl" and "private_data fl = Some e" and "efd_at s e = Some efd"
    and "UINT64_MAX \<notin> set vs" and "unat (efd_count efd) + sum_list (map unat vs) < 2 ^ 64"
  shows "write_all wait s file vs = Some (set_count s e efd (efd_count efd + sum_list vs)) \<and>
    unat (efd_count efd + sum_list vs) = unat (efd_count efd) + sum_list (map unat vs)"
  using assms
proof (induction vs arbitrary: s efd)
  case Nil
  then have "set_count s e efd (efd_count efd) = s" by (auto simp: set_count_def fun_upd_idem)
  then show ?case by simp
next
  case (Cons v vs)
  have fit: "unat (efd_count efd) + unat v < 2 ^ 64" using Cons.prems(5) by simp
  let ?efd = "efd\<lparr>efd_count := efd_count efd + v\<rparr>"
  have w: "eventfd_write wait s file v 8 = Some (set_count s e efd (efd_count efd + v), 8)"
    by (rule eventfd_write_fits [OF Cons.prems(1-3) _ fit]) (use Cons.prems(4) in auto)
  have "write_all wait (set_count s e efd (efd_count efd + v)) file vs =
      Some (set_count (set_count s e efd (efd_count efd + v)) e ?efd (efd_count ?efd + sum_list vs)) \<and>
    unat (efd_count ?efd + sum_list vs) = unat (efd_count ?efd) + sum_list (map unat vs)"
    by (rule Cons.IH) (use Cons.prems fits_in_64(2) [OF fit] in simp_all)
  then show ?case using w fits_in_64(2) [OF fit] by (simp add: add.assoc)
qed

section \<open>Claims\<close>

definition sample_efd :: "u32 \<Rightarrow> efd_state" where
  "sample_efd flags = \<lparr>eventfd_table = Some 0 # replicate 1023 None,
     efd_at = [0 \<mapsto> \<lparr>efd_count = 0, efd_flags = flags\<rparr>],
     efd_files = [0 \<mapsto> \<lparr>f_flags = 0, private_data = Some 0\<rparr>]\<rparr>"

text \<open>
  C40. Writes add up: a sequence of writes whose total fits in 64 bits succeeds without waiting, and a read
  then returns exactly the old counter plus their sum and leaves the counter zero, or, in semaphore mode,
  returns one and leaves it one less; no other counter changes.
\<close>

theorem eventfd_accumulates:
  assumes "efd_files s file = Some fl" and "private_data fl = Some e" and "efd_at s e = Some efd"
    and "UINT64_MAX \<notin> set vs" and "unat (efd_count efd) + sum_list (map unat vs) < 2 ^ 64"
    and "0 < unat (efd_count efd) + sum_list (map unat vs)"
  shows "\<exists>s1 s2 v c. write_all wait s file vs = Some s1 \<and> eventfd_read wait s1 file 8 = Some (s2, Some v, 8) \<and>
    efd_at s2 = (efd_at s)(e \<mapsto> efd\<lparr>efd_count := c\<rparr>) \<and>
    (if efd_flags efd AND EFD_SEMAPHORE = 0
     then unat v = unat (efd_count efd) + sum_list (map unat vs) \<and> c = 0
     else v = 1 \<and> unat c + 1 = unat (efd_count efd) + sum_list (map unat vs))"
proof -
  let ?t = "efd_count efd + sum_list vs"
  note all = write_all_sum [OF assms(1-5), of wait]
  then have t: "unat ?t = unat (efd_count efd) + sum_list (map unat vs)" by simp
  with assms(6) have "?t \<noteq> 0" by (metis less_irrefl unat_0)
  then have "0 < unat ?t" by (simp add: unat_eq_0 flip: neq0_conv)
  then have "unat (?t - 1) + 1 = unat ?t" by (simp add: unat_sub word_le_nat_alt)
  with \<open>?t \<noteq> 0\<close> all t assms(1,2) show ?thesis
    by (auto simp: eventfd_read_def read_enter_def with_eventfd_def read_commit_def set_count_def)
qed

theorem eventfd_accumulates_witness:
  "\<exists>s1 s2 v. write_all (\<lambda>s e. (s, 0)) (sample_efd 0) 0 [3, 4] = Some s1 \<and>
     eventfd_read (\<lambda>s e. (s, 0)) s1 0 8 = Some (s2, Some v, 8) \<and> unat v = 7"
  using eventfd_accumulates [of "sample_efd 0" 0 "\<lparr>f_flags = 0, private_data = Some 0\<rparr>" 0 "\<lparr>efd_count = 0, efd_flags = 0\<rparr>"
      "[3, 4]" "\<lambda>s e. (s, 0)"]
  by (auto simp: sample_efd_def UINT64_MAX_def simp del: write_all.simps)

text \<open>
  The counter of a semaphore can go below zero: two readers blocked on an empty one are both released
  by one write of one, since neither looks at the counter again after its wait, and the counter ends at
  the largest 64-bit value.
\<close>

theorem semaphore_underflows:
  assumes "efd_files s file = Some fl" and "private_data fl = Some e" and "efd_at s e = Some efd"
    and "f_flags fl AND O_NONBLOCK = 0" and "efd_count efd = 0" and "efd_flags efd AND EFD_SEMAPHORE \<noteq> 0"
  shows "\<exists>s1 s2 s3. eventfd_write wait s file 1 8 = Some (s1, 8) \<and>
    eventfd_read (\<lambda>_ _. (s1, 0)) s file 8 = Some (s2, Some 1, 8) \<and>
    eventfd_read (\<lambda>_ _. (s2, 0)) s file 8 = Some (s3, Some 1, 8) \<and>
    efd_at s3 e = Some (efd\<lparr>efd_count := UINT64_MAX\<rparr>)"
  using assms
  by (auto simp: eventfd_write_def write_enter_def write_commit_def eventfd_read_def read_enter_def
      with_eventfd_def read_commit_def UINT64_MAX_def)

theorem semaphore_underflows_witness:
  "\<exists>s1 s2 s3. eventfd_write (\<lambda>s e. (s, 0)) (sample_efd 1) 0 1 8 = Some (s1, 8) \<and>
     eventfd_read (\<lambda>_ _. (s1, 0)) (sample_efd 1) 0 8 = Some (s2, Some 1, 8) \<and>
     eventfd_read (\<lambda>_ _. (s2, 0)) (sample_efd 1) 0 8 = Some (s3, Some 1, 8) \<and>
     efd_at s3 0 = Some \<lparr>efd_count = UINT64_MAX, efd_flags = 1\<rparr>"
  using semaphore_underflows [of "sample_efd 1" 0 "\<lparr>f_flags = 0, private_data = Some 0\<rparr>" 0 "\<lparr>efd_count = 0, efd_flags = 1\<rparr>"
      "\<lambda>s e. (s, 0)"]
  by (simp add: sample_efd_def EFD_SEMAPHORE_def)

end
