(* ===== verification/Spec2Isabelle.thy ===== *)
theory Spec2Isabelle
  imports Pmm_Props Slab_Props Page_Bitmap Swap_Transfer_Props Btree Ipv4 Net Block Fs_Mount Sched_Props String_Lib Security_Props Seccomp Wait_Queue Mqueue_Props File_Table_Props Rwlock Eventfd
begin

text \<open>
  Verification of Horizon, a Unix-like kernel for 32-bit x86 written in C.

  \<^bold>\<open>Reading the models.\<close> Each component is a shallow embedding of its C files: structures are records,
  objects at addresses are maps, machine integers are words of their width where they can wrap. A
  function that can follow a null, freed or wild pointer, index an array out of range or not return has
  an option result, and \<^const>\<open>None\<close> stands for these cases; theorems therefore state that a result exists.
  Loops that may not end are defined by \<^theory_text>\<open>partial_function\<close>, the others by recursion on their bound; there
  is no fuel. Locks make the code between lock and unlock one step; code that gives up its lock to wait
  is split there, and the step relations interleave the pieces. Functions the repository does not define,
  allocation outcomes and the current task are arguments; what is relied on is a named predicate
  (\<open>flag_ops_ok\<close>, \<open>wait_env_ok\<close>).

  \<^bold>\<open>Common ground.\<close> \<open>Horizon_Prelude\<close>: words, error numbers, lemmas on lists and words. \<open>Kernel_List\<close>:
  the pointer lists of \<^verbatim>\<open>include/horizon/list.h\<close>; the locale \<open>linked_lists\<close> is the interface of
  a heap of disjoint circular lists, interpreted as \<open>kl\<close> on the C operations, and the page lists, wait
  queues and message queues use nothing else. \<open>Single_List\<close>: the lists with only a next pointer; the locale
  \<open>registry\<close> says that registration and removal are those of a list, and is interpreted for the network
  devices, the protocols and the block devices.

  \<^bold>\<open>Physical memory\<close>, \<^verbatim>\<open>kernel/mm/pmm.c\<close>. \<open>Pmm\<close> has the page array, the eleven free lists, boot,
  reservation, the buddy allocator and the address conversions. \<open>Buddy\<close> is the buddy discipline on sets of
  blocks, \<open>Pmm_Correct\<close> shows that allocation and release follow it, \<open>Pmm_Ranges\<close> treats reserved and freed
  ranges, \<open>Pmm_Boot\<close> the boot path and all runs after it. \<open>Pmm_Props\<close>: boot accounts for every page, runs never
  hand out a page twice and keep the counters, allocation and release are exact, addresses and pages
  convert back; and two things the code gets wrong: merging depends on the order of releases, and
  reserving a page inside a merged block damages the free lists.

  \<^bold>\<open>Slabs\<close>, \<^verbatim>\<open>mm/slab.c\<close>. \<open>Slab\<close> has caches, slabs, free lists and the general allocator; \<open>Slab_Props\<close> shows that
  the first slab of a cache hands out its objects one by one, none overlapping another, that the allocation after the
  last of them follows a null pointer, and that after \<^verbatim>\<open>slab_init\<close> an object lies inside its page exactly
  if it has at most 4072 bytes. Other components take the outcome of \<^verbatim>\<open>kmalloc\<close> as an argument, so their
  theorems do not depend on these defects (three files of the repository define \<^verbatim>\<open>kmalloc\<close>).

  \<^bold>\<open>Page bitmap\<close>, \<^verbatim>\<open>mm/memory.c\<close>. \<open>Page_Bitmap\<close>: the second page allocator of the repository, with its bit map in the
  memory it manages. An allocation is first fit and exact, all runs keep the held blocks disjoint even while
  their owners write to them, and \<^verbatim>\<open>kfree\<close> loses all pages of an object but the first.

  \<^bold>\<open>Swapping\<close>, \<^verbatim>\<open>kernel/mm/swap.c\<close>, \<^verbatim>\<open>swap_compress.c\<close> and \<^verbatim>\<open>swap_monitor.c\<close>. \<open>Swap_Compress\<close> has the four compressors,
  \<open>Swap_Compress_Props\<close> shows that a page comes back from each of them. \<open>Swap\<close> has the areas with their
  bitmaps, the entries, the transfers, the monitor and the five file calls of \<^verbatim>\<open>kernel/fs/fs.c\<close> they use.
  \<open>Swap_Props\<close>: allocation finds the first free slot and release undoes it, except that the first slot of
  all is reported as a failure and lost; and since \<^verbatim>\<open>fs_open\<close> never finds a driver, every transfer fails.
  \<open>Swap_Transfer_Props\<close>: over a working driver a page that is written is read back, unless its compressed
  form has exactly the size of a page, and a written page can destroy the following slot.

  \<^bold>\<open>btrfs\<close>, \<^verbatim>\<open>kernel/fs/btrfs/btree.c\<close>. \<open>Btree\<close>: the binary search in a leaf ends and is exact, a lookup copies
  the data of its item; and every operation on a tree of more than one level uses a null pointer.

  \<^bold>\<open>IPv4\<close>, \<^verbatim>\<open>net/ipv4/ipv4.c\<close>. \<open>Ipv4\<close>: the checksum is the Internet checksum, the handler decides exactly the
  condition of the standard but for one form of zero, any damage to one word is detected that the checksum
  can detect, and the length of the packet is not compared with that of its header.

  \<^bold>\<open>Sockets and registries\<close>, \<^verbatim>\<open>net/core/net.c\<close>, \<^verbatim>\<open>net/socket/socket.c\<close>, \<^verbatim>\<open>block/block.c\<close>. \<open>Net\<close>: devices and protocols are kept as
  a list as long as nothing is registered twice, which makes removal hang; no socket can be used, because
  none has operations. \<open>Block\<close>: the registry keeps the names distinct in all runs, a lookup finds exactly
  the registered device, a removal takes out exactly its device, and reads and writes stay inside the device
  unless the sum of the check wraps around.

  \<^bold>\<open>Mount points\<close>, \<^verbatim>\<open>kernel/fs/fs.c\<close>. \<open>Fs_Mount\<close>: in all runs with directory names of at most
  255 characters the mounted directories are distinct and found by the lookup, unmounting undoes mounting, and an entry used again shows its old superblock.

  \<^bold>\<open>Scheduler\<close>, \<^verbatim>\<open>kernel/sched.c\<close> and \<^verbatim>\<open>kernel/sched/rt.c\<close>. \<open>Sched\<close> has the run queue with its links, the choice of a thread,
  blocking, sleeping, the tick and the parameters of a thread. \<open>Run_Queue\<close> has the locale \<open>fifo\<close> of queues, interpreted as
  \<open>runq\<close> on the links. \<open>Sched_Props\<close> shows that with real-time scheduling off and no thread of the FIFO policy the code
  refines an abstract scheduler with a list of ready threads, and that yielding is fair; and that a tick at the end of a slice hangs,
  that blocking the running thread loses all ready threads, and that with real-time scheduling on, as
  after boot, the first schedule follows a null pointer.

  \<^bold>\<open>Strings\<close>, \<^verbatim>\<open>lib/string.c\<close>. \<open>String_Lib\<close>: every function on a byte memory with faults. \<^verbatim>\<open>memmove\<close> equals a
  simultaneous copy for any overlap, \<^verbatim>\<open>strcmp\<close> is the lexicographic order, \<^verbatim>\<open>strstr\<close> finds the first occurrence,
  \<^verbatim>\<open>strcat\<close> appends, and \<^verbatim>\<open>strncpy\<close> writes exactly what is stated.

  \<^bold>\<open>Security\<close>, \<^verbatim>\<open>kernel/security\<close>. \<open>Security\<close> models \<^verbatim>\<open>security.c\<close> (contexts, the chain of modules, every check, access
  control lists), \<open>Security_Modules\<close> the modules of \<^verbatim>\<open>capability.c\<close>, \<^verbatim>\<open>dac.c\<close> and \<^verbatim>\<open>mac.c\<close>, \<open>Seccomp\<close> the secure computing
  mode. \<open>Security_Props\<close> has the locale \<open>module_chain\<close>, interpreted as \<open>sec\<close>, and shows that the default policy
  holds under any modules each registered once at a time, that a check is the conjunction of the chain and that the access
  control list decides what it stands for; and that setting a user id can fail after it was done, that
  the capability module cannot restrict a child and that registering a module twice makes checks hang.

  \<^bold>\<open>Waiting and locking\<close>, \<^verbatim>\<open>kernel/wait.c\<close> and \<^verbatim>\<open>kernel/rwlock.c\<close>. \<open>Wait_Queue\<close>: a queue refines a list of waiters,
  and a wait on a condition that is false at the call is never ended by it, since the condition is passed
  by value, but only by a signal or at the timeout. \<open>Rwlock\<close>: mutual exclusion under every interleaving of threads, and starvation of writers.

  \<^bold>\<open>Message queues\<close>, \<^verbatim>\<open>kernel/ipc/mqueue.c\<close>. \<open>Mqueue\<close> has the operations on heap objects and lists, \<open>Mqueue_Inv\<close>
  the invariant and its preservation, \<open>Mqueue_Props\<close> the runs and the claims: every reachable state is well
  formed, a send inserts by priority, a batch comes back stably sorted; unlinking removes nothing, and
  blocked senders overfill a queue.

  \<^bold>\<open>Event counters\<close>, \<^verbatim>\<open>kernel/io/eventfd.c\<close>. \<open>Eventfd\<close>: writes add up and a read returns the total; blocked
  readers of a semaphore take the counter below zero.

  \<^bold>\<open>File descriptors\<close>, \<^verbatim>\<open>kernel/fs/file_table.c\<close>. \<open>File_Table\<close> has the table with its arrays and the system calls on
  it, \<open>File_Table_Props\<close> shows that \<^verbatim>\<open>dup\<close> returns the lowest free descriptor, that \<^verbatim>\<open>dup2\<close> replaces exactly its
  target while the shared file is closed twice and faults from descriptor 32 on, that a table can never be copied or enlarged because its
  bit arrays have one word, and for which numbers the rounding loop ends.

  \<^bold>\<open>Bounds.\<close> Physical memory and its counters are those of the built-in memory map; messages, lists and
  threads are unbounded in number. The counters of messages, of references to a queue, of running threads
  and of the readers of a lock are 32-bit words that wrap around; the claims that need it say that there
  are fewer than \<open>2 ^ 31\<close> references and readers and fewer than \<open>2 ^ 32\<close> running threads.

  \<^bold>\<open>Not modelled.\<close> The virtual memory manager, processes and threads, signals, load balancing,
  timers, the other file systems, Unix sockets and the remaining system calls are outside the present scope.
  System V semaphores and shared memory (\<^verbatim>\<open>kernel/ipc/sem.c\<close>, \<^verbatim>\<open>shm.c\<close>) use the types \<^verbatim>\<open>semaphore_t\<close> and
  \<^verbatim>\<open>shm_segment_t\<close>, which the repository does not define, so the width and sign of their fields are unknown;
  \<^verbatim>\<open>kernel/ipc/msg.c\<close> does not parse. Drivers, boot code and interrupt entry act on hardware and have no
  result to state. Spin locks and mutexes appear only as the atomicity they provide.
\<close>

end
